(* ===== verification/Dory_Prelude.thy ===== *)
theory Dory_Prelude
  imports Main "HOL-Library.Multiset" "HOL-Library.AList" "HOL-Library.Word"
begin

text \<open>
  Shared vocabulary of the development: the integer types of the C++ code, the
  named collections of rewrite rules, and generic facts on lists, association lists
  and multisets that every component uses.

  The C++ containers are modelled as follows.  A \<open>std::list\<close> or \<open>std::vector\<close> is a
  list.  A \<open>std::unordered_map\<close> is an association list with distinct keys (lookup is
  \<open>map_of\<close>, insertion or assignment is \<open>AList.update\<close>, erasure is \<open>AList.delete\<close>): the
  iteration order of an unordered map is unspecified, so it is the order of the
  association list, which no theorem fixes.  A \<open>std::unordered_set\<close> is a set.
  The code is built with \<open>NDEBUG\<close> in release mode, so \<open>assert\<close> does nothing: the
  asserted conditions are lemmas here, not branches.
\<close>

named_theorems batch_defs \<open>definitions of the batching components\<close>
named_theorems fifo_simps \<open>rewrite rules on per-topic projections\<close>

section \<open>Integer types\<close>

type_synonym byte = "8 word"

text \<open>Conversion of a mathematical integer to \<open>int64_t\<close>, \<open>int32_t\<close> and \<open>int16_t\<close>
  (two's complement wrap-around).\<close>

definition i64 :: "int \<Rightarrow> int" where
  "i64 x = signed_take_bit 63 x"

definition i32 :: "int \<Rightarrow> int" where
  "i32 x = signed_take_bit 31 x"

definition i16 :: "int \<Rightarrow> int" where
  "i16 x = signed_take_bit 15 x"

definition i64_max :: int where
  "i64_max = 2 ^ 63 - 1"

lemma i64_id: "- (2 ^ 63) \<le> x \<Longrightarrow> x < 2 ^ 63 \<Longrightarrow> i64 x = x"
  unfolding i64_def by (rule signed_take_bit_int_eq_self) auto

lemma i32_id: "- (2 ^ 31) \<le> x \<Longrightarrow> x < 2 ^ 31 \<Longrightarrow> i32 x = x"
  unfolding i32_def by (rule signed_take_bit_int_eq_self) auto

lemma i16_id: "- (2 ^ 15) \<le> x \<Longrightarrow> x < 2 ^ 15 \<Longrightarrow> i16 x = x"
  unfolding i16_def by (rule signed_take_bit_int_eq_self) auto

lemma i64_le_max: "i64 x \<le> i64_max"
  using signed_take_bit_int_less_exp [of 63 x] by (simp add: i64_def i64_max_def)

section \<open>Event counters\<close>

text \<open>The named counters of \<open>src/base/counter.h\<close>: unsigned 32-bit numbers that wrap.\<close>

type_synonym TCounters = "string \<Rightarrow> 32 word"

definition Increment :: "string \<Rightarrow> TCounters \<Rightarrow> TCounters" where
  "Increment name c = c(name := c name + 1)"

section \<open>Lists, options and multisets\<close>

definition opt_list :: "'a option \<Rightarrow> 'a list" where
  "opt_list x = (case x of None \<Rightarrow> [] | Some a \<Rightarrow> [a])"

lemma opt_list_simps [simp]: "opt_list None = []" "opt_list (Some a) = [a]"
  by (simp_all add: opt_list_def)

lemma map_opt_list: "map f (opt_list x) = opt_list (map_option f x)"
  by (cases x) auto

lemma concat_nonempty [simp]: "concat (filter (\<lambda>ms. ms \<noteq> []) xss) = concat xss"
  by (induction xss) auto

text \<open>Composition of two steps of a first-in first-out container: \<open>h\<close>, \<open>h1\<close> and \<open>h2\<close> are its
  contents, \<open>a\<close> and \<open>b\<close> what comes out, \<open>x\<close> and \<open>y\<close> what goes in.\<close>

lemma fifo_trans:
  "a @ h1 = h @ x \<Longrightarrow> b @ h2 = h1 @ y \<Longrightarrow> (a @ b) @ h2 = h @ x @ y"
  by (metis append.assoc)

text \<open>Two multisets are equal when their parts agree for every value of a key.\<close>

lemma multiset_eq_by_key:
  assumes "\<And>k. filter_mset (\<lambda>x. f x = k) A = filter_mset (\<lambda>x. f x = k) B"
  shows "A = B"
proof (rule multiset_eqI)
  fix x
  have "count A x = count (filter_mset (\<lambda>y. f y = f x) A) x" by simp
  also have "\<dots> = count (filter_mset (\<lambda>y. f y = f x) B) x" by (simp only: assms)
  finally show "count A x = count B x" by simp
qed

section \<open>Association lists\<close>

text \<open>All values of an association list, in its order.\<close>

abbreviation vals :: "('k \<times> 'v) list \<Rightarrow> 'v list" where
  "vals al \<equiv> map snd al"

lemma vals_update_mset:
  "distinct (map fst al) \<Longrightarrow>
   mset (AList.update k v al) =
     (case map_of al k of None \<Rightarrow> add_mset (k, v) (mset al)
      | Some w \<Rightarrow> add_mset (k, v) (mset al - {#(k, w)#}))"
  by (induction al) (auto split: option.splits dest: map_of_SomeD)

lemma map_of_update_apply [simp]:
  "map_of (AList.update k v al) k' = (if k' = k then Some v else map_of al k')"
  by (simp add: update_conv')

lemma map_of_delete_apply [simp]:
  "map_of (AList.delete k al) k' = (if k' = k then None else map_of al k')"
  by (simp add: delete_conv')

lemma fst_update_set [simp]:
  "fst ` set (AList.update k v al) = insert k (fst ` set al)"
  by (induction al) auto

lemma distinct_keys_update [simp]:
  "distinct (map fst al) \<Longrightarrow> distinct (map fst (AList.update k v al))"
  by (rule distinct_update)

lemma distinct_keys_delete [simp]:
  "distinct (map fst al) \<Longrightarrow> distinct (map fst (AList.delete k al))"
  by (rule distinct_delete)

lemma map_of_eq_Some_iff_distinct:
  "distinct (map fst al) \<Longrightarrow> map_of al k = Some v \<longleftrightarrow> (k, v) \<in> set al"
  by (metis map_of_is_SomeI map_of_SomeD)

end
