(* ===== verification/Msg.thy ===== *)
theory Msg
  imports Dory_Prelude
begin

text \<open>
  A client message, \<open>TMsg\<close> of \<open>src/dory/msg.h\<close>.  The record's selectors are the
  accessor methods.  Messages are owned by \<open>std::unique_ptr\<close>, so at any time exactly one
  container holds a message: moving a message between lists is list surgery here, and
  mutating one is replacing the value where it is held.
\<close>

datatype TRoutingType = AnyPartition | PartitionKey

datatype TState = New | Batching | SendWait | AckWait | Processed

record TMsg =
  GetRoutingType :: TRoutingType
  GetPartitionKey :: int
  GetTimestamp :: int
  GetCreationTimestamp :: nat
  GetState :: TState
  GetFailedDeliveryAttemptCount :: nat
  GetTopic :: string
  GetPartition :: int
  GetKeyAndValue :: "byte list"
  GetKeySize :: nat
  BodyIsTruncated :: bool

definition GetValueSize :: "TMsg \<Rightarrow> nat" where
  "GetValueSize m = length (GetKeyAndValue m) - GetKeySize m"

definition SetPartition :: "int \<Rightarrow> TMsg \<Rightarrow> TMsg" where
  "SetPartition p m = m\<lparr>GetPartition := p\<rparr>"

definition SetState :: "TState \<Rightarrow> TMsg \<Rightarrow> TMsg" where
  "SetState st m = m\<lparr>GetState := st\<rparr>"

text \<open>\<open>CountFailedDeliveryAttempt\<close> increments the counter and returns its new value.\<close>

definition CountFailedDelivery :: "TMsg \<Rightarrow> TMsg \<times> nat" where
  "CountFailedDelivery m =
     (let n = GetFailedDeliveryAttemptCount m + 1
      in (m\<lparr>GetFailedDeliveryAttemptCount := n\<rparr>, n))"

text \<open>\<open>MakeKeyAndValue\<close> and the constructor of \<open>TMsg\<close>.  The monotonic clock reading is
  an argument.\<close>

definition MakeKeyAndValue :: "byte list \<Rightarrow> byte list \<Rightarrow> byte list" where
  "MakeKeyAndValue key val = key @ val"

definition TMsg_ctor ::
  "TRoutingType \<Rightarrow> int \<Rightarrow> int \<Rightarrow> nat \<Rightarrow> string \<Rightarrow> byte list \<Rightarrow> byte list \<Rightarrow> bool \<Rightarrow> TMsg" where
  "TMsg_ctor routing_type partition_key timestamp clock topic key val body_truncated =
     \<lparr>GetRoutingType = routing_type, GetPartitionKey = partition_key,
      GetTimestamp = timestamp, GetCreationTimestamp = clock, GetState = New,
      GetFailedDeliveryAttemptCount = 0, GetTopic = topic, GetPartition = 0,
      GetKeyAndValue = MakeKeyAndValue key val, GetKeySize = length key,
      BodyIsTruncated = body_truncated\<rparr>"

definition CreateAnyPartitionMsg ::
  "int \<Rightarrow> nat \<Rightarrow> string \<Rightarrow> byte list \<Rightarrow> byte list \<Rightarrow> bool \<Rightarrow> TMsg" where
  "CreateAnyPartitionMsg timestamp clock topic key val body_truncated =
     TMsg_ctor AnyPartition 0 timestamp clock topic key val body_truncated"

definition CreatePartitionKeyMsg ::
  "int \<Rightarrow> int \<Rightarrow> nat \<Rightarrow> string \<Rightarrow> byte list \<Rightarrow> byte list \<Rightarrow> bool \<Rightarrow> TMsg" where
  "CreatePartitionKeyMsg partition_key timestamp clock topic key val body_truncated =
     TMsg_ctor PartitionKey partition_key timestamp clock topic key val body_truncated"

text \<open>The key and the value of a message (\<open>WriteKey\<close> and \<open>WriteValue\<close> of
  \<open>src/dory/util/msg_util.cc\<close> copy exactly these bytes).\<close>

definition msg_key :: "TMsg \<Rightarrow> byte list" where
  "msg_key m = take (GetKeySize m) (GetKeyAndValue m)"

definition msg_value :: "TMsg \<Rightarrow> byte list" where
  "msg_value m = take (GetValueSize m) (drop (GetKeySize m) (GetKeyAndValue m))"

definition GetDataSize :: "TMsg list \<Rightarrow> nat" where
  "GetDataSize batch = (\<Sum>m\<leftarrow>batch. length (GetKeyAndValue m))"

lemma msg_key_value_ctor [simp]:
  "msg_key (TMsg_ctor r pk ts c t key val tr) = key"
  "msg_value (TMsg_ctor r pk ts c t key val tr) = val"
  by (simp_all add: msg_key_def msg_value_def TMsg_ctor_def MakeKeyAndValue_def GetValueSize_def)

lemma SetState_simps [simp]:
  "GetTopic (SetState st m) = GetTopic m" "GetState (SetState st m) = st"
  "GetTimestamp (SetState st m) = GetTimestamp m"
  "GetKeyAndValue (SetState st m) = GetKeyAndValue m"
  "GetKeySize (SetState st m) = GetKeySize m"
  "GetRoutingType (SetState st m) = GetRoutingType m"
  "GetPartition (SetState st m) = GetPartition m"
  "SetState st (SetState st' m) = SetState st m"
  by (simp_all add: SetState_def)

lemma SetPartition_simps [simp]:
  "GetTopic (SetPartition p m) = GetTopic m" "GetState (SetPartition p m) = GetState m"
  "GetPartition (SetPartition p m) = p" "GetKeyAndValue (SetPartition p m) = GetKeyAndValue m"
  "GetKeySize (SetPartition p m) = GetKeySize m"
  "GetRoutingType (SetPartition p m) = GetRoutingType m"
  by (simp_all add: SetPartition_def)

section \<open>Per-topic projections\<close>

text \<open>The messages of one topic, in order.  Per-topic order is what every queueing
  component must preserve.\<close>

definition of_topic :: "string \<Rightarrow> TMsg list \<Rightarrow> TMsg list" where
  "of_topic t ms = filter (\<lambda>m. GetTopic m = t) ms"

lemma of_topic_simps [simp, fifo_simps]:
  "of_topic t [] = []"
  "of_topic t (m # ms) = (if GetTopic m = t then m # of_topic t ms else of_topic t ms)"
  "of_topic t (xs @ ys) = of_topic t xs @ of_topic t ys"
  by (simp_all add: of_topic_def)

lemma of_topic_all: "(\<And>m. m \<in> set ms \<Longrightarrow> GetTopic m = t) \<Longrightarrow> of_topic t ms = ms"
  by (simp add: of_topic_def filter_id_conv)

lemma of_topic_none: "(\<And>m. m \<in> set ms \<Longrightarrow> GetTopic m \<noteq> t) \<Longrightarrow> of_topic t ms = []"
  by (simp add: of_topic_def filter_empty_conv)

lemma mset_of_topic: "mset (of_topic t ms) = filter_mset (\<lambda>m. GetTopic m = t) (mset ms)"
  by (simp add: of_topic_def)

lemma mset_eq_by_topic:
  assumes "\<And>t. mset (of_topic t xs) = mset (of_topic t ys)"
  shows "mset xs = mset ys"
  by (rule multiset_eq_by_key [of GetTopic]) (use assms in \<open>simp add: mset_of_topic\<close>)

text \<open>A batch is well formed when it is nonempty and all of its messages have one topic.\<close>

definition one_topic :: "TMsg list \<Rightarrow> bool" where
  "one_topic ms \<longleftrightarrow> (\<forall>m \<in> set ms. \<forall>n \<in> set ms. GetTopic m = GetTopic n)"

definition batch_ok :: "TMsg list \<Rightarrow> bool" where
  "batch_ok ms \<longleftrightarrow> ms \<noteq> [] \<and> one_topic ms"

lemma one_topicI: "(\<And>m. m \<in> set ms \<Longrightarrow> GetTopic m = t) \<Longrightarrow> one_topic ms"
  by (simp add: one_topic_def)

lemma one_topic_Nil [simp]: "one_topic []"
  by (simp add: one_topic_def)

lemma one_topic_Cons: "one_topic (m # ms) \<longleftrightarrow> (\<forall>x \<in> set ms. GetTopic x = GetTopic m)"
  unfolding one_topic_def by (metis list.set_intros set_ConsD)

lemma one_topic_hd: "one_topic ms \<Longrightarrow> m \<in> set ms \<Longrightarrow> GetTopic m = GetTopic (hd ms)"
  by (cases ms) (auto simp: one_topic_Cons)

lemma batch_ok_single [simp]: "batch_ok [m]"
  by (simp add: batch_ok_def one_topic_def)

lemma batch_ok_SetState [simp]: "batch_ok (map (SetState st) ms) = batch_ok ms"
  by (simp add: batch_ok_def one_topic_def)

text \<open>A container grouped by topic: each key of the association list holds messages of that
  topic only.\<close>

definition keyed_by_topic :: "(string \<times> TMsg list) list \<Rightarrow> bool" where
  "keyed_by_topic al \<longleftrightarrow>
     distinct (map fst al) \<and> (\<forall>(t, ms) \<in> set al. \<forall>m \<in> set ms. GetTopic m = t)"

definition lookup_list :: "('k \<times> 'v list) list \<Rightarrow> 'k \<Rightarrow> 'v list" where
  "lookup_list al k = (case map_of al k of None \<Rightarrow> [] | Some vs \<Rightarrow> vs)"

lemma lookup_list_Cons [simp]:
  "lookup_list [] k = []"
  "lookup_list ((k', vs) # al) k = (if k' = k then vs else lookup_list al k)"
  by (simp_all add: lookup_list_def)

lemma lookup_list_update [simp]:
  "lookup_list (AList.update k vs al) k' = (if k' = k then vs else lookup_list al k')"
  by (simp add: lookup_list_def)

lemma keyed_by_topic_Cons:
  "keyed_by_topic ((t, ms) # al) \<longleftrightarrow>
     t \<notin> fst ` set al \<and> (\<forall>m \<in> set ms. GetTopic m = t) \<and> keyed_by_topic al"
  by (auto simp: keyed_by_topic_def)

lemma keyed_by_topic_Nil [simp]: "keyed_by_topic []"
  by (simp add: keyed_by_topic_def)

lemma lookup_list_none: "k \<notin> fst ` set al \<Longrightarrow> lookup_list al k = []"
  by (induction al) auto

lemma of_topic_keyed:
  "keyed_by_topic al \<Longrightarrow> of_topic t (concat (map snd al)) = lookup_list al t"
proof (induction al)
  case (Cons p al)
  obtain k ms where p: "p = (k, ms)" by fastforce
  with Cons.prems have k: "k \<notin> fst ` set al" "\<And>m. m \<in> set ms \<Longrightarrow> GetTopic m = k"
    "keyed_by_topic al" by (auto simp: keyed_by_topic_Cons)
  show ?case
  proof (cases "k = t")
    case True
    with k have "of_topic t ms = ms" "lookup_list al t = []"
      using of_topic_all lookup_list_none by auto
    with Cons.IH [OF k(3)] p True show ?thesis by simp
  next
    case False
    with k(2) have "of_topic t ms = []" by (intro of_topic_none) blast
    with Cons.IH [OF k(3)] p False show ?thesis by simp
  qed
qed simp

lemma keyed_by_topic_member:
  "keyed_by_topic al \<Longrightarrow> (t, ms) \<in> set al \<Longrightarrow> m \<in> set ms \<Longrightarrow> GetTopic m = t"
  by (auto simp: keyed_by_topic_def)

lemma keyed_by_topic_lookup:
  "keyed_by_topic al \<Longrightarrow> m \<in> set (lookup_list al t) \<Longrightarrow> GetTopic m = t"
  by (cases "map_of al t") (auto simp: lookup_list_def dest!: map_of_SomeD dest: keyed_by_topic_member)

lemma keyed_by_topic_update:
  assumes "keyed_by_topic al" and "\<And>m. m \<in> set ms \<Longrightarrow> GetTopic m = t"
  shows "keyed_by_topic (AList.update t ms al)"
  unfolding keyed_by_topic_def
proof (intro conjI ballI)
  show d: "distinct (map fst (AList.update t ms al))"
    using assms(1) by (simp add: keyed_by_topic_def)
  fix p assume "p \<in> set (AList.update t ms al)"
  then have "map_of (AList.update t ms al) (fst p) = Some (snd p)"
    using d by (intro map_of_is_SomeI) auto
  then show "case p of (t, ms) \<Rightarrow> \<forall>m \<in> set ms. GetTopic m = t"
    using assms keyed_by_topic_member
    by (auto split: if_splits dest!: map_of_SomeD)
qed

lemma mset_keyed_update:
  assumes "keyed_by_topic al" and "\<And>m. m \<in> set ms \<Longrightarrow> GetTopic m = t"
  shows "mset (concat (map snd (AList.update t (lookup_list al t @ ms) al))) =
         mset (concat (map snd al)) + mset ms"
proof -
  have "keyed_by_topic (AList.update t (lookup_list al t @ ms) al)"
    using assms by (intro keyed_by_topic_update) (auto dest: keyed_by_topic_lookup)
  then have "mset (of_topic k (concat (map snd (AList.update t (lookup_list al t @ ms) al)))) =
        mset (of_topic k (concat (map snd al) @ ms))" for k
    using assms of_topic_all [of ms t] of_topic_none [of ms k]
    by (cases "k = t") (auto simp: of_topic_keyed)
  from mset_eq_by_topic [OF this] show ?thesis by simp
qed

end
