(* ===== verification/Batcher_Core.thy ===== *)
theory Batcher_Core
  imports Msg
begin

text \<open>
  Batching configuration (\<open>src/dory/batch/batch_config.h\<close>) and the core batching logic
  (\<open>TBatcherCore\<close>, \<open>src/dory/batch/batcher_core.{h,cc}\<close>).  The core keeps only a summary of
  the open batch: the number of messages, their total size and the least timestamp.  The
  abstraction here is \<open>summarises\<close>: the summary is that of a multiset of messages.

  Sizes and counts (\<open>size_t\<close>) are natural numbers, bounded in the code by the memory that
  holds the messages.  Timestamps are \<open>int64_t\<close>; adding a time limit wraps as the cast in
  the code does.
\<close>

section \<open>Configuration\<close>

record TBatchConfig =
  cfg_TimeLimit :: nat
  cfg_MsgCount :: nat
  cfg_ByteCount :: nat

definition TBatchConfig_ctor :: TBatchConfig where
  "TBatchConfig_ctor = \<lparr>cfg_TimeLimit = 0, cfg_MsgCount = 0, cfg_ByteCount = 0\<rparr>"

definition cfg_BatchingIsEnabled :: "TBatchConfig \<Rightarrow> bool" where
  "cfg_BatchingIsEnabled c \<longleftrightarrow> cfg_TimeLimit c \<noteq> 0 \<or> cfg_MsgCount c \<noteq> 0 \<or> cfg_ByteCount c \<noteq> 0"

definition TimeLimitIsEnabled :: "TBatchConfig \<Rightarrow> bool" where
  "TimeLimitIsEnabled c \<longleftrightarrow> cfg_TimeLimit c \<noteq> 0"

definition MsgCountLimitIsEnabled :: "TBatchConfig \<Rightarrow> bool" where
  "MsgCountLimitIsEnabled c \<longleftrightarrow> cfg_MsgCount c \<noteq> 0"

definition ByteCountLimitIsEnabled :: "TBatchConfig \<Rightarrow> bool" where
  "ByteCountLimitIsEnabled c \<longleftrightarrow> cfg_ByteCount c \<noteq> 0"

lemmas limit_enabled_defs =
  TimeLimitIsEnabled_def MsgCountLimitIsEnabled_def ByteCountLimitIsEnabled_def

section \<open>The core\<close>

datatype TAction =
  LeaveMsgAndReturnBatch | ReturnBatchAndTakeMsg | TakeMsgAndReturnBatch | TakeMsgAndLeaveBatch

record TBatcherCore =
  core_Config :: TBatchConfig
  core_MinTimestamp :: int
  core_MsgCount :: nat
  core_ByteCount :: nat

definition TBatcherCore_ctor :: "TBatchConfig \<Rightarrow> TBatcherCore" where
  "TBatcherCore_ctor config =
     \<lparr>core_Config = config, core_MinTimestamp = i64_max, core_MsgCount = 0, core_ByteCount = 0\<rparr>"

definition core_BatchingIsEnabled :: "TBatcherCore \<Rightarrow> bool" where
  "core_BatchingIsEnabled c = cfg_BatchingIsEnabled (core_Config c)"

definition core_IsEmpty :: "TBatcherCore \<Rightarrow> bool" where
  "core_IsEmpty c \<longleftrightarrow> core_MsgCount c = 0"

definition core_GetNextCompleteTime :: "TBatcherCore \<Rightarrow> int option" where
  "core_GetNextCompleteTime c =
     (if core_IsEmpty c \<or> \<not> TimeLimitIsEnabled (core_Config c) then None
      else Some (i64 (core_MinTimestamp c + int (cfg_TimeLimit (core_Config c)))))"

definition ClearState :: "TBatcherCore \<Rightarrow> TBatcherCore" where
  "ClearState c = c\<lparr>core_MinTimestamp := i64_max, core_MsgCount := 0, core_ByteCount := 0\<rparr>"

definition TestTimeLimit :: "TBatcherCore \<Rightarrow> int \<Rightarrow> int \<Rightarrow> bool" where
  "TestTimeLimit c now new_msg_timestamp =
     (if \<not> TimeLimitIsEnabled (core_Config c) then False
      else let min_ts = min (core_MinTimestamp c) new_msg_timestamp
           in i64 (min_ts + int (cfg_TimeLimit (core_Config c))) \<le> now)"

definition TestMsgCount :: "TBatcherCore \<Rightarrow> bool \<Rightarrow> bool" where
  "TestMsgCount c adding_msg =
     (if \<not> MsgCountLimitIsEnabled (core_Config c) then False
      else core_MsgCount c + (if adding_msg then 1 else 0) \<ge> cfg_MsgCount (core_Config c))"

definition TestByteCount :: "TBatcherCore \<Rightarrow> nat \<Rightarrow> bool" where
  "TestByteCount c bytes_to_add =
     (if \<not> ByteCountLimitIsEnabled (core_Config c) then False
      else core_ByteCount c + bytes_to_add \<ge> cfg_ByteCount (core_Config c))"

definition TestByteCountExceeded :: "TBatcherCore \<Rightarrow> nat \<Rightarrow> bool" where
  "TestByteCountExceeded c bytes_to_add =
     (if \<not> ByteCountLimitIsEnabled (core_Config c) then False
      else core_ByteCount c + bytes_to_add > cfg_ByteCount (core_Config c))"

definition TestAllLimits :: "TBatcherCore \<Rightarrow> int \<Rightarrow> bool" where
  "TestAllLimits c now \<longleftrightarrow>
     TestTimeLimit c now i64_max \<or> TestMsgCount c False \<or> TestByteCount c 0"

definition UpdateState :: "TBatcherCore \<Rightarrow> int \<Rightarrow> nat \<Rightarrow> TBatcherCore" where
  "UpdateState c timestamp body_size =
     c\<lparr>core_MinTimestamp := min (core_MinTimestamp c) timestamp,
       core_MsgCount := core_MsgCount c + 1,
       core_ByteCount := core_ByteCount c + body_size\<rparr>"

definition body_size :: "TMsg \<Rightarrow> nat" where
  "body_size m = max 1 (length (GetKeyAndValue m))"

definition ProcessNewMsg :: "TBatcherCore \<Rightarrow> int \<Rightarrow> TMsg \<Rightarrow> TAction \<times> TBatcherCore" where
  "ProcessNewMsg c now m =
     (if \<not> cfg_BatchingIsEnabled (core_Config c) then (LeaveMsgAndReturnBatch, c)
      else if ByteCountLimitIsEnabled (core_Config c)
              \<and> body_size m \<ge> cfg_ByteCount (core_Config c)
      then (LeaveMsgAndReturnBatch, ClearState c)
      else if TestByteCountExceeded c (body_size m) then
        (let c1 = ClearState c
         in if TestMsgCount c1 True \<or> TestTimeLimit c1 now (GetTimestamp m)
            then (LeaveMsgAndReturnBatch, c1)
            else (ReturnBatchAndTakeMsg, UpdateState c1 (GetTimestamp m) (body_size m)))
      else
        (let c1 = UpdateState c (GetTimestamp m) (body_size m)
         in if TestAllLimits c1 now then (TakeMsgAndReturnBatch, ClearState c1)
            else (TakeMsgAndLeaveBatch, c1)))"

section \<open>Abstraction: the summary of a multiset of messages\<close>

definition min_ts :: "TMsg multiset \<Rightarrow> int" where
  "min_ts M = Min (insert i64_max (GetTimestamp ` set_mset M))"

definition bytes_of :: "TMsg multiset \<Rightarrow> nat" where
  "bytes_of M = (\<Sum>m\<in>#M. body_size m)"

definition summarises :: "TBatcherCore \<Rightarrow> TMsg multiset \<Rightarrow> bool" where
  "summarises c M \<longleftrightarrow>
     core_MsgCount c = size M \<and> core_ByteCount c = bytes_of M \<and> core_MinTimestamp c = min_ts M"

text \<open>An open batch is strictly below every limit on its size.\<close>

definition below_limits :: "TBatchConfig \<Rightarrow> TMsg multiset \<Rightarrow> bool" where
  "below_limits cfg M \<longleftrightarrow>
     (MsgCountLimitIsEnabled cfg \<longrightarrow> size M < cfg_MsgCount cfg) \<and>
     (ByteCountLimitIsEnabled cfg \<longrightarrow> bytes_of M < cfg_ByteCount cfg)"

text \<open>A batch that is handed out never exceeds a limit.\<close>

definition within_limits :: "TBatchConfig \<Rightarrow> TMsg multiset \<Rightarrow> bool" where
  "within_limits cfg M \<longleftrightarrow>
     (MsgCountLimitIsEnabled cfg \<longrightarrow> size M \<le> cfg_MsgCount cfg) \<and>
     (ByteCountLimitIsEnabled cfg \<longrightarrow> bytes_of M \<le> cfg_ByteCount cfg)"

text \<open>The time limit of a batch has not passed.\<close>

definition time_open :: "TBatchConfig \<Rightarrow> int \<Rightarrow> TMsg multiset \<Rightarrow> bool" where
  "time_open cfg now M \<longleftrightarrow>
     (TimeLimitIsEnabled cfg \<longrightarrow> now < i64 (min_ts M + int (cfg_TimeLimit cfg)))"

text \<open>The invariant of a core that stands for the open batch \<open>M\<close>.\<close>

definition core_inv :: "TBatcherCore \<Rightarrow> TMsg multiset \<Rightarrow> bool" where
  "core_inv c M \<longleftrightarrow> summarises c M \<and> below_limits (core_Config c) M \<and>
     (\<not> core_BatchingIsEnabled c \<longrightarrow> M = {#})"

lemma min_ts_simps [simp]:
  "min_ts {#} = i64_max"
  "min_ts (add_mset m M) = min (min_ts M) (GetTimestamp m)"
proof -
  show "min_ts {#} = i64_max" by (simp add: min_ts_def)
  have "min_ts (add_mset m M) = Min (insert (GetTimestamp m) (insert i64_max (GetTimestamp ` set_mset M)))"
    by (simp add: min_ts_def insert_commute)
  also have "\<dots> = min (GetTimestamp m) (min_ts M)"
    by (subst Min_insert) (auto simp: min_ts_def)
  finally show "min_ts (add_mset m M) = min (min_ts M) (GetTimestamp m)"
    by (simp add: min.commute)
qed

lemma min_ts_le_max: "min_ts M \<le> i64_max"
  by (simp add: min_ts_def)

lemma bytes_of_simps [simp]:
  "bytes_of {#} = 0" "bytes_of (add_mset m M) = bytes_of M + body_size m"
  by (simp_all add: bytes_of_def)

lemma body_size_pos: "0 < body_size m"
  by (simp add: body_size_def)

lemma ClearState_simps [simp]:
  "core_Config (ClearState c) = core_Config c" "summarises (ClearState c) {#}"
  "core_IsEmpty (ClearState c)" "core_GetNextCompleteTime (ClearState c) = None"
  by (simp_all add: ClearState_def summarises_def core_IsEmpty_def core_GetNextCompleteTime_def)

lemma UpdateState_simps [simp]: "core_Config (UpdateState c ts n) = core_Config c"
  by (simp add: UpdateState_def)

lemma summarises_UpdateState:
  "summarises c M \<Longrightarrow> summarises (UpdateState c (GetTimestamp m) (body_size m)) (add_mset m M)"
  by (simp add: summarises_def UpdateState_def)

lemma core_inv_empty: "core_inv (ClearState c) {#}"
  by (simp add: core_inv_def below_limits_def limit_enabled_defs)

lemma core_inv_ctor: "core_inv (TBatcherCore_ctor cfg) {#}"
  by (simp add: core_inv_def below_limits_def limit_enabled_defs TBatcherCore_ctor_def summarises_def)

lemma core_inv_IsEmpty: "core_inv c M \<Longrightarrow> core_IsEmpty c \<longleftrightarrow> M = {#}"
  by (simp add: core_inv_def summarises_def core_IsEmpty_def)

lemma core_inv_NextCompleteTime:
  "core_inv c M \<Longrightarrow> core_GetNextCompleteTime c =
     (if M = {#} \<or> \<not> TimeLimitIsEnabled (core_Config c) then None
      else Some (i64 (min_ts M + int (cfg_TimeLimit (core_Config c)))))"
  by (simp add: core_inv_def summarises_def core_GetNextCompleteTime_def core_IsEmpty_def)

text \<open>The tests, read through the abstraction.\<close>

lemma TestByteCountExceeded_iff:
  "summarises c M \<Longrightarrow> TestByteCountExceeded c (body_size m) \<longleftrightarrow>
     ByteCountLimitIsEnabled (core_Config c) \<and> bytes_of (add_mset m M) > cfg_ByteCount (core_Config c)"
  by (simp add: TestByteCountExceeded_def summarises_def)

lemma TestAllLimits_iff:
  "summarises c M \<Longrightarrow> TestAllLimits c now \<longleftrightarrow>
     \<not> time_open (core_Config c) now M \<or> \<not> below_limits (core_Config c) M"
  using min_ts_le_max [of M]
  by (auto simp: TestAllLimits_def TestTimeLimit_def TestMsgCount_def TestByteCount_def
      summarises_def time_open_def below_limits_def Let_def not_less min_absorb1)

lemma single_msg_limits_iff:
  "TestMsgCount (ClearState c) True \<or> TestTimeLimit (ClearState c) now (GetTimestamp m) \<longleftrightarrow>
     (MsgCountLimitIsEnabled (core_Config c) \<and> cfg_MsgCount (core_Config c) \<le> 1) \<or>
     \<not> time_open (core_Config c) now {#m#}"
  by (auto simp: TestTimeLimit_def TestMsgCount_def time_open_def Let_def ClearState_def not_less)

text \<open>
  The behaviour of \<open>ProcessNewMsg\<close> on every branch, as an effect on the open batch \<open>M\<close>:
  which messages the action hands out and which remain.
\<close>

lemma ProcessNewMsg_spec:
  assumes inv: "core_inv c M" and eq: "ProcessNewMsg c now m = (a, c')"
  shows "core_Config c' = core_Config c"
    and "a = LeaveMsgAndReturnBatch \<Longrightarrow> core_inv c' {#}"
    and "a = ReturnBatchAndTakeMsg \<Longrightarrow>
           core_inv c' {#m#} \<and> time_open (core_Config c) now {#m#} \<and> M \<noteq> {#}"
    and "a = TakeMsgAndReturnBatch \<Longrightarrow>
           core_inv c' {#} \<and> within_limits (core_Config c) (add_mset m M)"
    and "a = TakeMsgAndLeaveBatch \<Longrightarrow>
           core_inv c' (add_mset m M) \<and> time_open (core_Config c) now (add_mset m M)"
proof -
  let ?cfg = "core_Config c"
  have sum: "summarises c M" and bel: "below_limits ?cfg M"
    using inv by (auto simp: core_inv_def)
  note sum' = summarises_UpdateState [OF sum, of m]
  have sum1: "summarises (UpdateState (ClearState c) (GetTimestamp m) (body_size m)) {#m#}"
    using summarises_UpdateState [of "ClearState c" "{#}" m] by simp
  note unf = eq [unfolded ProcessNewMsg_def Let_def single_msg_limits_iff
      TestByteCountExceeded_iff [OF sum] TestAllLimits_iff [OF sum'] UpdateState_simps]
  show "core_Config c' = ?cfg"
    using unf by (auto split: if_splits)
  show "a = LeaveMsgAndReturnBatch \<Longrightarrow> core_inv c' {#}"
    using unf inv core_inv_empty [of c] by (auto split: if_splits simp: core_inv_def core_BatchingIsEnabled_def)
  show "a = ReturnBatchAndTakeMsg \<Longrightarrow>
      core_inv c' {#m#} \<and> time_open ?cfg now {#m#} \<and> M \<noteq> {#}"
    using unf sum1 by (auto split: if_splits
        simp: core_inv_def below_limits_def core_BatchingIsEnabled_def)
  show "a = TakeMsgAndReturnBatch \<Longrightarrow> core_inv c' {#} \<and> within_limits ?cfg (add_mset m M)"
    using unf bel core_inv_empty by (auto split: if_splits simp: within_limits_def below_limits_def)
  show "a = TakeMsgAndLeaveBatch \<Longrightarrow>
      core_inv c' (add_mset m M) \<and> time_open ?cfg now (add_mset m M)"
    using unf sum' by (auto split: if_splits simp: core_inv_def core_BatchingIsEnabled_def)
qed

text \<open>A core that has just processed a message never announces a completion time that has
  already been reached.\<close>

lemma ProcessNewMsg_NextCompleteTime:
  assumes inv: "core_inv c M" and eq: "ProcessNewMsg c now m = (a, c')"
    and x: "core_GetNextCompleteTime c' = Some x"
  shows "now < x"
proof -
  note sp = ProcessNewMsg_spec [OF inv eq]
  show ?thesis
  proof (cases a)
    case LeaveMsgAndReturnBatch
    from core_inv_NextCompleteTime [OF sp(2) [OF this]] x show ?thesis by simp
  next
    case ReturnBatchAndTakeMsg
    with sp(3) have "core_inv c' {#m#}" "time_open (core_Config c) now {#m#}" by auto
    with core_inv_NextCompleteTime [OF this(1)] x sp(1) show ?thesis
      by (auto simp: time_open_def split: if_splits)
  next
    case TakeMsgAndReturnBatch
    with sp(4) have "core_inv c' {#}" by simp
    from core_inv_NextCompleteTime [OF this] x show ?thesis by simp
  next
    case TakeMsgAndLeaveBatch
    with sp(5) have "core_inv c' (add_mset m M)" "time_open (core_Config c) now (add_mset m M)"
      by auto
    with core_inv_NextCompleteTime [OF this(1)] x sp(1) show ?thesis
      by (auto simp: time_open_def split: if_splits)
  qed
qed

text \<open>The core does not look at the state of a message.\<close>

lemma ProcessNewMsg_SetState [simp]: "ProcessNewMsg c now (SetState st m) = ProcessNewMsg c now m"
  by (simp add: ProcessNewMsg_def body_size_def Let_def)

lemma ProcessNewMsg_Config:
  "ProcessNewMsg c now m = (a, c') \<Longrightarrow> core_Config c' = core_Config c"
  by (auto simp: ProcessNewMsg_def Let_def split: if_splits)

end
