(* ===== verification/Batcher_Interface.thy ===== *)
theory Batcher_Interface
  imports Msg
begin

text \<open>
  The contract that the batchers of \<open>src/dory/batch\<close> share, and what their clients may
  conclude from it.  A batcher holds messages per topic; adding a message may hand out
  complete batches and either keeps the message or leaves it with the caller.  The laws
  say that per topic nothing is lost, duplicated or reordered.
\<close>

datatype 'f batcher_event = Add TMsg int | Out 'f

abbreviation added :: "'f batcher_event \<Rightarrow> TMsg list" where
  "added e \<equiv> (case e of Add m now \<Rightarrow> [m] | Out f \<Rightarrow> [])"

text \<open>A history of calls.  A message that is left with the caller is sent on as a batch of
  its own right after the batches handed out by the call, as the clients do.\<close>

fun run_batcher ::
  "('s \<Rightarrow> TMsg \<Rightarrow> int \<Rightarrow> 's \<times> TMsg list list \<times> TMsg option) \<Rightarrow> ('f \<Rightarrow> 's \<Rightarrow> 's \<times> TMsg list list) \<Rightarrow>
   's \<Rightarrow> 'f batcher_event list \<Rightarrow> 's \<times> TMsg list list" where
  "run_batcher add out s [] = (s, [])"
| "run_batcher add out s (Add m now # es) =
     (let (s1, bs, r) = add s m now; (s2, bs2) = run_batcher add out s1 es
      in (s2, bs @ map (\<lambda>x. [x]) (opt_list r) @ bs2))"
| "run_batcher add out s (Out f # es) =
     (let (s1, bs) = out f s; (s2, bs2) = run_batcher add out s1 es in (s2, bs @ bs2))"

locale topic_batcher =
  fixes inv :: "'s \<Rightarrow> bool"
    and held :: "'s \<Rightarrow> string \<Rightarrow> TMsg list"
    and msgs :: "'s \<Rightarrow> TMsg multiset"
    and pre :: "TMsg \<Rightarrow> bool"
    and add :: "'s \<Rightarrow> TMsg \<Rightarrow> int \<Rightarrow> 's \<times> TMsg list list \<times> TMsg option"
  assumes held_msgs: "inv s \<Longrightarrow> filter_mset (\<lambda>x. GetTopic x = t) (msgs s) = mset (held s t)"
    and add_inv: "inv s \<Longrightarrow> pre m \<Longrightarrow> add s m now = (s', bs, r) \<Longrightarrow> inv s'"
    and add_rest: "inv s \<Longrightarrow> pre m \<Longrightarrow> add s m now = (s', bs, r) \<Longrightarrow> r = None \<or> r = Some m"
    and add_batches: "inv s \<Longrightarrow> pre m \<Longrightarrow> add s m now = (s', bs, r) \<Longrightarrow> b \<in> set bs \<Longrightarrow> batch_ok b"
    and add_fifo: "inv s \<Longrightarrow> pre m \<Longrightarrow> add s m now = (s', bs, r) \<Longrightarrow>
      of_topic t (concat bs) @ held s' t @ of_topic t (opt_list r) = held s t @ of_topic t [m]"
begin

lemma held_topic: "inv s \<Longrightarrow> x \<in> set (held s t) \<Longrightarrow> GetTopic x = t"
  using held_msgs [of s t] by (metis (mono_tags) filter_mset_eq_conv set_mset_mset)

lemma held_iff: "inv s \<Longrightarrow> x \<in># msgs s \<longleftrightarrow> x \<in> set (held s (GetTopic x))"
  using held_msgs [of s "GetTopic x"] by (metis (mono_tags, lifting) mem_Collect_eq set_mset_filter set_mset_mset)

text \<open>Conservation of messages follows from the per-topic law.\<close>

lemma add_conserves:
  assumes "inv s" "pre m" "add s m now = (s', bs, r)"
  shows "mset (concat bs) + msgs s' + mset (opt_list r) = add_mset m (msgs s)"
proof (rule multiset_eq_by_key [of GetTopic])
  fix t
  have "mset (of_topic t (concat bs)) + mset (held s' t) + mset (of_topic t (opt_list r)) =
        mset (held s t) + mset (of_topic t [m])"
    using arg_cong [OF add_fifo [OF assms, of t], of mset] by (simp only: mset_append add.assoc)
  with held_msgs [OF assms(1), of t] held_msgs [OF add_inv [OF assms], of t]
  show "filter_mset (\<lambda>x. GetTopic x = t) (mset (concat bs) + msgs s' + mset (opt_list r)) =
        filter_mset (\<lambda>x. GetTopic x = t) (add_mset m (msgs s))"
    by (simp add: mset_of_topic)
qed

text \<open>A message that comes back leaves nothing of its topic behind, so it may overtake
  nothing.\<close>

lemma rest_held_empty:
  assumes "inv s" "pre m" "add s m now = (s', bs, Some m)"
  shows "of_topic (GetTopic m) (concat bs) @ held s' (GetTopic m) = held s (GetTopic m)"
  using add_fifo [OF assms, of "GetTopic m"] by simp

end

locale flushing_batcher = topic_batcher inv held msgs pre add
  for inv :: "'s \<Rightarrow> bool" and held :: "'s \<Rightarrow> string \<Rightarrow> TMsg list"
    and msgs :: "'s \<Rightarrow> TMsg multiset" and pre :: "TMsg \<Rightarrow> bool"
    and add :: "'s \<Rightarrow> TMsg \<Rightarrow> int \<Rightarrow> 's \<times> TMsg list list \<times> TMsg option" +
  fixes out :: "'f \<Rightarrow> 's \<Rightarrow> 's \<times> TMsg list list"
  assumes out_inv: "inv s \<Longrightarrow> out f s = (s', bs) \<Longrightarrow> inv s'"
    and out_batches: "inv s \<Longrightarrow> out f s = (s', bs) \<Longrightarrow> b \<in> set bs \<Longrightarrow> batch_ok b"
    and out_fifo: "inv s \<Longrightarrow> out f s = (s', bs) \<Longrightarrow>
      of_topic t (concat bs) @ held s' t = held s t"
    and rest_blocks: "inv s \<Longrightarrow> pre m \<Longrightarrow> add s m now = (s', bs, Some m) \<Longrightarrow>
      held s' (GetTopic m) = []"
begin

lemma out_conserves:
  assumes "inv s" "out f s = (s', bs)"
  shows "mset (concat bs) + msgs s' = msgs s"
proof (rule multiset_eq_by_key [of GetTopic])
  fix t
  have "mset (of_topic t (concat bs)) + mset (held s' t) = mset (held s t)"
    using arg_cong [OF out_fifo [OF assms, of t], of mset] by simp
  with held_msgs [OF assms(1), of t] held_msgs [OF out_inv [OF assms], of t]
  show "filter_mset (\<lambda>x. GetTopic x = t) (mset (concat bs) + msgs s') =
        filter_mset (\<lambda>x. GetTopic x = t) (msgs s)"
    by (simp add: mset_of_topic)
qed

lemma add_step:
  assumes "inv s" "pre m" "add s m now = (s', bs, r)"
  shows "of_topic t (concat (bs @ map (\<lambda>x. [x]) (opt_list r))) @ held s' t =
         held s t @ of_topic t [m]"
proof (cases r)
  case None
  with add_fifo [OF assms, of t] show ?thesis by simp
next
  case (Some x)
  with add_rest [OF assms] have "r = Some m" by simp
  with add_fifo [OF assms, of t] rest_blocks assms show ?thesis by (cases "GetTopic m = t") auto
qed

lemma run_inv:
  assumes "inv s" and "\<forall>e \<in> set es. \<forall>m \<in> set (added e). pre m"
    and "run_batcher add out s es = (s', bs)"
  shows "inv s'"
  using assms
proof (induction es arbitrary: s bs)
  case (Cons e es)
  then show ?case by (cases e) (auto split: prod.splits dest: add_inv out_inv)
qed simp

lemma run_batches:
  assumes "inv s" and "\<forall>e \<in> set es. \<forall>m \<in> set (added e). pre m"
    and "run_batcher add out s es = (s', bs)" and "b \<in> set bs"
  shows "batch_ok b"
  using assms
proof (induction es arbitrary: s bs)
  case (Cons e es)
  show ?case
  proof (cases e)
    case (Add m now)
    with Cons show ?thesis
      by (auto split: prod.splits option.splits simp: opt_list_def)
        (blast intro: add_batches add_inv)+
  next
    case (Out f)
    with Cons show ?thesis
      by (auto split: prod.splits) (blast intro: out_batches out_inv)+
  qed
qed simp

text \<open>Over any history of calls, each topic's messages come out in the order they went in,
  and what has not come out is held.\<close>

lemma run_fifo:
  assumes "inv s" and "\<forall>e \<in> set es. \<forall>m \<in> set (added e). pre m"
    and "run_batcher add out s es = (s', bs)"
  shows "of_topic t (concat bs) @ held s' t = held s t @ of_topic t (concat (map added es))"
  using assms
proof (induction es arbitrary: s bs)
  case (Cons e es)
  show ?case
  proof (cases e)
    case (Add m now)
    obtain s1 bs1 r where a: "add s m now = (s1, bs1, r)" by (metis prod_cases3)
    obtain bs2 where r: "run_batcher add out s1 es = (s', bs2)"
      and bs: "bs = bs1 @ map (\<lambda>x. [x]) (opt_list r) @ bs2"
      using Cons.prems(3) Add a by (auto split: prod.splits)
    have "pre m" using Cons.prems(2) Add by simp
    note step = add_step [OF Cons.prems(1) this a, of t] add_inv [OF Cons.prems(1) this a]
    have "of_topic t (concat bs2) @ held s' t = held s1 t @ of_topic t (concat (map added es))"
      using Cons.IH [OF step(2) _ r] Cons.prems(2) by simp
    from fifo_trans [OF step(1) this] show ?thesis using Add bs by simp
  next
    case (Out f)
    obtain s1 bs1 where a: "out f s = (s1, bs1)" by fastforce
    obtain bs2 where r: "run_batcher add out s1 es = (s', bs2)" and bs: "bs = bs1 @ bs2"
      using Cons.prems(3) Out a by (auto split: prod.splits)
    have "of_topic t (concat bs2) @ held s' t = held s1 t @ of_topic t (concat (map added es))"
      using Cons.IH [OF out_inv [OF Cons.prems(1) a] _ r] Cons.prems(2) by simp
    from fifo_trans [OF _ this, of _ _ "[]"] out_fifo [OF Cons.prems(1) a, of t]
    show ?thesis using Out bs by simp
  qed
qed simp

text \<open>From an empty batcher, what came out together with what is held is exactly what went
  in.\<close>

lemma run_conserves:
  assumes "inv s" and "\<And>t. held s t = []" and "\<forall>e \<in> set es. \<forall>m \<in> set (added e). pre m"
    and "run_batcher add out s es = (s', bs)" and "\<And>t. held s' t = []"
  shows "mset (concat bs) = mset (concat (map added es))"
  by (rule mset_eq_by_topic) (use run_fifo [OF assms(1,3,4)] assms(2,5) in simp)

end

end
