(* ===== verification/Topic_Map.thy ===== *)
theory Topic_Map
  imports Msg
begin

text \<open>
  \<open>TTopicMap\<close>, \<open>src/dory/util/topic_map.{h,cc}\<close>: messages grouped by topic.  \<open>PutCommon\<close>
  returns a reference to the list of a topic; here it returns the map in which the list
  exists and the list, and its callers write the list back.
\<close>

record TTopicMap =
  TopicHash :: "(string \<times> TMsg list) list"

definition tm_IsEmpty :: "TTopicMap \<Rightarrow> bool" where
  "tm_IsEmpty m \<longleftrightarrow> TopicHash m = []"

definition tm_Clear :: "TTopicMap \<Rightarrow> TTopicMap" where
  "tm_Clear m = m\<lparr>TopicHash := []\<rparr>"

definition PutCommon :: "TTopicMap \<Rightarrow> string \<Rightarrow> TTopicMap \<times> TMsg list" where
  "PutCommon m topic =
     (case map_of (TopicHash m) topic of
        Some ms \<Rightarrow> (m, ms)
      | None \<Rightarrow> (m\<lparr>TopicHash := AList.update topic [] (TopicHash m)\<rparr>, []))"

definition tm_Put_msg :: "TTopicMap \<Rightarrow> TMsg \<Rightarrow> TTopicMap" where
  "tm_Put_msg m msg =
     (let (m', msg_list) = PutCommon m (GetTopic msg)
      in m'\<lparr>TopicHash := AList.update (GetTopic msg) (msg_list @ [msg]) (TopicHash m')\<rparr>)"

definition tm_Put_batch :: "TTopicMap \<Rightarrow> TMsg list \<Rightarrow> TTopicMap" where
  "tm_Put_batch m batch =
     (let topic = GetTopic (hd batch); (m', msg_list) = PutCommon m topic
      in m'\<lparr>TopicHash := AList.update topic (msg_list @ batch) (TopicHash m')\<rparr>)"

fun tm_Put_batches :: "TTopicMap \<Rightarrow> TMsg list list \<Rightarrow> TTopicMap" where
  "tm_Put_batches m [] = m"
| "tm_Put_batches m (batch # batch_list) = tm_Put_batches (tm_Put_batch m batch) batch_list"

definition tm_Get_topic :: "TTopicMap \<Rightarrow> string \<Rightarrow> TTopicMap \<times> TMsg list" where
  "tm_Get_topic m topic =
     (case map_of (TopicHash m) topic of
        Some ms \<Rightarrow> (m\<lparr>TopicHash := AList.delete topic (TopicHash m)\<rparr>, ms)
      | None \<Rightarrow> (m, []))"

definition tm_Get :: "TTopicMap \<Rightarrow> TTopicMap \<times> TMsg list list" where
  "tm_Get m = (m\<lparr>TopicHash := []\<rparr>, filter (\<lambda>ms. ms \<noteq> []) (map snd (TopicHash m)))"

section \<open>Invariant and contents\<close>

definition tm_inv :: "TTopicMap \<Rightarrow> bool" where
  "tm_inv m \<longleftrightarrow> keyed_by_topic (TopicHash m) \<and> (\<forall>ms \<in> snd ` set (TopicHash m). ms \<noteq> [])"

definition tm_held :: "TTopicMap \<Rightarrow> string \<Rightarrow> TMsg list" where
  "tm_held m t = lookup_list (TopicHash m) t"

definition tm_msgs :: "TTopicMap \<Rightarrow> TMsg multiset" where
  "tm_msgs m = mset (concat (map snd (TopicHash m)))"

lemma tm_inv_empty [simp]: "tm_inv \<lparr>TopicHash = []\<rparr>" "tm_held \<lparr>TopicHash = []\<rparr> t = []"
  "tm_msgs \<lparr>TopicHash = []\<rparr> = {#}"
  by (simp_all add: tm_inv_def tm_held_def tm_msgs_def)

lemma tm_IsEmpty_iff: "tm_inv m \<Longrightarrow> tm_IsEmpty m \<longleftrightarrow> tm_msgs m = {#}"
  by (cases "TopicHash m") (auto simp: tm_inv_def tm_IsEmpty_def tm_msgs_def)

lemma tm_held_topic: "tm_inv m \<Longrightarrow> x \<in> set (tm_held m t) \<Longrightarrow> GetTopic x = t"
  by (auto simp: tm_inv_def tm_held_def dest: keyed_by_topic_lookup)

lemma tm_held_msgs: "tm_inv m \<Longrightarrow> filter_mset (\<lambda>x. GetTopic x = t) (tm_msgs m) = mset (tm_held m t)"
  by (simp add: tm_inv_def tm_held_def tm_msgs_def of_topic_keyed flip: mset_of_topic)

lemma update_update [simp]: "AList.update k v (AList.update k w al) = AList.update k v al"
  by (induction al) auto

text \<open>Both \<open>Put\<close> functions append to the list of the topic.\<close>

lemma PutCommon_then_append:
  "(let (m', ms) = PutCommon m t in m'\<lparr>TopicHash := AList.update t (ms @ new) (TopicHash m')\<rparr>) =
   m\<lparr>TopicHash := AList.update t (lookup_list (TopicHash m) t @ new) (TopicHash m)\<rparr>"
  by (simp add: PutCommon_def lookup_list_def split: option.splits)

lemma tm_Put_msg_eq: "tm_Put_msg m msg = tm_Put_batch m [msg]"
  by (simp add: tm_Put_msg_def tm_Put_batch_def Let_def)

lemma tm_Put_batch_eq:
  "tm_Put_batch m b = m\<lparr>TopicHash := AList.update (GetTopic (hd b))
     (lookup_list (TopicHash m) (GetTopic (hd b)) @ b) (TopicHash m)\<rparr>"
  using PutCommon_then_append [of m "GetTopic (hd b)" b] by (simp add: tm_Put_batch_def Let_def)

lemma tm_Put_batch_spec:
  assumes inv: "tm_inv m" and ok: "batch_ok b"
  shows "tm_inv (tm_Put_batch m b)"
    and "tm_held (tm_Put_batch m b) t = tm_held m t @ of_topic t b"
    and "tm_msgs (tm_Put_batch m b) = tm_msgs m + mset b"
proof -
  let ?t = "GetTopic (hd b)"
  have tp: "\<And>x. x \<in> set b \<Longrightarrow> GetTopic x = ?t" and ne: "b \<noteq> []"
    using ok one_topic_hd by (auto simp: batch_ok_def)
  have k: "keyed_by_topic (TopicHash m)" using inv by (simp add: tm_inv_def)
  have l: "GetTopic x = ?t" if "x \<in> set (lookup_list (TopicHash m) ?t @ b)" for x
    using that tp keyed_by_topic_lookup [OF k, of x ?t] by auto
  have "ms \<noteq> []" if "ms \<in> snd ` set (AList.update ?t (lookup_list (TopicHash m) ?t @ b) (TopicHash m))"
    for ms
  proof -
    from that obtain k' where "(k', ms) \<in> set (AList.update ?t (lookup_list (TopicHash m) ?t @ b) (TopicHash m))"
      by auto
    then have "map_of (AList.update ?t (lookup_list (TopicHash m) ?t @ b) (TopicHash m)) k' = Some ms"
      using k by (intro map_of_is_SomeI) (auto simp: keyed_by_topic_def)
    then show ?thesis using inv ne by (force simp: tm_inv_def split: if_splits dest: map_of_SomeD)
  qed
  moreover have "keyed_by_topic (AList.update ?t (lookup_list (TopicHash m) ?t @ b) (TopicHash m))"
    by (rule keyed_by_topic_update [OF k l])
  ultimately show "tm_inv (tm_Put_batch m b)" by (simp add: tm_inv_def tm_Put_batch_eq)
  show "tm_held (tm_Put_batch m b) t = tm_held m t @ of_topic t b"
    using of_topic_all [OF tp] of_topic_none [of b t] tp
    by (cases "t = ?t") (auto simp: tm_held_def tm_Put_batch_eq)
  show "tm_msgs (tm_Put_batch m b) = tm_msgs m + mset b"
    using mset_keyed_update [OF k tp] by (simp add: tm_msgs_def tm_Put_batch_eq)
qed

lemmas tm_Put_msg_spec = tm_Put_batch_spec [OF _ batch_ok_single, folded tm_Put_msg_eq]

lemma tm_Put_batches_spec:
  assumes "tm_inv m" and "\<forall>b \<in> set bs. batch_ok b"
  shows "tm_inv (tm_Put_batches m bs) \<and>
    tm_held (tm_Put_batches m bs) t = tm_held m t @ of_topic t (concat bs) \<and>
    tm_msgs (tm_Put_batches m bs) = tm_msgs m + mset (concat bs)"
  using assms by (induction bs arbitrary: m) (simp_all add: tm_Put_batch_spec)

lemma tm_Get_spec:
  assumes inv: "tm_inv m" and eq: "tm_Get m = (m', bs)"
  shows "m' = \<lparr>TopicHash = []\<rparr>" and "of_topic t (concat bs) = tm_held m t"
    and "mset (concat bs) = tm_msgs m" and "\<And>b. b \<in> set bs \<Longrightarrow> batch_ok b"
    and "distinct (map (\<lambda>b. GetTopic (hd b)) bs)"
proof -
  have k: "keyed_by_topic (TopicHash m)" and ne: "\<And>ms. ms \<in> snd ` set (TopicHash m) \<Longrightarrow> ms \<noteq> []"
    using inv by (auto simp: tm_inv_def)
  have m': "m' = \<lparr>TopicHash = []\<rparr>" and bs: "bs = map snd (TopicHash m)"
    using eq ne by (auto simp: tm_Get_def filter_id_conv)
  show "m' = \<lparr>TopicHash = []\<rparr>" by (rule m')
  show "of_topic t (concat bs) = tm_held m t" "mset (concat bs) = tm_msgs m"
    using of_topic_keyed [OF k] by (simp_all add: bs tm_held_def tm_msgs_def)
  show "batch_ok b" if "b \<in> set bs" for b
  proof -
    from that obtain t where t: "(t, b) \<in> set (TopicHash m)" by (auto simp: bs)
    have "one_topic b" by (rule one_topicI [of _ t]) (rule keyed_by_topic_member [OF k t])
    with ne [of b] t show ?thesis by (force simp: batch_ok_def)
  qed
  have "map (\<lambda>b. GetTopic (hd b)) bs = map fst (TopicHash m)"
    unfolding bs map_map
    by (rule map_cong [OF refl]) (use ne keyed_by_topic_member [OF k] in force)
  then show "distinct (map (\<lambda>b. GetTopic (hd b)) bs)" using k by (simp add: keyed_by_topic_def)
qed

lemma tm_Get_topic_spec:
  assumes inv: "tm_inv m" and eq: "tm_Get_topic m topic = (m', ms)"
  shows "tm_inv m'" and "ms = tm_held m topic"
    and "tm_held m' t = (if t = topic then [] else tm_held m t)"
proof -
  show "ms = tm_held m topic" "tm_held m' t = (if t = topic then [] else tm_held m t)"
    using eq by (auto simp: tm_Get_topic_def tm_held_def lookup_list_def split: option.splits)
  have "set (AList.delete topic (TopicHash m)) \<subseteq> set (TopicHash m)"
    by (auto simp: AList.delete_eq)
  then show "tm_inv m'"
    using inv eq unfolding tm_inv_def keyed_by_topic_def tm_Get_topic_def
    by (auto split: option.splits) blast+
qed

end
