(* ===== verification/Combined_Topics_Batcher.thy ===== *)
theory Combined_Topics_Batcher
  imports Batcher_Core Batcher_Interface Topic_Map
begin

text \<open>
  \<open>TCombinedTopicsBatcher\<close>, \<open>src/dory/batch/combined_topics_batcher.{h,cc}\<close>: one batch for
  all topics a filter selects, with the limits counted over all of them.
\<close>

record TCombinedConfig =
  ctc_BatchConfig :: TBatchConfig
  ctc_TopicFilter :: "string set"
  ctc_ExcludeTopicFilter :: bool

record TCombinedTopicsBatcher =
  ctb_CoreState :: TBatcherCore
  ctb_TopicFilter :: "string set"
  ctb_ExcludeTopicFilter :: bool
  ctb_TopicMap :: TTopicMap

definition TCombinedConfig_default :: TCombinedConfig where
  "TCombinedConfig_default =
     \<lparr>ctc_BatchConfig = TBatchConfig_ctor, ctc_TopicFilter = {}, ctc_ExcludeTopicFilter = False\<rparr>"

definition TCombinedTopicsBatcher_ctor :: "TCombinedConfig \<Rightarrow> TCombinedTopicsBatcher" where
  "TCombinedTopicsBatcher_ctor config =
     \<lparr>ctb_CoreState = TBatcherCore_ctor (ctc_BatchConfig config),
      ctb_TopicFilter = ctc_TopicFilter config,
      ctb_ExcludeTopicFilter = ctc_ExcludeTopicFilter config,
      ctb_TopicMap = \<lparr>TopicHash = []\<rparr>\<rparr>"

definition ctb_GetConfig :: "TCombinedTopicsBatcher \<Rightarrow> TCombinedConfig" where
  "ctb_GetConfig b =
     \<lparr>ctc_BatchConfig = core_Config (ctb_CoreState b), ctc_TopicFilter = ctb_TopicFilter b,
      ctc_ExcludeTopicFilter = ctb_ExcludeTopicFilter b\<rparr>"

definition ctb_IsEmpty :: "TCombinedTopicsBatcher \<Rightarrow> bool" where
  "ctb_IsEmpty b = core_IsEmpty (ctb_CoreState b)"

definition ctb_BatchingIsEnabled :: "TCombinedTopicsBatcher \<Rightarrow> bool" where
  "ctb_BatchingIsEnabled b \<longleftrightarrow>
     (ctb_ExcludeTopicFilter b \<or> ctb_TopicFilter b \<noteq> {}) \<and> core_BatchingIsEnabled (ctb_CoreState b)"

definition ctb_BatchingIsEnabled_topic :: "TCombinedTopicsBatcher \<Rightarrow> string \<Rightarrow> bool" where
  "ctb_BatchingIsEnabled_topic b topic =
     (if \<not> core_BatchingIsEnabled (ctb_CoreState b) then False
      else if ctb_TopicFilter b = {} then ctb_ExcludeTopicFilter b
      else (topic \<notin> ctb_TopicFilter b) = ctb_ExcludeTopicFilter b)"

definition ctb_GetNextCompleteTime :: "TCombinedTopicsBatcher \<Rightarrow> int option" where
  "ctb_GetNextCompleteTime b = core_GetNextCompleteTime (ctb_CoreState b)"

definition ctb_TakeBatch :: "TCombinedTopicsBatcher \<Rightarrow> TCombinedTopicsBatcher \<times> TMsg list list" where
  "ctb_TakeBatch b =
     (let (m, result) = tm_Get (ctb_TopicMap b)
      in (b\<lparr>ctb_TopicMap := m, ctb_CoreState := ClearState (ctb_CoreState b)\<rparr>, result))"

definition ctb_AddMsg ::
  "TCombinedTopicsBatcher \<Rightarrow> TMsg \<Rightarrow> int \<Rightarrow>
   TCombinedTopicsBatcher \<times> TMsg list list \<times> TMsg option" where
  "ctb_AddMsg b msg now =
     (if \<not> ctb_BatchingIsEnabled_topic b (GetTopic msg) then
        (case ctb_GetNextCompleteTime b of
           Some nct \<Rightarrow>
             if now \<ge> nct then (let (b', bs) = ctb_TakeBatch b in (b', bs, Some msg))
             else (b, [], Some msg)
         | None \<Rightarrow> (b, [], Some msg))
      else
        let (action, c) = ProcessNewMsg (ctb_CoreState b) now msg;
            b1 = b\<lparr>ctb_CoreState := c\<rparr>
        in case action of
             LeaveMsgAndReturnBatch \<Rightarrow>
               let (m, result) = tm_Get (ctb_TopicMap b1)
               in (b1\<lparr>ctb_TopicMap := m\<rparr>, result, Some msg)
           | ReturnBatchAndTakeMsg \<Rightarrow>
               let (m, result) = tm_Get (ctb_TopicMap b1)
               in (b1\<lparr>ctb_TopicMap := tm_Put_msg m msg\<rparr>, result, None)
           | TakeMsgAndReturnBatch \<Rightarrow>
               let (m, result) = tm_Get (tm_Put_msg (ctb_TopicMap b1) msg)
               in (b1\<lparr>ctb_TopicMap := m\<rparr>, result, None)
           | TakeMsgAndLeaveBatch \<Rightarrow>
               (b1\<lparr>ctb_TopicMap := tm_Put_msg (ctb_TopicMap b1) msg\<rparr>, [], None))"

section \<open>Invariant\<close>

text \<open>The core summarises the messages of the topic map (so the two agree on emptiness, as
  \<open>IsEmpty\<close> asserts), and only topics for which batching is enabled have messages.\<close>

definition ctb_inv :: "TCombinedTopicsBatcher \<Rightarrow> bool" where
  "ctb_inv b \<longleftrightarrow> tm_inv (ctb_TopicMap b) \<and> core_inv (ctb_CoreState b) (tm_msgs (ctb_TopicMap b)) \<and>
     (\<forall>t. \<not> ctb_BatchingIsEnabled_topic b t \<longrightarrow> tm_held (ctb_TopicMap b) t = [])"

definition ctb_held :: "TCombinedTopicsBatcher \<Rightarrow> string \<Rightarrow> TMsg list" where
  "ctb_held b t = tm_held (ctb_TopicMap b) t"

definition ctb_msgs :: "TCombinedTopicsBatcher \<Rightarrow> TMsg multiset" where
  "ctb_msgs b = tm_msgs (ctb_TopicMap b)"

lemma ctb_inv_ctor: "ctb_inv (TCombinedTopicsBatcher_ctor config)"
  by (simp add: ctb_inv_def TCombinedTopicsBatcher_ctor_def core_inv_ctor)

lemma ctb_held_ctor [simp]: "ctb_held (TCombinedTopicsBatcher_ctor config) t = []"
  by (simp add: ctb_held_def TCombinedTopicsBatcher_ctor_def)

lemma ctb_IsEmpty_assert:
  "ctb_inv b \<Longrightarrow> core_IsEmpty (ctb_CoreState b) \<longleftrightarrow> tm_IsEmpty (ctb_TopicMap b)"
  using core_inv_IsEmpty [of "ctb_CoreState b" "tm_msgs (ctb_TopicMap b)"]
  by (simp add: ctb_inv_def tm_IsEmpty_iff)

lemma enabled_topic_iff:
  "ctb_BatchingIsEnabled_topic b t \<longleftrightarrow>
     core_BatchingIsEnabled (ctb_CoreState b) \<and> (t \<notin> ctb_TopicFilter b \<longleftrightarrow> ctb_ExcludeTopicFilter b)"
  by (auto simp: ctb_BatchingIsEnabled_topic_def)

lemma enabled_topic_implies_enabled:
  "ctb_BatchingIsEnabled_topic b t \<Longrightarrow> ctb_BatchingIsEnabled b"
  by (auto simp: ctb_BatchingIsEnabled_topic_def ctb_BatchingIsEnabled_def split: if_splits)

text \<open>Operations leave the configuration alone, so they leave alone which topics are
  enabled.\<close>

lemma enabled_topic_cong:
  "core_Config (ctb_CoreState b') = core_Config (ctb_CoreState b) \<Longrightarrow>
   ctb_TopicFilter b' = ctb_TopicFilter b \<Longrightarrow> ctb_ExcludeTopicFilter b' = ctb_ExcludeTopicFilter b \<Longrightarrow>
   ctb_BatchingIsEnabled_topic b' t = ctb_BatchingIsEnabled_topic b t"
  by (simp add: ctb_BatchingIsEnabled_topic_def core_BatchingIsEnabled_def)

lemma ctb_TakeBatch_spec:
  assumes inv: "ctb_inv b" and eq: "ctb_TakeBatch b = (b', bs)"
  shows "ctb_inv b'" and "of_topic t (concat bs) = ctb_held b t" and "ctb_held b' t = []"
    and "\<And>x. x \<in> set bs \<Longrightarrow> batch_ok x" and "ctb_GetNextCompleteTime b' = None"
    and "ctb_GetConfig b' = ctb_GetConfig b"
proof -
  have ti: "tm_inv (ctb_TopicMap b)" using inv by (simp add: ctb_inv_def)
  obtain m where g: "tm_Get (ctb_TopicMap b) = (m, bs)"
    and b': "b' = b\<lparr>ctb_TopicMap := m, ctb_CoreState := ClearState (ctb_CoreState b)\<rparr>"
    using eq by (auto simp: ctb_TakeBatch_def split: prod.splits)
  note sp = tm_Get_spec [OF ti g]
  show "ctb_inv b'" by (simp add: ctb_inv_def b' sp(1) core_inv_empty)
  show "of_topic t (concat bs) = ctb_held b t" by (simp add: sp(2) ctb_held_def)
  show "ctb_held b' t = []" by (simp add: b' sp(1) ctb_held_def)
  show "\<And>x. x \<in> set bs \<Longrightarrow> batch_ok x" by (rule sp(4))
  show "ctb_GetNextCompleteTime b' = None" by (simp add: b' ctb_GetNextCompleteTime_def)
  show "ctb_GetConfig b' = ctb_GetConfig b" by (simp add: b' ctb_GetConfig_def)
qed

lemma ctb_AddMsg_disabled_spec:
  assumes inv: "ctb_inv b" and dis: "\<not> ctb_BatchingIsEnabled_topic b (GetTopic msg)"
    and eq: "ctb_AddMsg b msg now = (b', bs, r)"
  shows "ctb_inv b'" and "of_topic t (concat bs) @ ctb_held b' t = ctb_held b t"
    and "r = Some msg" and "ctb_held b' (GetTopic msg) = []" and "\<And>x. x \<in> set bs \<Longrightarrow> batch_ok x"
    and "\<And>x. ctb_GetNextCompleteTime b' = Some x \<Longrightarrow> now < x"
    and "ctb_GetConfig b' = ctb_GetConfig b"
proof -
  obtain b1 bs1 where tk: "ctb_TakeBatch b = (b1, bs1)" by fastforce
  note sp = ctb_TakeBatch_spec [OF inv tk]
  have h: "ctb_held b (GetTopic msg) = []" using inv dis by (simp add: ctb_inv_def ctb_held_def)
  show "ctb_inv b'" "of_topic t (concat bs) @ ctb_held b' t = ctb_held b t" "r = Some msg"
    "ctb_held b' (GetTopic msg) = []" "\<And>x. x \<in> set bs \<Longrightarrow> batch_ok x"
    "\<And>x. ctb_GetNextCompleteTime b' = Some x \<Longrightarrow> now < x" "ctb_GetConfig b' = ctb_GetConfig b"
    using eq dis inv tk sp h by (auto simp: ctb_AddMsg_def split: option.splits if_splits)
qed

text \<open>When the topic is enabled, the action of the core decides what happens to the topic
  map: whether it is handed out before or after the message goes in, and who keeps it.\<close>

lemma ctb_AddMsg_enabled_spec:
  assumes inv: "ctb_inv b" and en: "ctb_BatchingIsEnabled_topic b (GetTopic msg)"
    and eq: "ctb_AddMsg b msg now = (b', bs, r)"
  shows "ctb_inv b'"
    and "of_topic t (concat bs) @ ctb_held b' t @ of_topic t (opt_list r) = ctb_held b t @ of_topic t [msg]"
    and "r = None \<or> r = Some msg" and "r = Some msg \<Longrightarrow> ctb_held b' (GetTopic msg) = []"
    and "\<And>x. x \<in> set bs \<Longrightarrow> batch_ok x"
    and "\<And>x. ctb_GetNextCompleteTime b' = Some x \<Longrightarrow> now < x"
    and "ctb_GetConfig b' = ctb_GetConfig b"
proof -
  let ?m = "ctb_TopicMap b"
  have ti: "tm_inv ?m" and ci: "core_inv (ctb_CoreState b) (tm_msgs ?m)"
    and ho: "\<And>t. \<not> ctb_BatchingIsEnabled_topic b t \<Longrightarrow> tm_held ?m t = []"
    using inv by (auto simp: ctb_inv_def)
  obtain a c where p: "ProcessNewMsg (ctb_CoreState b) now msg = (a, c)" by fastforce
  note sp = ProcessNewMsg_spec [OF ci p]
  note put = tm_Put_msg_spec [OF ti, of msg]
  note put0 = tm_Put_msg_spec [OF tm_inv_empty(1), of msg, unfolded tm_inv_empty, simplified]
  obtain m1 bs1 where g1: "tm_Get ?m = (m1, bs1)" by fastforce
  note get1 = tm_Get_spec [OF ti g1]
  obtain m2 bs2 where g2: "tm_Get (tm_Put_msg ?m msg) = (m2, bs2)" by fastforce
  note get2 = tm_Get_spec [OF put(1) g2]
  have core: "ctb_CoreState b' = c" and flt: "ctb_TopicFilter b' = ctb_TopicFilter b"
    "ctb_ExcludeTopicFilter b' = ctb_ExcludeTopicFilter b"
    and tmap: "(a, ctb_TopicMap b', bs, r) \<in>
      {(LeaveMsgAndReturnBatch, m1, bs1, Some msg), (ReturnBatchAndTakeMsg, tm_Put_msg m1 msg, bs1, None),
       (TakeMsgAndReturnBatch, m2, bs2, None), (TakeMsgAndLeaveBatch, tm_Put_msg ?m msg, [], None)}"
    using eq en p g1 g2 by (cases a; auto simp: ctb_AddMsg_def Let_def)+
  have enab: "ctb_BatchingIsEnabled_topic b' t = ctb_BatchingIsEnabled_topic b t" for t
    by (rule enabled_topic_cong) (simp_all add: core sp(1) flt)
  have ti': "tm_inv (ctb_TopicMap b')" using tmap get1(1) get2(1) put(1) put0(1) by auto
  have ci': "core_inv c (tm_msgs (ctb_TopicMap b'))"
    using tmap get1(1) get2(1) put(3) put0(3) sp(2-5) by auto
  have fifo: "of_topic t (concat bs) @ ctb_held b' t @ of_topic t (opt_list r) =
      ctb_held b t @ of_topic t [msg]" for t
    using tmap get1(1,2) get2(1,2) put(2) put0(2) by (auto simp: ctb_held_def)
  have dis: "tm_held (ctb_TopicMap b') t = []" if "\<not> ctb_BatchingIsEnabled_topic b' t" for t
    using fifo [of t] ho [of t] that en
    by (cases "GetTopic msg = t") (auto simp: enab ctb_held_def)
  show "ctb_inv b'" using ti' ci' dis by (simp add: ctb_inv_def core)
  show "of_topic t (concat bs) @ ctb_held b' t @ of_topic t (opt_list r) = ctb_held b t @ of_topic t [msg]"
    by (rule fifo)
  show "r = None \<or> r = Some msg" and "r = Some msg \<Longrightarrow> ctb_held b' (GetTopic msg) = []"
    using tmap get1(1) by (auto simp: ctb_held_def)
  show "\<And>x. x \<in> set bs \<Longrightarrow> batch_ok x" using tmap get1(4) get2(4) by auto
  show "\<And>x. ctb_GetNextCompleteTime b' = Some x \<Longrightarrow> now < x"
    using ProcessNewMsg_NextCompleteTime [OF ci p] by (simp add: ctb_GetNextCompleteTime_def core)
  show "ctb_GetConfig b' = ctb_GetConfig b" by (simp add: ctb_GetConfig_def core flt sp(1))
qed

definition ctb_out :: "unit \<Rightarrow> TCombinedTopicsBatcher \<Rightarrow> TCombinedTopicsBatcher \<times> TMsg list list" where
  "ctb_out u b = ctb_TakeBatch b"

lemma ctb_AddMsg_spec:
  assumes inv: "ctb_inv b" and eq: "ctb_AddMsg b msg now = (b', bs, r)"
  shows "ctb_inv b'"
    and "of_topic t (concat bs) @ ctb_held b' t @ of_topic t (opt_list r) = ctb_held b t @ of_topic t [msg]"
    and "r = None \<or> r = Some msg" and "r = Some msg \<Longrightarrow> ctb_held b' (GetTopic msg) = []"
    and "\<And>x. x \<in> set bs \<Longrightarrow> batch_ok x"
    and "\<And>x. ctb_GetNextCompleteTime b' = Some x \<Longrightarrow> now < x"
    and "ctb_GetConfig b' = ctb_GetConfig b"
proof -
  note d = ctb_AddMsg_disabled_spec [OF inv _ eq] and e = ctb_AddMsg_enabled_spec [OF inv _ eq]
  show "ctb_inv b'" using d(1) e(1) by blast
  show "of_topic t (concat bs) @ ctb_held b' t @ of_topic t (opt_list r) = ctb_held b t @ of_topic t [msg]"
    using d(2) [of t] d(3) e(2) [of t] by (cases "ctb_BatchingIsEnabled_topic b (GetTopic msg)") auto
  show "r = None \<or> r = Some msg" using d(3) e(3) by blast
  show "r = Some msg \<Longrightarrow> ctb_held b' (GetTopic msg) = []" using d(4) e(4) by blast
  show "\<And>x. x \<in> set bs \<Longrightarrow> batch_ok x" using d(5) e(5) by blast
  show "\<And>x. ctb_GetNextCompleteTime b' = Some x \<Longrightarrow> now < x" using d(6) e(6) by blast
  show "ctb_GetConfig b' = ctb_GetConfig b" using d(7) e(7) by blast
qed

interpretation combined: flushing_batcher ctb_inv ctb_held ctb_msgs "\<lambda>m. True" ctb_AddMsg ctb_out
proof (unfold_locales, goal_cases)
  case 1 then show ?case by (simp add: ctb_inv_def ctb_held_def ctb_msgs_def tm_held_msgs)
next
  case 2 then show ?case using ctb_AddMsg_spec(1) by blast
next
  case 3 then show ?case using ctb_AddMsg_spec(3) by blast
next
  case 4 then show ?case using ctb_AddMsg_spec(5) by blast
next
  case 5 then show ?case using ctb_AddMsg_spec(2) by blast
next
  case 6 then show ?case using ctb_TakeBatch_spec(1) by (simp add: ctb_out_def)
next
  case 7 then show ?case using ctb_TakeBatch_spec(4) by (simp add: ctb_out_def)
next
  case 8 then show ?case using ctb_TakeBatch_spec(2,3) by (simp add: ctb_out_def)
next
  case 9 then show ?case using ctb_AddMsg_spec(4) by blast
qed

text \<open>Whether a message is accepted does not depend on its state.\<close>

lemma ctb_accepts_SetState:
  "snd (snd (ctb_AddMsg b (SetState st m) now)) = None \<longleftrightarrow> snd (snd (ctb_AddMsg b m now)) = None"
  by (simp add: ctb_AddMsg_def Let_def split: prod.splits option.splits TAction.splits)

section \<open>Properties\<close>

definition ex_ctb :: TCombinedTopicsBatcher where
  "ex_ctb = TCombinedTopicsBatcher_ctor
     \<lparr>ctc_BatchConfig = \<lparr>cfg_TimeLimit = 0, cfg_MsgCount = 3, cfg_ByteCount = 10\<rparr>,
      ctc_TopicFilter = {''x''}, ctc_ExcludeTopicFilter = True\<rparr>"

definition ex_ctb_msg :: "string \<Rightarrow> byte list \<Rightarrow> TMsg" where
  "ex_ctb_msg topic val = TMsg_ctor AnyPartition 0 0 0 topic [] val False"

definition ex_ctb_events :: "unit batcher_event list" where
  "ex_ctb_events = [Add (ex_ctb_msg ''a'' [1]) 1, Add (ex_ctb_msg ''b'' [2]) 2, Add (ex_ctb_msg ''x'' [3]) 3,
     Add (ex_ctb_msg ''a'' [4, 4, 4, 4, 4, 4, 4, 4, 4, 4]) 4, Add (ex_ctb_msg ''a'' [5]) 5, Out ()]"

definition ex_ctb_run :: "TCombinedTopicsBatcher \<times> TMsg list list" where
  "ex_ctb_run = run_batcher ctb_AddMsg ctb_out ex_ctb ex_ctb_events"

text \<open>C12: The combined topics batcher is first-in first-out per topic over every history of calls
  of \<open>AddMsg\<close> and \<open>TakeBatch\<close>: together with the messages that it leaves with the caller, what
  it hands out and what it holds is, for each topic, what was added, in order; and every
  batch is nonempty and of one topic.\<close>

theorem combined_batcher_fifo:
  assumes "run_batcher ctb_AddMsg ctb_out (TCombinedTopicsBatcher_ctor config) es = (b, bs)"
  shows "of_topic t (concat bs) @ ctb_held b t = of_topic t (concat (map added es)) \<and>
    (\<forall>x \<in> set bs. batch_ok x)"
proof -
  have p: "\<forall>e \<in> set es. \<forall>m \<in> set (added e). True" by simp
  from combined.run_fifo [OF ctb_inv_ctor p assms] combined.run_batches [OF ctb_inv_ctor p assms]
  show ?thesis by simp
qed

theorem combined_batcher_fifo_witness:
  "of_topic ''a'' (concat (snd ex_ctb_run)) @ ctb_held (fst ex_ctb_run) ''a'' =
     [ex_ctb_msg ''a'' [1], ex_ctb_msg ''a'' [4, 4, 4, 4, 4, 4, 4, 4, 4, 4], ex_ctb_msg ''a'' [5]]"
proof -
  have "of_topic ''a'' (concat (map added ex_ctb_events)) =
      [ex_ctb_msg ''a'' [1], ex_ctb_msg ''a'' [4, 4, 4, 4, 4, 4, 4, 4, 4, 4], ex_ctb_msg ''a'' [5]]"
    by code_simp
  moreover have "run_batcher ctb_AddMsg ctb_out (TCombinedTopicsBatcher_ctor (ctb_GetConfig ex_ctb)) ex_ctb_events =
      (fst ex_ctb_run, snd ex_ctb_run)"
    by (simp add: ex_ctb_run_def) (simp add: ex_ctb_def ctb_GetConfig_def TCombinedTopicsBatcher_ctor_def
        TBatcherCore_ctor_def)
  ultimately show ?thesis using combined_batcher_fifo by metis
qed

end
