(* ===== verification/Single_Topic_Batcher.thy ===== *)
theory Single_Topic_Batcher
  imports Batcher_Core Batcher_Interface
begin

text \<open>
  \<open>TSingleTopicBatcher\<close>, \<open>src/dory/batch/single_topic_batcher.{h,cc}\<close>: the batch of one topic.
  A moved-from \<open>TMsg::TPtr\<close> is \<open>None\<close>: \<open>AddMsg\<close> returns the batch handed out and what is left
  in the caller's pointer.
\<close>

record TSingleTopicBatcher =
  stb_CoreState :: TBatcherCore
  stb_MsgList :: "TMsg list"

definition TSingleTopicBatcher_ctor :: "TBatchConfig \<Rightarrow> TSingleTopicBatcher" where
  "TSingleTopicBatcher_ctor config = \<lparr>stb_CoreState = TBatcherCore_ctor config, stb_MsgList = []\<rparr>"

definition stb_IsEmpty :: "TSingleTopicBatcher \<Rightarrow> bool" where
  "stb_IsEmpty b = core_IsEmpty (stb_CoreState b)"

definition stb_BatchingIsEnabled :: "TSingleTopicBatcher \<Rightarrow> bool" where
  "stb_BatchingIsEnabled b = core_BatchingIsEnabled (stb_CoreState b)"

definition stb_GetNextCompleteTime :: "TSingleTopicBatcher \<Rightarrow> int option" where
  "stb_GetNextCompleteTime b = core_GetNextCompleteTime (stb_CoreState b)"

definition stb_TakeBatch :: "TSingleTopicBatcher \<Rightarrow> TSingleTopicBatcher \<times> TMsg list" where
  "stb_TakeBatch b =
     (b\<lparr>stb_CoreState := ClearState (stb_CoreState b), stb_MsgList := []\<rparr>, stb_MsgList b)"

definition stb_AddMsg ::
  "TSingleTopicBatcher \<Rightarrow> TMsg \<Rightarrow> int \<Rightarrow> TSingleTopicBatcher \<times> TMsg list \<times> TMsg option" where
  "stb_AddMsg b m now =
     (if \<not> stb_BatchingIsEnabled b then (b, [], Some m)
      else let (action, c) = ProcessNewMsg (stb_CoreState b) now m;
               b1 = b\<lparr>stb_CoreState := c\<rparr>
           in case action of
                LeaveMsgAndReturnBatch \<Rightarrow> (b1\<lparr>stb_MsgList := []\<rparr>, stb_MsgList b1, Some m)
              | ReturnBatchAndTakeMsg \<Rightarrow> (b1\<lparr>stb_MsgList := [m]\<rparr>, stb_MsgList b1, None)
              | TakeMsgAndReturnBatch \<Rightarrow> (b1\<lparr>stb_MsgList := []\<rparr>, stb_MsgList b1 @ [m], None)
              | TakeMsgAndLeaveBatch \<Rightarrow> (b1\<lparr>stb_MsgList := stb_MsgList b1 @ [m]\<rparr>, [], None))"

text \<open>The invariant: the core summarises the message list (in particular the count that
  \<open>AddMsg\<close> asserts), and all messages have the topic of the batch.\<close>

definition stb_inv :: "string \<Rightarrow> TSingleTopicBatcher \<Rightarrow> bool" where
  "stb_inv T b \<longleftrightarrow> core_inv (stb_CoreState b) (mset (stb_MsgList b)) \<and>
     (\<forall>m \<in> set (stb_MsgList b). GetTopic m = T)"

lemma stb_inv_ctor: "stb_inv T (TSingleTopicBatcher_ctor cfg)"
  by (simp add: stb_inv_def TSingleTopicBatcher_ctor_def core_inv_ctor)

lemma stb_inv_assert:
  "stb_inv T b \<Longrightarrow> length (stb_MsgList b) = core_MsgCount (stb_CoreState b)"
  by (simp add: stb_inv_def core_inv_def summarises_def)

lemma stb_inv_IsEmpty: "stb_inv T b \<Longrightarrow> stb_IsEmpty b \<longleftrightarrow> stb_MsgList b = []"
  using core_inv_IsEmpty [of "stb_CoreState b" "mset (stb_MsgList b)"]
  by (simp add: stb_inv_def stb_IsEmpty_def)

lemma stb_TakeBatch_spec:
  assumes "stb_inv T b" and "stb_TakeBatch b = (b', ms)"
  shows "stb_inv T b'" and "ms = stb_MsgList b" and "stb_MsgList b' = []"
    and "stb_GetNextCompleteTime b' = None"
  using assms(2)
  by (auto simp: stb_TakeBatch_def stb_inv_def core_inv_empty stb_GetNextCompleteTime_def)

lemma stb_AddMsg_enabled:
  assumes "stb_BatchingIsEnabled b" and "ProcessNewMsg (stb_CoreState b) now m = (a, c)"
  shows "stb_AddMsg b m now =
    (\<lparr>stb_CoreState = c,
       stb_MsgList = (case a of ReturnBatchAndTakeMsg \<Rightarrow> [m]
         | TakeMsgAndLeaveBatch \<Rightarrow> stb_MsgList b @ [m] | _ \<Rightarrow> [])\<rparr>,
     (case a of TakeMsgAndReturnBatch \<Rightarrow> stb_MsgList b @ [m]
         | TakeMsgAndLeaveBatch \<Rightarrow> [] | _ \<Rightarrow> stb_MsgList b),
     (case a of LeaveMsgAndReturnBatch \<Rightarrow> Some m | _ \<Rightarrow> None))"
  using assms by (cases a) (simp_all add: stb_AddMsg_def)

lemma stb_AddMsg_disabled: "\<not> stb_BatchingIsEnabled b \<Longrightarrow> stb_AddMsg b m now = (b, [], Some m)"
  by (simp add: stb_AddMsg_def)

lemma stb_inv_disabled: "stb_inv T b \<Longrightarrow> \<not> stb_BatchingIsEnabled b \<Longrightarrow> stb_MsgList b = []"
  by (simp add: stb_inv_def core_inv_def stb_BatchingIsEnabled_def)

lemma stb_AddMsg_Config:
  "stb_AddMsg b m now = (b', ms, r) \<Longrightarrow> core_Config (stb_CoreState b') = core_Config (stb_CoreState b)"
  using ProcessNewMsg_Config [of "stb_CoreState b" now m]
  by (auto simp: stb_AddMsg_def Let_def split: if_splits prod.splits TAction.splits)

lemma stb_TakeBatch_Config:
  "stb_TakeBatch b = (b', ms) \<Longrightarrow> core_Config (stb_CoreState b') = core_Config (stb_CoreState b)"
  by (auto simp: stb_TakeBatch_def)

text \<open>What one \<open>AddMsg\<close> does to the open batch, in one statement: order is kept, the
  message comes back only when nothing stays behind, and the new expiry is in the future.\<close>

lemma stb_AddMsg_spec:
  assumes inv: "stb_inv T b" and m: "GetTopic m = T" and eq: "stb_AddMsg b m now = (b', ms, r)"
  shows "stb_inv T b'"
    and "ms @ stb_MsgList b' @ opt_list r = stb_MsgList b @ [m]"
    and "r = None \<or> r = Some m"
    and "r = Some m \<Longrightarrow> stb_MsgList b' = []"
    and "\<And>x. stb_GetNextCompleteTime b' = Some x \<Longrightarrow> now < x"
proof -
  have ci: "core_inv (stb_CoreState b) (mset (stb_MsgList b))"
    and tp: "\<forall>x \<in> set (stb_MsgList b). GetTopic x = T"
    using inv by (auto simp: stb_inv_def)
  obtain a c where p: "ProcessNewMsg (stb_CoreState b) now m = (a, c)" by fastforce
  note sp = ProcessNewMsg_spec [OF ci p]
  have "stb_inv T b' \<and> ms @ stb_MsgList b' @ opt_list r = stb_MsgList b @ [m] \<and>
     (r = None \<or> r = Some m) \<and> (r = Some m \<longrightarrow> stb_MsgList b' = []) \<and>
     (\<forall>x. stb_GetNextCompleteTime b' = Some x \<longrightarrow> now < x)"
  proof (cases "stb_BatchingIsEnabled b")
    case True
    have t: "now < x" if "core_GetNextCompleteTime c = Some x" for x
      using ProcessNewMsg_NextCompleteTime [OF ci p that] .
    note eq' = eq [unfolded stb_AddMsg_enabled [OF True p], symmetric, unfolded prod.inject]
    have "core_inv c (mset (stb_MsgList b'))" using eq' sp(2-5) by (cases a) simp_all
    moreover have "\<forall>x \<in> set (stb_MsgList b'). GetTopic x = T"
      using eq' m tp by (cases a) simp_all
    moreover have "stb_CoreState b' = c" using eq' by simp
    ultimately have "stb_inv T b'" by (simp add: stb_inv_def)
    with eq' t show ?thesis
      by (cases a) (simp_all add: stb_GetNextCompleteTime_def)
  next
    case False
    with eq have "b' = b" "ms = []" "r = Some m" by (simp_all add: stb_AddMsg_disabled)
    with inv stb_inv_disabled [OF inv False] core_inv_NextCompleteTime [OF ci] show ?thesis
      by (simp add: stb_GetNextCompleteTime_def)
  qed
  then show "stb_inv T b'" and "ms @ stb_MsgList b' @ opt_list r = stb_MsgList b @ [m]"
    and "r = None \<or> r = Some m" and "r = Some m \<Longrightarrow> stb_MsgList b' = []"
    and "\<And>x. stb_GetNextCompleteTime b' = Some x \<Longrightarrow> now < x"
    by blast+
qed

text \<open>As a batcher with the shared contract: the batch handed out, if any, as a list of
  batches.\<close>

definition stb_add ::
  "TSingleTopicBatcher \<Rightarrow> TMsg \<Rightarrow> int \<Rightarrow> TSingleTopicBatcher \<times> TMsg list list \<times> TMsg option" where
  "stb_add b m now =
     (let (b', ms, r) = stb_AddMsg b m now in (b', (if ms = [] then [] else [ms]), r))"

definition stb_held :: "string \<Rightarrow> TSingleTopicBatcher \<Rightarrow> string \<Rightarrow> TMsg list" where
  "stb_held T b t = (if t = T then stb_MsgList b else [])"

definition stb_out :: "unit \<Rightarrow> TSingleTopicBatcher \<Rightarrow> TSingleTopicBatcher \<times> TMsg list list" where
  "stb_out u b = (let (b', ms) = stb_TakeBatch b in (b', (if ms = [] then [] else [ms])))"

interpretation single: flushing_batcher "stb_inv T" "stb_held T" "\<lambda>b. mset (stb_MsgList b)"
  "\<lambda>m. GetTopic m = T" stb_add stb_out
  for T
proof unfold_locales
  fix s m now s' bs r b t
  assume a: "stb_inv T s" "GetTopic m = T" "stb_add s m now = (s', bs, r)"
  obtain s1 ms r1 where e1: "stb_AddMsg s m now = (s1, ms, r1)" by (metis prod_cases3)
  with a(3) have e: "stb_AddMsg s m now = (s', ms, r)" "concat bs = ms"
    and bs: "bs = (if ms = [] then [] else [ms])"
    by (auto simp: stb_add_def)
  note sp = stb_AddMsg_spec [OF a(1,2) e(1)]
  show "stb_inv T s'" and "r = None \<or> r = Some m" using sp by auto
  have mst: "GetTopic x = T" if "x \<in> set ms" for x
  proof -
    have "x \<in> set (stb_MsgList s @ [m])"
      using that sp(2) by (metis UnI1 set_append)
    with a(1,2) show ?thesis unfolding stb_inv_def by fastforce
  qed
  show "of_topic t (concat bs) @ stb_held T s' t @ of_topic t (opt_list r) =
        stb_held T s t @ of_topic t [m]"
  proof (cases "t = T")
    case True
    have "of_topic T (opt_list r) = opt_list r" using sp(3) a(2) by auto
    moreover have "of_topic T ms = ms" using mst by (rule of_topic_all)
    ultimately show ?thesis using True sp(2) e(2) a(2) by (simp add: stb_held_def)
  next
    case False
    have "of_topic t ms = []" by (rule of_topic_none) (use mst False in blast)
    with False a(2) sp(3) e(2) show ?thesis by (auto simp: stb_held_def)
  qed
  show "batch_ok b" if "b \<in> set bs"
    using that bs one_topicI [OF mst] by (auto simp: batch_ok_def split: if_splits)
next
  fix s t assume "stb_inv T s"
  then have "\<And>x. x \<in> set (stb_MsgList s) \<Longrightarrow> GetTopic x = T" by (simp add: stb_inv_def)
  then show "filter_mset (\<lambda>x. GetTopic x = t) (mset (stb_MsgList s)) = mset (stb_held T s t)"
    using of_topic_all [of "stb_MsgList s" T] of_topic_none [of "stb_MsgList s" t]
    by (cases "t = T") (simp_all add: stb_held_def flip: mset_of_topic)
next
  fix s f s' bs t b assume a: "stb_inv T s" "stb_out f s = (s', bs)"
  have tp: "\<And>x. x \<in> set (stb_MsgList s) \<Longrightarrow> GetTopic x = T" using a(1) by (simp add: stb_inv_def)
  have s': "s' = s\<lparr>stb_CoreState := ClearState (stb_CoreState s), stb_MsgList := []\<rparr>"
    and bs: "bs = (if stb_MsgList s = [] then [] else [stb_MsgList s])"
    using a(2) by (auto simp: stb_out_def stb_TakeBatch_def)
  show "stb_inv T s'" by (simp add: s' stb_inv_def core_inv_empty)
  have "of_topic t (stb_MsgList s) = stb_held T s t"
    using of_topic_all [OF tp] of_topic_none [of "stb_MsgList s" t] tp
    by (cases "t = T") (simp_all add: stb_held_def)
  then show "of_topic t (concat bs) @ stb_held T s' t = stb_held T s t"
    by (auto simp: s' bs stb_held_def)
  show "batch_ok b" if "b \<in> set bs"
    using that bs one_topicI [OF tp] by (auto simp: batch_ok_def split: if_splits)
next
  fix s m now s' bs
  assume a: "stb_inv T s" "GetTopic m = T" "stb_add s m now = (s', bs, Some m)"
  then obtain ms where "stb_AddMsg s m now = (s', ms, Some m)"
    by (auto simp: stb_add_def split: prod.splits)
  from stb_AddMsg_spec(4) [OF a(1,2) this] show "stb_held T s' (GetTopic m) = []"
    by (simp add: stb_held_def)
qed

text \<open>C10: The limits of a batch.  Between calls the open batch is strictly below the limits on
  message count and byte count; a batch that \<open>AddMsg\<close> hands out never exceeds them; the message
  is left with the caller only when it alone reaches a limit or batching is off; and a batch
  that stays open after \<open>AddMsg\<close> has not reached its time limit.\<close>

theorem batch_limits:
  assumes inv: "stb_inv T b" and m: "GetTopic m = T" and eq: "stb_AddMsg b m now = (b', ms, r)"
  defines "cfg \<equiv> core_Config (stb_CoreState b)"
  shows "below_limits cfg (mset (stb_MsgList b')) \<and> within_limits cfg (mset ms) \<and>
    (r = Some m \<longrightarrow> \<not> cfg_BatchingIsEnabled cfg \<or> \<not> below_limits cfg {#m#} \<or> \<not> time_open cfg now {#m#}) \<and>
    (stb_MsgList b' \<noteq> [] \<longrightarrow> time_open cfg now (mset (stb_MsgList b')))"
proof -
  have ci: "core_inv (stb_CoreState b) (mset (stb_MsgList b))" using inv by (simp add: stb_inv_def)
  have bel: "below_limits cfg (mset (stb_MsgList b))" using ci by (simp add: core_inv_def cfg_def)
  have wi: "within_limits cfg M" if "below_limits cfg M" for M
    using that by (auto simp: within_limits_def below_limits_def)
  have ci': "core_inv (stb_CoreState b') (mset (stb_MsgList b'))"
    using stb_AddMsg_spec(1) [OF inv m eq] by (simp add: stb_inv_def)
  then have b1: "below_limits cfg (mset (stb_MsgList b'))"
    using stb_AddMsg_Config [OF eq] by (simp add: core_inv_def cfg_def)
  have emp: "within_limits cfg {#}" by (simp add: within_limits_def)
  show ?thesis
  proof (cases "stb_BatchingIsEnabled b")
    case False
    with eq stb_inv_disabled [OF inv False] b1 emp show ?thesis
      by (auto simp: stb_AddMsg_disabled stb_BatchingIsEnabled_def core_BatchingIsEnabled_def cfg_def)
  next
    case True
    obtain a c where p: "ProcessNewMsg (stb_CoreState b) now m = (a, c)" by fastforce
    note eq' = eq [unfolded stb_AddMsg_enabled [OF True p], symmetric, unfolded prod.inject]
    note sp = ProcessNewMsg_spec [OF ci p]
    have left: "\<not> below_limits cfg {#m#} \<or> \<not> time_open cfg now {#m#}" if "a = LeaveMsgAndReturnBatch"
      using p that True single_msg_limits_iff [of "stb_CoreState b" now m]
      by (auto simp: ProcessNewMsg_def Let_def cfg_def below_limits_def stb_BatchingIsEnabled_def
          core_BatchingIsEnabled_def not_less split: if_splits)
    show ?thesis
      using eq' sp(3-5) left b1 wi [OF bel] emp by (cases a) (simp_all add: cfg_def)
  qed
qed

definition ex_stb :: TSingleTopicBatcher where
  "ex_stb = fst (stb_AddMsg
     (TSingleTopicBatcher_ctor \<lparr>cfg_TimeLimit = 10, cfg_MsgCount = 2, cfg_ByteCount = 100\<rparr>)
     (TMsg_ctor PartitionKey 0 1 0 ''a'' [] [] False) 1)"

theorem batch_limits_witness:
  "let m = TMsg_ctor PartitionKey 0 2 0 ''a'' [] [] False;
       (b', ms, r) = stb_AddMsg ex_stb m 2
   in length ms = 2 \<and> within_limits \<lparr>cfg_TimeLimit = 10, cfg_MsgCount = 2, cfg_ByteCount = 100\<rparr> (mset ms)"
proof -
  let ?m = "TMsg_ctor PartitionKey 0 2 0 ''a'' [] [] False"
  obtain b' ms r where eq: "stb_AddMsg ex_stb ?m 2 = (b', ms, r)" by (metis prod_cases3)
  have inv: "stb_inv ''a'' ex_stb"
    unfolding ex_stb_def
    by (rule stb_AddMsg_spec(1) [OF stb_inv_ctor]) (auto simp: TMsg_ctor_def prod_eq_iff)
  have "core_Config (stb_CoreState ex_stb) = \<lparr>cfg_TimeLimit = 10, cfg_MsgCount = 2, cfg_ByteCount = 100\<rparr> \<and>
      length (fst (snd (stb_AddMsg ex_stb ?m 2))) = 2" by code_simp
  with batch_limits [OF inv _ eq] eq show ?thesis by (simp add: TMsg_ctor_def)
qed

end
