(* ===== verification/Per_Topic_Batcher.thy ===== *)
theory Per_Topic_Batcher
  imports Single_Topic_Batcher
begin

text \<open>
  \<open>TPerTopicBatcher\<close>, \<open>src/dory/batch/per_topic_batcher.{h,cc}\<close>: one single-topic batcher per
  topic and an expiry tracker, a \<open>std::multiset\<close> of expiry records ordered by expiry time.
  Batch map entries refer to tracker records by iterator.  The tracker is a list sorted by
  expiry of pairs of a node identity and a record; an iterator is a node identity, the
  iterator \<open>end()\<close> is \<open>None\<close>.  Inserting equal keys goes to the upper bound, as the C++
  standard requires, and erasing one record leaves the other iterators valid.
\<close>

section \<open>State\<close>

record TPerTopicConfig =
  ptc_DefaultTopic :: TBatchConfig
  ptc_PerTopic :: "(string \<times> TBatchConfig) list"

definition ptc_Get :: "TPerTopicConfig \<Rightarrow> string \<Rightarrow> TBatchConfig" where
  "ptc_Get cfg topic =
     (case map_of (ptc_PerTopic cfg) topic of None \<Rightarrow> ptc_DefaultTopic cfg | Some c \<Rightarrow> c)"

record TBatchExpiryRecord =
  exp_Expiry :: int
  exp_Topic :: string

type_synonym TExpiryTracker = "(nat \<times> TBatchExpiryRecord) list"

fun exp_insert :: "nat \<Rightarrow> TBatchExpiryRecord \<Rightarrow> TExpiryTracker \<Rightarrow> TExpiryTracker" where
  "exp_insert n r [] = [(n, r)]"
| "exp_insert n r ((k, q) # xs) =
     (if exp_Expiry r < exp_Expiry q then (n, r) # (k, q) # xs else (k, q) # exp_insert n r xs)"

record TBatchMapEntry =
  ent_Batcher :: TSingleTopicBatcher
  ent_ExpiryRef :: "nat option"

record TPerTopicBatcher =
  ptb_Config :: "TPerTopicConfig option"
  ptb_BatchMap :: "(string \<times> TBatchMapEntry) list"
  ptb_ExpiryTracker :: TExpiryTracker
  ptb_NextNode :: nat

definition TPerTopicBatcher_ctor :: "TPerTopicConfig option \<Rightarrow> TPerTopicBatcher" where
  "TPerTopicBatcher_ctor config =
     \<lparr>ptb_Config = config, ptb_BatchMap = [], ptb_ExpiryTracker = [], ptb_NextNode = 0\<rparr>"

definition ptb_IsEnabled :: "TPerTopicBatcher \<Rightarrow> bool" where
  "ptb_IsEnabled b \<longleftrightarrow> ptb_Config b \<noteq> None"

section \<open>Operations\<close>

text \<open>Removing and inserting tracker records.\<close>

definition tracker_erase :: "nat \<Rightarrow> TPerTopicBatcher \<Rightarrow> TPerTopicBatcher" where
  "tracker_erase n b = b\<lparr>ptb_ExpiryTracker := AList.delete n (ptb_ExpiryTracker b)\<rparr>"

definition tracker_insert :: "TBatchExpiryRecord \<Rightarrow> TPerTopicBatcher \<Rightarrow> TPerTopicBatcher \<times> nat" where
  "tracker_insert r b =
     (b\<lparr>ptb_ExpiryTracker := exp_insert (ptb_NextNode b) r (ptb_ExpiryTracker b),
        ptb_NextNode := ptb_NextNode b + 1\<rparr>, ptb_NextNode b)"

definition set_entry :: "string \<Rightarrow> TBatchMapEntry \<Rightarrow> TPerTopicBatcher \<Rightarrow> TPerTopicBatcher" where
  "set_entry t e b = b\<lparr>ptb_BatchMap := AList.update t e (ptb_BatchMap b)\<rparr>"

text \<open>The loop of \<open>GetCompleteBatches\<close> runs over the records in order of expiry; the only
  record a step erases is the one it is at, so the list of records at the start drives it.\<close>

fun GetCompleteBatches_loop ::
  "TExpiryTracker \<Rightarrow> int \<Rightarrow> TPerTopicBatcher \<Rightarrow> TPerTopicBatcher \<times> TMsg list list" where
  "GetCompleteBatches_loop [] now b = (b, [])"
| "GetCompleteBatches_loop ((cur, r) # rest) now b =
     (if exp_Expiry r \<le> now then
        (case map_of (ptb_BatchMap b) (exp_Topic r) of
           None \<Rightarrow> GetCompleteBatches_loop rest now b
         | Some e \<Rightarrow>
             let (stb, batch) = stb_TakeBatch (ent_Batcher e);
                 e' = e\<lparr>ent_Batcher := stb, ent_ExpiryRef := None\<rparr>;
                 (b', result) =
                   GetCompleteBatches_loop rest now
                     (tracker_erase cur (set_entry (exp_Topic r) e' b))
             in (b', batch # result))
      else (b, []))"

definition ptb_GetCompleteBatches ::
  "TPerTopicBatcher \<Rightarrow> int \<Rightarrow> TPerTopicBatcher \<times> TMsg list list" where
  "ptb_GetCompleteBatches b now = GetCompleteBatches_loop (ptb_ExpiryTracker b) now b"

text \<open>Lines 86 to 111 of \<open>AddMsg\<close>: bring the tracker in line with the new completion time of
  the batch.  \<open>e\<close> is the entry with its batcher updated and its reference not yet.\<close>

definition update_expiry ::
  "string \<Rightarrow> TBatchMapEntry \<Rightarrow> int \<Rightarrow> int option \<Rightarrow> TPerTopicBatcher \<Rightarrow>
   TPerTopicBatcher \<times> TBatchMapEntry" where
  "update_expiry topic e expiry opt_nct_final b =
     (let remove_old_expiry =
            (ent_ExpiryRef e \<noteq> None \<and>
              (case opt_nct_final of Some nct \<Rightarrow> nct \<noteq> expiry | None \<Rightarrow> True));
          add_new_expiry =
            (case opt_nct_final of
               Some nct \<Rightarrow> ent_ExpiryRef e \<noteq> None \<longrightarrow> nct \<noteq> expiry
             | None \<Rightarrow> False);
          (b1, e1) =
            (if remove_old_expiry then
               (tracker_erase (the (ent_ExpiryRef e)) b, e\<lparr>ent_ExpiryRef := None\<rparr>)
             else (b, e))
      in if add_new_expiry then
           let (b2, n) = tracker_insert \<lparr>exp_Expiry = the opt_nct_final, exp_Topic = topic\<rparr> b1
           in (b2, e1\<lparr>ent_ExpiryRef := Some n\<rparr>)
         else (b1, e1))"

text \<open>The expiry that the reference of an entry denotes; the invariant below says that the
  reference is never dangling.\<close>

definition ref_expiry :: "TPerTopicBatcher \<Rightarrow> TBatchMapEntry \<Rightarrow> int" where
  "ref_expiry b e =
     (case ent_ExpiryRef e of
        None \<Rightarrow> 0
      | Some n \<Rightarrow> (case map_of (ptb_ExpiryTracker b) n of Some r \<Rightarrow> exp_Expiry r | None \<Rightarrow> 0))"

text \<open>Lines 45 to 54: find the entry of the topic or create it.\<close>

definition find_entry ::
  "TPerTopicConfig \<Rightarrow> string \<Rightarrow> TPerTopicBatcher \<Rightarrow> TPerTopicBatcher \<times> TBatchMapEntry" where
  "find_entry cfg topic b =
     (case map_of (ptb_BatchMap b) topic of
        Some e \<Rightarrow> (b, e)
      | None \<Rightarrow>
          let e = \<lparr>ent_Batcher = TSingleTopicBatcher_ctor (ptc_Get cfg topic), ent_ExpiryRef = None\<rparr>
          in (set_entry topic e b, e))"

text \<open>\<open>AddMsg\<close> dereferences \<open>Config\<close>; the dereferenced configuration is an argument.\<close>

definition ptb_AddMsg ::
  "TPerTopicConfig \<Rightarrow> TPerTopicBatcher \<Rightarrow> TMsg \<Rightarrow> int \<Rightarrow>
   TPerTopicBatcher \<times> TMsg list list \<times> TMsg option" where
  "ptb_AddMsg cfg b msg now =
     (let topic = GetTopic msg;
          (b1, e) = find_entry cfg topic b;
          (b2, complete_topic_batches, rest) =
            (if stb_BatchingIsEnabled (ent_Batcher e) then
               let (stb, complete_batch, left) = stb_AddMsg (ent_Batcher e) msg now;
                   (b', e') = update_expiry topic (e\<lparr>ent_Batcher := stb\<rparr>) (ref_expiry b1 e)
                                (stb_GetNextCompleteTime stb) b1
               in (set_entry topic e' b',
                   (if complete_batch \<noteq> [] then [complete_batch] else []) @
                     map (\<lambda>m. [m]) (opt_list left),
                   None)
             else (b1, [], Some msg));
          (b3, batch_list) = ptb_GetCompleteBatches b2 now
      in (b3, batch_list @ complete_topic_batches, rest))"

definition ptb_GetNextCompleteTime :: "TPerTopicBatcher \<Rightarrow> int option" where
  "ptb_GetNextCompleteTime b =
     (case ptb_ExpiryTracker b of [] \<Rightarrow> None | (n, r) # _ \<Rightarrow> Some (exp_Expiry r))"

definition ptb_GetAllBatches :: "TPerTopicBatcher \<Rightarrow> TPerTopicBatcher \<times> TMsg list list" where
  "ptb_GetAllBatches b =
     (b\<lparr>ptb_BatchMap :=
          map (\<lambda>(t, e). (t, e\<lparr>ent_Batcher := fst (stb_TakeBatch (ent_Batcher e)),
                              ent_ExpiryRef := None\<rparr>)) (ptb_BatchMap b),
        ptb_ExpiryTracker := []\<rparr>,
      filter (\<lambda>batch. batch \<noteq> [])
        (map (\<lambda>(t, e). snd (stb_TakeBatch (ent_Batcher e))) (ptb_BatchMap b)))"

definition ptb_DeleteTopic :: "TPerTopicBatcher \<Rightarrow> string \<Rightarrow> TPerTopicBatcher \<times> TMsg list" where
  "ptb_DeleteTopic b topic =
     (case map_of (ptb_BatchMap b) topic of
        None \<Rightarrow> (b, [])
      | Some e \<Rightarrow>
          let (stb, batch) = stb_TakeBatch (ent_Batcher e);
              b1 = (case ent_ExpiryRef e of None \<Rightarrow> b | Some n \<Rightarrow> tracker_erase n b)
          in (b1\<lparr>ptb_BatchMap := AList.delete topic (ptb_BatchMap b1)\<rparr>, batch))"

text \<open>\<open>SanityCheck\<close>: \<open>find\<close> is the search over the tracker by topic.\<close>

definition ptb_SanityCheck :: "TPerTopicBatcher \<Rightarrow> bool" where
  "ptb_SanityCheck b \<longleftrightarrow>
     (\<forall>(topic, e) \<in> set (ptb_BatchMap b).
        let expiry_iter = map_option fst (find (\<lambda>(n, r). exp_Topic r = topic) (ptb_ExpiryTracker b))
        in case stb_GetNextCompleteTime (ent_Batcher e) of
             Some time_limit \<Rightarrow>
               expiry_iter \<noteq> None \<and> ent_ExpiryRef e = expiry_iter \<and> ref_expiry b e = time_limit
           | None \<Rightarrow> ent_ExpiryRef e = None \<and> expiry_iter = None) \<and>
     (\<forall>(n, r) \<in> set (ptb_ExpiryTracker b). map_of (ptb_BatchMap b) (exp_Topic r) \<noteq> None) \<and>
     distinct (map (\<lambda>(n, r). exp_Topic r) (ptb_ExpiryTracker b))"

section \<open>Invariant\<close>

abbreviation ent_nct :: "TBatchMapEntry \<Rightarrow> int option" where
  "ent_nct e \<equiv> stb_GetNextCompleteTime (ent_Batcher e)"

definition tracker_ok :: "nat \<Rightarrow> TExpiryTracker \<Rightarrow> bool" where
  "tracker_ok next tr \<longleftrightarrow> distinct (map fst tr) \<and> sorted (map (exp_Expiry \<circ> snd) tr) \<and>
     (\<forall>n \<in> fst ` set tr. n < next)"

text \<open>Records and references correspond: a node holds a record exactly when the entry of its
  topic refers to it and the record has the completion time of the batch.\<close>

definition refs_ok :: "(string \<rightharpoonup> TBatchMapEntry) \<Rightarrow> (nat \<rightharpoonup> TBatchExpiryRecord) \<Rightarrow> bool" where
  "refs_ok bm tr \<longleftrightarrow>
     (\<forall>n r. tr n = Some r \<longleftrightarrow>
        (\<exists>e. bm (exp_Topic r) = Some e \<and> ent_ExpiryRef e = Some n \<and> ent_nct e = Some (exp_Expiry r)))"

definition entries_ok :: "(string \<rightharpoonup> TBatchMapEntry) \<Rightarrow> bool" where
  "entries_ok bm \<longleftrightarrow>
     (\<forall>t e. bm t = Some e \<longrightarrow>
        stb_inv t (ent_Batcher e) \<and> (ent_ExpiryRef e = None \<longleftrightarrow> ent_nct e = None))"

definition ptb_inv :: "TPerTopicBatcher \<Rightarrow> bool" where
  "ptb_inv b \<longleftrightarrow> distinct (map fst (ptb_BatchMap b)) \<and>
     tracker_ok (ptb_NextNode b) (ptb_ExpiryTracker b) \<and>
     entries_ok (map_of (ptb_BatchMap b)) \<and>
     refs_ok (map_of (ptb_BatchMap b)) (map_of (ptb_ExpiryTracker b))"

definition ptb_held :: "TPerTopicBatcher \<Rightarrow> string \<Rightarrow> TMsg list" where
  "ptb_held b t =
     (case map_of (ptb_BatchMap b) t of None \<Rightarrow> [] | Some e \<Rightarrow> stb_MsgList (ent_Batcher e))"

definition ptb_lists :: "TPerTopicBatcher \<Rightarrow> (string \<times> TMsg list) list" where
  "ptb_lists b = map (\<lambda>(t, e). (t, stb_MsgList (ent_Batcher e))) (ptb_BatchMap b)"

definition ptb_msgs :: "TPerTopicBatcher \<Rightarrow> TMsg multiset" where
  "ptb_msgs b = mset (concat (map snd (ptb_lists b)))"

text \<open>The completion time of the batch of a topic.\<close>

definition ptb_nct :: "TPerTopicBatcher \<Rightarrow> string \<Rightarrow> int option" where
  "ptb_nct b t = (case map_of (ptb_BatchMap b) t of None \<Rightarrow> None | Some e \<Rightarrow> ent_nct e)"

lemma ptb_inv_ctor: "ptb_inv (TPerTopicBatcher_ctor config)"
  by (simp add: ptb_inv_def TPerTopicBatcher_ctor_def tracker_ok_def entries_ok_def refs_ok_def)

lemma ptb_held_ctor [simp]: "ptb_held (TPerTopicBatcher_ctor config) t = []"
  by (simp add: ptb_held_def TPerTopicBatcher_ctor_def)

subsection \<open>The tracker\<close>

lemma set_exp_insert [simp]: "set (exp_insert n r xs) = insert (n, r) (set xs)"
  by (induction n r xs rule: exp_insert.induct) auto

lemma map_of_exp_insert:
  "n \<notin> fst ` set xs \<Longrightarrow> map_of (exp_insert n r xs) k = (if k = n then Some r else map_of xs k)"
  by (induction n r xs rule: exp_insert.induct) (auto simp: map_of_eq_None_iff [symmetric])

lemma distinct_exp_insert:
  "distinct (map fst xs) \<Longrightarrow> n \<notin> fst ` set xs \<Longrightarrow> distinct (map fst (exp_insert n r xs))"
  by (induction n r xs rule: exp_insert.induct) auto

lemma sorted_exp_insert:
  "sorted (map (exp_Expiry \<circ> snd) xs) \<Longrightarrow> sorted (map (exp_Expiry \<circ> snd) (exp_insert n r xs))"
  by (induction n r xs rule: exp_insert.induct) (fastforce simp: not_less)+

lemma tracker_ok_insert:
  assumes "tracker_ok next tr"
  shows "tracker_ok (next + 1) (exp_insert next r tr)"
    and "map_of (exp_insert next r tr) = (map_of tr)(next \<mapsto> r)"
    and "map_of tr next = None"
proof -
  have n: "next \<notin> fst ` set tr" using assms by (auto simp: tracker_ok_def)
  show "tracker_ok (next + 1) (exp_insert next r tr)"
    using assms n by (auto simp: tracker_ok_def distinct_exp_insert sorted_exp_insert less_Suc_eq)
  show "map_of (exp_insert next r tr) = (map_of tr)(next \<mapsto> r)"
    using n by (auto simp: map_of_exp_insert)
  show "map_of tr next = None" using n by (simp add: map_of_eq_None_iff)
qed

lemma sorted_delete:
  "sorted (map f (xs :: ('a \<times> 'b) list)) \<Longrightarrow> sorted (map f (AList.delete k xs))"
  by (simp add: AList.delete_eq sorted_filter)

lemma tracker_ok_delete:
  assumes "tracker_ok next tr" shows "tracker_ok next (AList.delete n tr)"
  using assms sorted_delete [of "exp_Expiry \<circ> snd" tr n] dom_delete_subset [of n tr]
  unfolding tracker_ok_def by (metis distinct_keys_delete subsetD)

subsection \<open>References\<close>

text \<open>The three ways in which an entry and its record change together.\<close>

lemma refs_ok_keep:
  assumes "refs_ok bm tr" and "bm t = Some e" and "ent_ExpiryRef e' = ent_ExpiryRef e"
    and "ent_nct e' = ent_nct e"
  shows "refs_ok (bm(t \<mapsto> e')) tr"
  using assms unfolding refs_ok_def by auto

lemma refs_ok_remove:
  assumes "refs_ok bm tr" and "bm t = Some e" and "ent_ExpiryRef e = Some n" and "ent_nct e \<noteq> None"
    and "ent_ExpiryRef e' = None"
  shows "refs_ok (bm(t \<mapsto> e')) (tr(n := None))"
proof -
  obtain x where "ent_nct e = Some x" using assms(4) by auto
  then have n: "tr n = Some \<lparr>exp_Expiry = x, exp_Topic = t\<rparr>"
    using assms(1-3) unfolding refs_ok_def by simp
  show ?thesis unfolding refs_ok_def
  proof (intro allI)
    fix k r
    note base = assms(1) [unfolded refs_ok_def, rule_format, of k r]
    show "(tr(n := None)) k = Some r \<longleftrightarrow> (\<exists>e. (bm(t \<mapsto> e')) (exp_Topic r) = Some e \<and>
        ent_ExpiryRef e = Some k \<and> ent_nct e = Some (exp_Expiry r))"
    proof (cases "exp_Topic r = t")
      case True
      then have "tr k = Some r \<Longrightarrow> k = n" using base assms(2,3) by simp
      with True assms(5) show ?thesis by auto
    next
      case False
      then show ?thesis using base n by (cases "k = n") auto
    qed
  qed
qed

lemma refs_ok_add:
  assumes "refs_ok bm tr" and "\<And>e. bm t = Some e \<Longrightarrow> ent_ExpiryRef e = None" and "tr n = None"
    and "ent_ExpiryRef e' = Some n" and "ent_nct e' = Some x"
  shows "refs_ok (bm(t \<mapsto> e')) (tr(n \<mapsto> \<lparr>exp_Expiry = x, exp_Topic = t\<rparr>))"
  unfolding refs_ok_def
proof (intro allI)
  fix k r
  note base = assms(1) [unfolded refs_ok_def, rule_format, of k r]
  show "(tr(n \<mapsto> \<lparr>exp_Expiry = x, exp_Topic = t\<rparr>)) k = Some r \<longleftrightarrow>
      (\<exists>e. (bm(t \<mapsto> e')) (exp_Topic r) = Some e \<and>
        ent_ExpiryRef e = Some k \<and> ent_nct e = Some (exp_Expiry r))"
  proof (cases "exp_Topic r = t")
    case True
    then have "tr k \<noteq> Some r" using base assms(2) by auto
    with True assms(4,5) show ?thesis by (cases r) auto
  next
    case False
    then show ?thesis using base assms(3) by (cases "k = n") auto
  qed
qed

lemma entries_ok_update:
  assumes "entries_ok bm" and "stb_inv t (ent_Batcher e)" and "ent_ExpiryRef e = None \<longleftrightarrow> ent_nct e = None"
  shows "entries_ok (bm(t \<mapsto> e))"
  using assms by (auto simp: entries_ok_def)

lemma set_entry_simps [simp]:
  "ptb_BatchMap (set_entry t e b) = AList.update t e (ptb_BatchMap b)"
  "ptb_ExpiryTracker (set_entry t e b) = ptb_ExpiryTracker b"
  "ptb_NextNode (set_entry t e b) = ptb_NextNode b" "ptb_Config (set_entry t e b) = ptb_Config b"
  by (simp_all add: set_entry_def)

lemma tracker_erase_simps [simp]:
  "ptb_BatchMap (tracker_erase n b) = ptb_BatchMap b"
  "ptb_ExpiryTracker (tracker_erase n b) = AList.delete n (ptb_ExpiryTracker b)"
  "ptb_NextNode (tracker_erase n b) = ptb_NextNode b" "ptb_Config (tracker_erase n b) = ptb_Config b"
  by (simp_all add: tracker_erase_def)

lemma ptb_invD:
  assumes "ptb_inv b"
  shows "distinct (map fst (ptb_BatchMap b))" and "tracker_ok (ptb_NextNode b) (ptb_ExpiryTracker b)"
    and "entries_ok (map_of (ptb_BatchMap b))"
    and "refs_ok (map_of (ptb_BatchMap b)) (map_of (ptb_ExpiryTracker b))"
    and "map_of (ptb_BatchMap b) t = Some e \<Longrightarrow> stb_inv t (ent_Batcher e)"
    and "map_of (ptb_BatchMap b) t = Some e \<Longrightarrow> ent_ExpiryRef e = None \<longleftrightarrow> ent_nct e = None"
  using assms by (auto simp: ptb_inv_def entries_ok_def)

lemma ref_expiry_nct:
  assumes inv: "ptb_inv b" and e: "map_of (ptb_BatchMap b) t = Some e" and n: "ent_ExpiryRef e = Some n"
  shows "ent_nct e = Some (ref_expiry b e)"
    and "map_of (ptb_ExpiryTracker b) n = Some \<lparr>exp_Expiry = ref_expiry b e, exp_Topic = t\<rparr>"
proof -
  obtain x where x: "ent_nct e = Some x" using ptb_invD(6) [OF inv e] n by auto
  have "map_of (ptb_ExpiryTracker b) n = Some \<lparr>exp_Expiry = x, exp_Topic = t\<rparr>"
    using ptb_invD(4) [OF inv] e n x unfolding refs_ok_def by simp
  moreover from this n have "ref_expiry b e = x" by (simp add: ref_expiry_def)
  ultimately show "ent_nct e = Some (ref_expiry b e)"
    and "map_of (ptb_ExpiryTracker b) n = Some \<lparr>exp_Expiry = ref_expiry b e, exp_Topic = t\<rparr>"
    using x by simp_all
qed

lemma delete_fun_upd: "map_of (AList.delete k al) = (map_of al)(k := None)"
  by (simp add: delete_conv')

text \<open>\<open>update_expiry\<close> restores the invariant after the batch of a topic has changed, in
  each of its cases: keep the record, remove it, replace it, add one.\<close>

lemma update_expiry_spec:
  assumes inv: "ptb_inv b" and e0: "map_of (ptb_BatchMap b) t = Some e0"
    and si: "stb_inv t stb"
    and eq: "update_expiry t (e0\<lparr>ent_Batcher := stb\<rparr>) (ref_expiry b e0) (stb_GetNextCompleteTime stb) b =
      (b', e')"
  shows "ptb_inv (set_entry t e' b')" and "ent_Batcher e' = stb"
    and "ptb_BatchMap b' = ptb_BatchMap b" and "ptb_Config b' = ptb_Config b"
proof -
  let ?bm = "map_of (ptb_BatchMap b)" and ?tr = "map_of (ptb_ExpiryTracker b)"
  let ?nct = "stb_GetNextCompleteTime stb"
  note i = ptb_invD [OF inv]
  define e1 where "e1 = e0\<lparr>ent_Batcher := stb, ent_ExpiryRef := None\<rparr>"
  define gone where "gone \<longleftrightarrow> ent_ExpiryRef e0 \<noteq> None \<and> ?nct \<noteq> Some (ref_expiry b e0)"
  define b1 where "b1 = (if gone then tracker_erase (the (ent_ExpiryRef e0)) b else b)"
  show eB: "ent_Batcher e' = stb" and bm': "ptb_BatchMap b' = ptb_BatchMap b"
    and "ptb_Config b' = ptb_Config b"
    using eq by (auto simp: update_expiry_def tracker_insert_def Let_def split: if_splits)
  have conc: "ptb_inv (set_entry t e' b')"
    if "tracker_ok (ptb_NextNode b') (ptb_ExpiryTracker b')"
      and "ent_ExpiryRef e' = None \<longleftrightarrow> ?nct = None"
      and "refs_ok (?bm(t \<mapsto> e')) (map_of (ptb_ExpiryTracker b'))"
    using that i(1) entries_ok_update [OF i(3), of t e'] si
    by (simp add: ptb_inv_def bm' eB update_conv')
  show "ptb_inv (set_entry t e' b')"
  proof (cases "ent_ExpiryRef e0 \<noteq> None \<and> ?nct = Some (ref_expiry b e0)")
    case True
    then have "b' = b" "e' = e0\<lparr>ent_Batcher := stb\<rparr>" using eq by (auto simp: update_expiry_def)
    with True i(2) refs_ok_keep [OF i(4) e0, of e'] ref_expiry_nct(1) [OF inv e0] show ?thesis
      by (intro conc) auto
  next
    case False
    have ok1: "tracker_ok (ptb_NextNode b1) (ptb_ExpiryTracker b1)"
      and next1: "ptb_NextNode b1 = ptb_NextNode b"
      using i(2) by (simp_all add: b1_def tracker_ok_delete)
    have refs1: "refs_ok (?bm(t \<mapsto> e1)) (map_of (ptb_ExpiryTracker b1))"
    proof (cases "ent_ExpiryRef e0")
      case None
      then have "refs_ok (?bm(t \<mapsto> e1)) ?tr"
        using i(4,6) e0 unfolding refs_ok_def by (auto simp: e1_def)
      then show ?thesis using None by (simp add: b1_def gone_def)
    next
      case (Some n)
      with refs_ok_remove [OF i(4) e0 Some, of e1] ptb_invD(6) [OF inv e0] False
      show ?thesis by (auto simp: b1_def gone_def e1_def delete_fun_upd)
    qed
    show ?thesis
    proof (cases ?nct)
      case None
      then have "b' = b1" "e' = e1"
        using eq by (auto simp: update_expiry_def b1_def e1_def gone_def split: if_splits)
      with None ok1 refs1 show ?thesis by (intro conc) (auto simp: e1_def)
    next
      case (Some x)
      let ?r = "\<lparr>exp_Expiry = x, exp_Topic = t\<rparr>"
      have be: "b' = fst (tracker_insert ?r b1)" "e' = e1\<lparr>ent_ExpiryRef := Some (ptb_NextNode b1)\<rparr>"
        using eq Some False
        by (auto simp: update_expiry_def b1_def e1_def gone_def tracker_insert_def split: if_splits)
      note ins = tracker_ok_insert [OF ok1]
      have "refs_ok (?bm(t \<mapsto> e1, t \<mapsto> e')) ((map_of (ptb_ExpiryTracker b1))(ptb_NextNode b1 \<mapsto> ?r))"
        using refs_ok_add [OF refs1 _ ins(3), of t e' x] Some by (simp add: be e1_def)
      with ins(1,2) Some show ?thesis by (intro conc) (auto simp: be tracker_insert_def e1_def)
    qed
  qed
qed

section \<open>Handing out batches\<close>

lemma stb_nct_nonempty: "stb_inv T b \<Longrightarrow> stb_GetNextCompleteTime b = Some x \<Longrightarrow> stb_MsgList b \<noteq> []"
  using core_inv_NextCompleteTime [of "stb_CoreState b" "mset (stb_MsgList b)"]
  by (auto simp: stb_inv_def stb_GetNextCompleteTime_def split: if_splits)

lemma ptb_nct_record:
  assumes "ptb_inv b" and "ptb_nct b t = Some x"
  shows "\<exists>n. (n, \<lparr>exp_Expiry = x, exp_Topic = t\<rparr>) \<in> set (ptb_ExpiryTracker b)"
proof -
  obtain e where e: "map_of (ptb_BatchMap b) t = Some e" "ent_nct e = Some x"
    using assms(2) by (auto simp: ptb_nct_def split: option.splits)
  then obtain n where n: "ent_ExpiryRef e = Some n" using ptb_invD(6) [OF assms(1) e(1)] by auto
  from ref_expiry_nct [OF assms(1) e(1) n] e(2)
  have "map_of (ptb_ExpiryTracker b) n = Some \<lparr>exp_Expiry = x, exp_Topic = t\<rparr>" by simp
  then show ?thesis using map_of_SomeD by fast
qed

lemma record_entry:
  assumes "ptb_inv b" and "(n, r) \<in> set (ptb_ExpiryTracker b)"
  obtains e where "map_of (ptb_BatchMap b) (exp_Topic r) = Some e" and "ent_ExpiryRef e = Some n"
    and "ent_nct e = Some (exp_Expiry r)"
proof -
  have "map_of (ptb_ExpiryTracker b) n = Some r"
    using assms ptb_invD(2) [OF assms(1)] by (intro map_of_is_SomeI) (auto simp: tracker_ok_def)
  with ptb_invD(4) [OF assms(1)] that show ?thesis unfolding refs_ok_def by blast
qed

definition batch_due :: "TPerTopicBatcher \<Rightarrow> int \<Rightarrow> string \<Rightarrow> bool" where
  "batch_due b now t \<longleftrightarrow> (case ptb_nct b t of None \<Rightarrow> False | Some x \<Rightarrow> x \<le> now)"

lemma none_due:
  assumes "ptb_inv b" and "\<And>n r. (n, r) \<in> set (ptb_ExpiryTracker b) \<Longrightarrow> now < exp_Expiry r"
  shows "\<not> batch_due b now t"
  using ptb_nct_record [OF assms(1)] assms(2)
  by (fastforce simp: batch_due_def split: option.splits)

text \<open>Taking the batch of one topic whose record is the node \<open>n\<close>.\<close>

lemma take_entry:
  assumes inv: "ptb_inv b" and e: "map_of (ptb_BatchMap b) t = Some e" and n: "ent_ExpiryRef e = Some n"
    and tk: "stb_TakeBatch (ent_Batcher e) = (stb, batch)"
    and b': "b' = tracker_erase n (set_entry t (e\<lparr>ent_Batcher := stb, ent_ExpiryRef := None\<rparr>) b)"
  shows "ptb_inv b'" and "batch = ptb_held b t" and "batch \<noteq> []" and "one_topic batch"
    and "ptb_held b' u = (if u = t then [] else ptb_held b u)"
    and "ptb_nct b' u = (if u = t then None else ptb_nct b u)"
proof -
  note i = ptb_invD [OF inv] and sp = stb_TakeBatch_spec [OF ptb_invD(5) [OF inv e] tk]
  obtain x where x: "ent_nct e = Some x" using i(6) [OF e] n by auto
  have "refs_ok (map_of (ptb_BatchMap b')) (map_of (ptb_ExpiryTracker b'))"
    using refs_ok_remove [OF i(4) e n] x by (simp add: b' update_conv' delete_fun_upd)
  moreover have "entries_ok (map_of (ptb_BatchMap b'))"
    using entries_ok_update [OF i(3), of t] sp(1,4) by (simp add: b' update_conv')
  ultimately show "ptb_inv b'" using i(1,2) by (simp add: ptb_inv_def b' tracker_ok_delete)
  show "batch = ptb_held b t" using sp(2) e by (simp add: ptb_held_def)
  show "batch \<noteq> []" using sp(2) stb_nct_nonempty [OF i(5) [OF e] x] by simp
  have "\<And>m. m \<in> set batch \<Longrightarrow> GetTopic m = t" using i(5) [OF e] sp(2) by (simp add: stb_inv_def)
  then show "one_topic batch" by (rule one_topicI)
  show "ptb_held b' u = (if u = t then [] else ptb_held b u)"
    and "ptb_nct b' u = (if u = t then None else ptb_nct b u)"
    using sp(3,4) by (simp_all add: b' ptb_held_def ptb_nct_def)
qed

lemma ptb_held_topic:
  assumes "ptb_inv b" and "x \<in> set (ptb_held b t)" shows "GetTopic x = t"
proof (cases "map_of (ptb_BatchMap b) t")
  case (Some e)
  with ptb_invD(5) [OF assms(1) Some] assms(2) show ?thesis by (simp add: ptb_held_def stb_inv_def)
qed (use assms in \<open>simp add: ptb_held_def\<close>)

lemma of_topic_held:
  "ptb_inv b \<Longrightarrow> of_topic t (ptb_held b u) = (if t = u then ptb_held b u else [])"
  using of_topic_all [of "ptb_held b u" u] of_topic_none [of "ptb_held b u" t] ptb_held_topic [of b _ u]
  by auto

text \<open>\<open>GetCompleteBatches\<close> hands out exactly the batches that are due and leaves the others
  as they are.\<close>

lemma GetCompleteBatches_loop_spec:
  assumes "ptb_inv b" and "ptb_ExpiryTracker b = xs" and "GetCompleteBatches_loop xs now b = (b', bs)"
  shows "ptb_inv b' \<and> ptb_Config b' = ptb_Config b \<and> (\<forall>x \<in> set bs. batch_ok x) \<and>
    (\<forall>t. of_topic t (concat bs) = (if batch_due b now t then ptb_held b t else []) \<and>
         ptb_held b' t = (if batch_due b now t then [] else ptb_held b t) \<and>
         ptb_nct b' t = (if batch_due b now t then None else ptb_nct b t))"
  using assms
proof (induction xs arbitrary: b bs)
  case Nil
  with none_due [of b now] show ?case by simp
next
  case (Cons p rest)
  obtain n r where p: "p = (n, r)" by fastforce
  have tr: "tracker_ok (ptb_NextNode b) ((n, r) # rest)" using ptb_invD(2) Cons.prems(1,2) p by metis
  show ?case
  proof (cases "exp_Expiry r \<le> now")
    case False
    have "now < exp_Expiry q" if "(k, q) \<in> set (ptb_ExpiryTracker b)" for k q
      using that tr False Cons.prems(2) p by (force simp: tracker_ok_def)
    with none_due [OF Cons.prems(1)] Cons.prems p False show ?thesis by simp
  next
    case True
    obtain e where e: "map_of (ptb_BatchMap b) (exp_Topic r) = Some e" "ent_ExpiryRef e = Some n"
      "ent_nct e = Some (exp_Expiry r)"
      using record_entry [OF Cons.prems(1), of n r] Cons.prems(2) p by auto
    obtain stb batch where tk: "stb_TakeBatch (ent_Batcher e) = (stb, batch)" by fastforce
    define b1 where
      "b1 = tracker_erase n (set_entry (exp_Topic r) (e\<lparr>ent_Batcher := stb, ent_ExpiryRef := None\<rparr>) b)"
    note t = take_entry [OF Cons.prems(1) e(1,2) tk b1_def]
    have tr1: "ptb_ExpiryTracker b1 = rest"
      using tr Cons.prems(2) p by (auto simp: b1_def tracker_ok_def)
    obtain bs1 where l: "GetCompleteBatches_loop rest now b1 = (b', bs1)" and bs: "bs = batch # bs1"
      using Cons.prems(3) p True e(1) tk by (auto simp: b1_def split: prod.splits)
    have due: "batch_due b now u \<longleftrightarrow> u = exp_Topic r \<or> batch_due b1 now u" for u
      using t(6) [of u] e(1,3) True by (auto simp: batch_due_def ptb_nct_def)
    have ndue: "\<not> batch_due b1 now (exp_Topic r)" using t(6) by (simp add: batch_due_def)
    from Cons.IH [OF t(1) tr1 l] t(2-6) of_topic_held [OF Cons.prems(1)] ndue show ?thesis
      by (auto simp: due bs batch_ok_def b1_def)
  qed
qed

lemma GetCompleteBatches_spec:
  assumes "ptb_inv b" and "ptb_GetCompleteBatches b now = (b', bs)"
  shows "ptb_inv b'" and "ptb_Config b' = ptb_Config b" and "\<And>x. x \<in> set bs \<Longrightarrow> batch_ok x"
    and "of_topic t (concat bs) = (if batch_due b now t then ptb_held b t else [])"
    and "ptb_held b' t = (if batch_due b now t then [] else ptb_held b t)"
    and "ptb_nct b' t = (if batch_due b now t then None else ptb_nct b t)"
  using GetCompleteBatches_loop_spec [OF assms(1) refl, of now b' bs] assms(2)
  by (simp_all add: ptb_GetCompleteBatches_def)

text \<open>The time of the soonest completion.\<close>

lemma GetNextCompleteTime_spec:
  assumes inv: "ptb_inv b"
  shows "ptb_GetNextCompleteTime b = None \<Longrightarrow> ptb_nct b t = None"
    and "ptb_GetNextCompleteTime b = Some x \<Longrightarrow> \<exists>t. ptb_nct b t = Some x"
    and "ptb_GetNextCompleteTime b = Some x \<Longrightarrow> ptb_nct b t = Some y \<Longrightarrow> x \<le> y"
proof -
  show "ptb_nct b t = None" if "ptb_GetNextCompleteTime b = None"
    using that ptb_nct_record [OF inv, of t]
    by (cases "ptb_nct b t") (auto simp: ptb_GetNextCompleteTime_def split: list.splits)
  assume "ptb_GetNextCompleteTime b = Some x"
  then obtain n r rest where tr: "ptb_ExpiryTracker b = (n, r) # rest" "x = exp_Expiry r"
    by (auto simp: ptb_GetNextCompleteTime_def split: list.splits)
  then show "\<exists>t. ptb_nct b t = Some x"
    using record_entry [OF inv, of n r] by (metis list.set_intros(1) option.simps(5) ptb_nct_def)
  show "x \<le> y" if "ptb_nct b t = Some y"
    using ptb_nct_record [OF inv that] ptb_invD(2) [OF inv] tr by (force simp: tracker_ok_def)
qed

section \<open>\<open>AddMsg\<close>\<close>

lemma find_entry_spec:
  assumes inv: "ptb_inv b" and eq: "find_entry cfg t b = (b', e)"
  shows "ptb_inv b'" and "map_of (ptb_BatchMap b') t = Some e" and "ptb_held b' u = ptb_held b u"
    and "ptb_nct b' u = ptb_nct b u" and "ptb_Config b' = ptb_Config b"
proof -
  have "ptb_inv b' \<and> map_of (ptb_BatchMap b') t = Some e \<and> ptb_held b' u = ptb_held b u \<and>
      ptb_nct b' u = ptb_nct b u \<and> ptb_Config b' = ptb_Config b"
  proof (cases "map_of (ptb_BatchMap b) t")
    case None
    define e0 where
      "e0 = \<lparr>ent_Batcher = TSingleTopicBatcher_ctor (ptc_Get cfg t), ent_ExpiryRef = None :: nat option\<rparr>"
    have b': "b' = set_entry t e0 b" and e: "e = e0"
      using eq None by (auto simp: find_entry_def e0_def Let_def)
    have nct: "ent_nct e0 = None"
      by (simp add: e0_def TSingleTopicBatcher_ctor_def stb_GetNextCompleteTime_def
          TBatcherCore_ctor_def core_GetNextCompleteTime_def core_IsEmpty_def)
    note i = ptb_invD [OF inv]
    have "refs_ok ((map_of (ptb_BatchMap b))(t \<mapsto> e0)) (map_of (ptb_ExpiryTracker b))"
      using i(4) None nct unfolding refs_ok_def by (auto simp: e0_def)
    moreover have "entries_ok ((map_of (ptb_BatchMap b))(t \<mapsto> e0))"
      using entries_ok_update [OF i(3), of t e0] stb_inv_ctor nct by (simp add: e0_def)
    ultimately have "ptb_inv b'" using i(1,2) by (simp add: ptb_inv_def b' update_conv')
    then show ?thesis
      using None nct
      by (simp add: b' e ptb_held_def ptb_nct_def) (simp add: e0_def TSingleTopicBatcher_ctor_def)
  next
    case (Some e1)
    with eq inv show ?thesis
      by (simp add: find_entry_def)
  qed
  then show "ptb_inv b'" and "map_of (ptb_BatchMap b') t = Some e" and "ptb_held b' u = ptb_held b u"
    and "ptb_nct b' u = ptb_nct b u" and "ptb_Config b' = ptb_Config b" by blast+
qed

text \<open>Per topic, \<open>AddMsg\<close> keeps the order although it returns the batches that are due
  before the batches of the message's own topic: after its own batcher has processed the
  message, that topic has no batch that is due.\<close>

lemma ptb_AddMsg_spec:
  assumes inv: "ptb_inv b" and eq: "ptb_AddMsg cfg b msg now = (b', bs, r)"
  shows "ptb_inv b'"
    and "of_topic t (concat bs) @ ptb_held b' t @ of_topic t (opt_list r) = ptb_held b t @ of_topic t [msg]"
    and "r = None \<or> r = Some msg" and "r = Some msg \<Longrightarrow> ptb_held b' (GetTopic msg) = []"
    and "\<And>x. x \<in> set bs \<Longrightarrow> batch_ok x" and "\<not> batch_due b' now t"
    and "ptb_Config b' = ptb_Config b"
proof -
  let ?t = "GetTopic msg"
  obtain b1 e where f: "find_entry cfg ?t b = (b1, e)" by fastforce
  note fe = find_entry_spec [OF inv f]
  note si = ptb_invD(5) [OF fe(1,2)]
  obtain stb cb left where a: "stb_AddMsg (ent_Batcher e) msg now = (stb, cb, left)"
    by (metis prod_cases3)
  note sp = stb_AddMsg_spec [OF si refl a]
  obtain bu eu where u: "update_expiry ?t (e\<lparr>ent_Batcher := stb\<rparr>) (ref_expiry b1 e)
      (stb_GetNextCompleteTime stb) b1 = (bu, eu)" by fastforce
  note us = update_expiry_spec [OF fe(1,2) sp(1) u]
  have he: "ptb_held b ?t = stb_MsgList (ent_Batcher e)"
    using fe(2) fe(3) [of ?t, symmetric] by (simp add: ptb_held_def)
  have main: "ptb_inv b' \<and>
    (\<forall>t. of_topic t (concat bs) @ ptb_held b' t @ of_topic t (opt_list r) = ptb_held b t @ of_topic t [msg]) \<and>
    (r = None \<or> r = Some msg) \<and> (r = Some msg \<longrightarrow> ptb_held b' ?t = []) \<and> (\<forall>x \<in> set bs. batch_ok x) \<and>
    (\<forall>t. \<not> batch_due b' now t) \<and> ptb_Config b' = ptb_Config b"
  proof (cases "stb_BatchingIsEnabled (ent_Batcher e)")
    case False
    obtain bl where g: "ptb_GetCompleteBatches b1 now = (b', bl)" and bs: "bs = bl" "r = Some msg"
      using eq f False by (auto simp: ptb_AddMsg_def Let_def split: prod.splits)
    note gs = GetCompleteBatches_spec [OF fe(1) g]
    have "ptb_held b ?t = []" using he stb_inv_disabled [OF si False] by simp
    with gs fe(3,5) bs show ?thesis by (auto simp: batch_due_def split: option.splits)
  next
    case True
    define ctb where "ctb = (if cb \<noteq> [] then [cb] else []) @ map (\<lambda>m. [m]) (opt_list left)"
    obtain bl where g: "ptb_GetCompleteBatches (set_entry ?t eu bu) now = (b', bl)"
      and bs: "bs = bl @ ctb" "r = None"
      using eq f True a u by (auto simp: ptb_AddMsg_def Let_def ctb_def split: prod.splits)
    note gs = GetCompleteBatches_spec [OF us(1) g]
    have h2: "ptb_held (set_entry ?t eu bu) t = (if t = ?t then stb_MsgList stb else ptb_held b t)" for t
      using us(2,3) fe(3) [of t] by (simp add: ptb_held_def)
    have n2: "ptb_nct (set_entry ?t eu bu) t =
        (if t = ?t then stb_GetNextCompleteTime stb else ptb_nct b t)" for t
      using us(2,3) fe(4) [of t] by (simp add: ptb_nct_def)
    have nd: "\<not> batch_due (set_entry ?t eu bu) now ?t"
      using sp(5) by (auto simp: batch_due_def n2 split: option.splits)
    have cc: "concat ctb = cb @ opt_list left" by (auto simp: ctb_def opt_list_def split: option.splits)
    have tp: "GetTopic x = ?t" if "x \<in> set (cb @ opt_list left)" for x
    proof -
      have "x \<in> set (stb_MsgList (ent_Batcher e) @ [msg])" using that sp(2,3) by (metis UnCI UnE set_append)
      with si show ?thesis by (auto simp: stb_inv_def)
    qed
    have "of_topic t (concat ctb) = (if t = ?t then cb @ opt_list left else [])" for t
      unfolding cc using of_topic_all [OF tp] of_topic_none [of "cb @ opt_list left" t] tp by auto
    moreover have "cb @ opt_list left @ stb_MsgList stb = stb_MsgList (ent_Batcher e) @ [msg]"
      using sp(2,3,4) by (cases left) auto
    ultimately have fifo: "of_topic t (concat bs) @ ptb_held b' t = ptb_held b t @ of_topic t [msg]" for t
      using gs(4,5) nd h2 he bs(1) by (cases "t = ?t") auto
    have "\<forall>x \<in> set ctb. batch_ok x"
      using one_topicI [of cb ?t] tp by (auto simp: ctb_def batch_ok_def one_topic_Cons opt_list_def split: option.splits)
    moreover have "\<not> batch_due b' now t" for t
      using gs(6) [of t] by (auto simp: batch_due_def split: option.splits)
    ultimately show ?thesis using gs(1-3) fifo bs us(4) fe(5) by auto
  qed
  then show "ptb_inv b'" "r = None \<or> r = Some msg" "r = Some msg \<Longrightarrow> ptb_held b' (GetTopic msg) = []"
    "of_topic t (concat bs) @ ptb_held b' t @ of_topic t (opt_list r) = ptb_held b t @ of_topic t [msg]"
    "\<And>x. x \<in> set bs \<Longrightarrow> batch_ok x" "\<not> batch_due b' now t" "ptb_Config b' = ptb_Config b"
    by blast+
qed

section \<open>Emptying the batcher\<close>

lemma map_of_map_values:
  "map_of (map (\<lambda>(t, e). (t, f e)) al) t = map_option f (map_of al t)"
  by (induction al) auto

lemma ptb_lists_spec:
  assumes "ptb_inv b"
  shows "keyed_by_topic (ptb_lists b)" and "lookup_list (ptb_lists b) t = ptb_held b t"
proof -
  show "keyed_by_topic (ptb_lists b)"
    using ptb_invD(1,5) [OF assms]
    by (auto simp: keyed_by_topic_def ptb_lists_def comp_def case_prod_unfold stb_inv_def)
  show "lookup_list (ptb_lists b) t = ptb_held b t"
    using map_of_map_values [of "\<lambda>e. stb_MsgList (ent_Batcher e)" "ptb_BatchMap b" t]
    by (auto simp: lookup_list_def ptb_held_def ptb_lists_def split: option.splits)
qed

lemma ptb_held_msgs:
  "ptb_inv b \<Longrightarrow> filter_mset (\<lambda>x. GetTopic x = t) (ptb_msgs b) = mset (ptb_held b t)"
  by (simp add: ptb_msgs_def of_topic_keyed ptb_lists_spec flip: mset_of_topic)

lemma GetAllBatches_spec:
  assumes inv: "ptb_inv b" and eq: "ptb_GetAllBatches b = (b', bs)"
  shows "ptb_inv b'" and "of_topic t (concat bs) = ptb_held b t" and "ptb_held b' t = []"
    and "\<And>x. x \<in> set bs \<Longrightarrow> batch_ok x" and "ptb_GetNextCompleteTime b' = None"
proof -
  note i = ptb_invD [OF inv]
  define upd where "upd e = e\<lparr>ent_Batcher := fst (stb_TakeBatch (ent_Batcher e)), ent_ExpiryRef := None\<rparr>"
    for e :: TBatchMapEntry
  have b': "b' = b\<lparr>ptb_BatchMap := map (\<lambda>(t, e). (t, upd e)) (ptb_BatchMap b), ptb_ExpiryTracker := []\<rparr>"
    using eq by (simp add: ptb_GetAllBatches_def upd_def)
  have bs: "bs = filter (\<lambda>x. x \<noteq> []) (map (\<lambda>(t, e). stb_MsgList (ent_Batcher e)) (ptb_BatchMap b))"
    using eq by (simp add: ptb_GetAllBatches_def stb_TakeBatch_def case_prod_unfold)
  have u: "stb_inv t (ent_Batcher (upd e))" "ent_nct (upd e) = None" "stb_MsgList (ent_Batcher (upd e)) = []"
    if "map_of (ptb_BatchMap b) t = Some e" for t e
    using stb_TakeBatch_spec [OF i(5) [OF that] surjective_pairing] by (simp_all add: upd_def)
  note mo = map_of_map_values [of upd "ptb_BatchMap b"]
  have "refs_ok (map_of (ptb_BatchMap b')) (map_of (ptb_ExpiryTracker b'))"
    using mo u(2) by (auto simp: refs_ok_def b')
  moreover have "entries_ok (map_of (ptb_BatchMap b'))"
    using mo u by (auto simp: entries_ok_def b' upd_def)
  moreover have "distinct (map fst (ptb_BatchMap b'))" using i(1) by (simp add: b' comp_def case_prod_unfold)
  ultimately show "ptb_inv b'" by (simp add: ptb_inv_def b' tracker_ok_def)
  have "map snd (ptb_lists b) = map (\<lambda>(t, e). stb_MsgList (ent_Batcher e)) (ptb_BatchMap b)"
    by (simp add: ptb_lists_def comp_def case_prod_unfold)
  then show "of_topic t (concat bs) = ptb_held b t"
    using of_topic_keyed [OF ptb_lists_spec(1) [OF inv], of t] ptb_lists_spec(2) [OF inv]
    unfolding bs concat_nonempty by metis
  show "ptb_held b' t = []" using mo u(3) by (auto simp: ptb_held_def b' split: option.splits)
  show "batch_ok x" if "x \<in> set bs" for x
  proof -
    from that obtain t e where "(t, e) \<in> set (ptb_BatchMap b)" "x = stb_MsgList (ent_Batcher e)" "x \<noteq> []"
      by (auto simp: bs)
    then have "stb_inv t (ent_Batcher e)" using i(1,5) by auto
    then have "\<And>m. m \<in> set x \<Longrightarrow> GetTopic m = t" using \<open>x = _\<close> by (simp add: stb_inv_def)
    with \<open>x \<noteq> []\<close> one_topicI show ?thesis by (auto simp: batch_ok_def)
  qed
  show "ptb_GetNextCompleteTime b' = None" by (simp add: b' ptb_GetNextCompleteTime_def)
qed

lemma refs_ok_delete:
  assumes "refs_ok bm tr" and "bm t = Some e" and "ent_ExpiryRef e = None \<longleftrightarrow> ent_nct e = None"
  shows "refs_ok (bm(t := None)) (case ent_ExpiryRef e of None \<Rightarrow> tr | Some n \<Rightarrow> tr(n := None))"
proof (cases "ent_ExpiryRef e")
  case None
  with assms show ?thesis unfolding refs_ok_def by auto
next
  case (Some n)
  have "refs_ok (bm(t \<mapsto> e\<lparr>ent_ExpiryRef := None\<rparr>)) (tr(n := None))"
    using refs_ok_remove [OF assms(1,2) Some] assms(3) Some by simp
  with Some show ?thesis unfolding refs_ok_def by (auto split: if_splits)
qed

lemma DeleteTopic_spec:
  assumes inv: "ptb_inv b" and eq: "ptb_DeleteTopic b topic = (b', ms)"
  shows "ptb_inv b'" and "ms = ptb_held b topic"
    and "ptb_held b' t = (if t = topic then [] else ptb_held b t)"
    and "ptb_Config b' = ptb_Config b"
proof -
  have "ptb_inv b' \<and> ms = ptb_held b topic \<and> ptb_Config b' = ptb_Config b \<and>
      ptb_held b' t = (if t = topic then [] else ptb_held b t)"
  proof (cases "map_of (ptb_BatchMap b) topic")
    case None
    with eq inv show ?thesis by (auto simp: ptb_DeleteTopic_def ptb_held_def)
  next
    case (Some e)
    note i = ptb_invD [OF inv]
    define b1 where "b1 = (case ent_ExpiryRef e of None \<Rightarrow> b | Some n \<Rightarrow> tracker_erase n b)"
    have b': "b' = b1\<lparr>ptb_BatchMap := AList.delete topic (ptb_BatchMap b1)\<rparr>"
      and ms: "ms = stb_MsgList (ent_Batcher e)"
      using eq Some by (auto simp: ptb_DeleteTopic_def b1_def stb_TakeBatch_def Let_def)
    have b1: "ptb_BatchMap b1 = ptb_BatchMap b" "ptb_Config b1 = ptb_Config b"
      "tracker_ok (ptb_NextNode b1) (ptb_ExpiryTracker b1)"
      "map_of (ptb_ExpiryTracker b1) = (case ent_ExpiryRef e of
         None \<Rightarrow> map_of (ptb_ExpiryTracker b) | Some n \<Rightarrow> (map_of (ptb_ExpiryTracker b))(n := None))"
      using i(2) by (auto simp: b1_def tracker_ok_delete delete_fun_upd split: option.splits)
    have "refs_ok (map_of (ptb_BatchMap b')) (map_of (ptb_ExpiryTracker b'))"
      using refs_ok_delete [OF i(4) Some i(6) [OF Some]] by (simp add: b' b1 delete_fun_upd)
    moreover have "entries_ok (map_of (ptb_BatchMap b'))"
      using i(3) by (simp add: entries_ok_def b' b1)
    ultimately show ?thesis using b1 i(1) Some by (simp add: ptb_inv_def b' ms ptb_held_def)
  qed
  then show "ptb_inv b'" and "ms = ptb_held b topic" and "ptb_Config b' = ptb_Config b"
    and "ptb_held b' t = (if t = topic then [] else ptb_held b t)" by blast+
qed

section \<open>\<open>SanityCheck\<close>\<close>

lemma find_record:
  assumes inv: "ptb_inv b"
  shows "map_option fst (find (\<lambda>(n, r). exp_Topic r = t) (ptb_ExpiryTracker b)) =
    (case map_of (ptb_BatchMap b) t of None \<Rightarrow> None | Some e \<Rightarrow> ent_ExpiryRef e)"
proof (cases "find (\<lambda>(n, r). exp_Topic r = t) (ptb_ExpiryTracker b)")
  case None
  then have "ptb_nct b t = None"
    using ptb_nct_record [OF inv, of t] by (cases "ptb_nct b t") (force simp: find_None_iff)+
  with None ptb_invD(6) [OF inv, of t] show ?thesis by (auto simp: ptb_nct_def split: option.splits)
next
  case (Some p)
  obtain n r where p: "p = (n, r)" by fastforce
  with Some have m: "(n, r) \<in> set (ptb_ExpiryTracker b)" and t: "exp_Topic r = t"
    by (auto simp: find_Some_iff in_set_conv_nth)
  obtain e where "map_of (ptb_BatchMap b) t = Some e" "ent_ExpiryRef e = Some n"
    using record_entry [OF inv m] t by blast
  with Some p show ?thesis by simp
qed

lemma expiry_topics_distinct:
  assumes "ptb_inv b" shows "distinct (map (\<lambda>(n, r). exp_Topic r) (ptb_ExpiryTracker b))"
proof -
  have "inj_on (\<lambda>(n, r). exp_Topic r) (set (ptb_ExpiryTracker b))"
  proof (rule inj_onI)
    fix p q
    assume a: "p \<in> set (ptb_ExpiryTracker b)" "q \<in> set (ptb_ExpiryTracker b)"
      "(case p of (n, r) \<Rightarrow> exp_Topic r) = (case q of (n, r) \<Rightarrow> exp_Topic r)"
    obtain n r k s where pq: "p = (n, r)" "q = (k, s)" by fastforce
    obtain e where e: "map_of (ptb_BatchMap b) (exp_Topic r) = Some e" "ent_ExpiryRef e = Some n"
      "ent_nct e = Some (exp_Expiry r)"
      using record_entry [OF assms a(1) [unfolded pq]] by blast
    obtain f where f: "map_of (ptb_BatchMap b) (exp_Topic s) = Some f" "ent_ExpiryRef f = Some k"
      "ent_nct f = Some (exp_Expiry s)"
      using record_entry [OF assms a(2) [unfolded pq]] by blast
    have "exp_Topic r = exp_Topic s" using a(3) pq by simp
    with e f have "n = k" "exp_Expiry r = exp_Expiry s" by simp_all
    with pq \<open>exp_Topic r = exp_Topic s\<close> show "p = q" by (cases r; cases s) simp
  qed
  moreover have "distinct (ptb_ExpiryTracker b)"
    using ptb_invD(2) [OF assms] by (auto simp: tracker_ok_def distinct_map)
  ultimately show ?thesis by (simp add: distinct_map)
qed

lemma SanityCheck_holds:
  assumes inv: "ptb_inv b" shows "ptb_SanityCheck b"
proof -
  have "case stb_GetNextCompleteTime (ent_Batcher e) of
      Some x \<Rightarrow> ent_ExpiryRef e \<noteq> None \<and> ref_expiry b e = x | None \<Rightarrow> ent_ExpiryRef e = None"
    if "(t, e) \<in> set (ptb_BatchMap b)" for t e
  proof -
    have e: "map_of (ptb_BatchMap b) t = Some e" using that ptb_invD(1) [OF inv] by simp
    from ptb_invD(6) [OF inv e] ref_expiry_nct(1) [OF inv e] show ?thesis
      by (auto split: option.splits)
  qed
  moreover have "map_option fst (find (\<lambda>(n, r). exp_Topic r = t) (ptb_ExpiryTracker b)) = ent_ExpiryRef e"
    if "(t, e) \<in> set (ptb_BatchMap b)" for t e
  proof -
    have e: "map_of (ptb_BatchMap b) t = Some e" using that ptb_invD(1) [OF inv] by simp
    then show ?thesis using find_record [OF inv, of t] by simp
  qed
  moreover have "map_of (ptb_BatchMap b) (exp_Topic r) \<noteq> None"
    if "(n, r) \<in> set (ptb_ExpiryTracker b)" for n r
    using record_entry [OF inv that] by auto
  ultimately show ?thesis
    using expiry_topics_distinct [OF inv] unfolding ptb_SanityCheck_def Let_def
    by (fastforce split: option.splits)
qed

section \<open>The shared contract\<close>

datatype ptb_flush = FlushComplete int | FlushAll | FlushTopic string

definition ptb_out :: "ptb_flush \<Rightarrow> TPerTopicBatcher \<Rightarrow> TPerTopicBatcher \<times> TMsg list list" where
  "ptb_out f b =
     (case f of
        FlushComplete now \<Rightarrow> ptb_GetCompleteBatches b now
      | FlushAll \<Rightarrow> ptb_GetAllBatches b
      | FlushTopic topic \<Rightarrow>
          (let (b', ms) = ptb_DeleteTopic b topic in (b', if ms = [] then [] else [ms])))"

lemma ptb_out_spec:
  assumes inv: "ptb_inv b" and eq: "ptb_out f b = (b', bs)"
  shows "ptb_inv b'" and "\<And>x. x \<in> set bs \<Longrightarrow> batch_ok x"
    and "of_topic t (concat bs) @ ptb_held b' t = ptb_held b t"
proof -
  have "ptb_inv b' \<and> (\<forall>x \<in> set bs. batch_ok x) \<and>
    (\<forall>t. of_topic t (concat bs) @ ptb_held b' t = ptb_held b t)"
  proof (cases f)
    case (FlushComplete now)
    with eq have "ptb_GetCompleteBatches b now = (b', bs)" by (simp add: ptb_out_def)
    from GetCompleteBatches_spec [OF inv this] show ?thesis by auto
  next
    case FlushAll
    with eq have "ptb_GetAllBatches b = (b', bs)" by (simp add: ptb_out_def)
    from GetAllBatches_spec [OF inv this] show ?thesis by auto
  next
    case (FlushTopic topic)
    obtain ms where d: "ptb_DeleteTopic b topic = (b', ms)" and bs: "bs = (if ms = [] then [] else [ms])"
      using eq FlushTopic by (auto simp: ptb_out_def split: prod.splits)
    note sp = DeleteTopic_spec [OF inv d]
    have "one_topic ms" by (rule one_topicI [of _ topic]) (use ptb_held_topic [OF inv] sp(2) in blast)
    with sp of_topic_held [OF inv] show ?thesis by (auto simp: bs batch_ok_def)
  qed
  then show "ptb_inv b'" and "\<And>x. x \<in> set bs \<Longrightarrow> batch_ok x"
    and "of_topic t (concat bs) @ ptb_held b' t = ptb_held b t" by blast+
qed

interpretation per_topic: flushing_batcher ptb_inv ptb_held ptb_msgs "\<lambda>m. True" "ptb_AddMsg cfg" ptb_out
  for cfg
proof (unfold_locales, goal_cases)
  case 1 then show ?case by (rule ptb_held_msgs)
next
  case 2 then show ?case using ptb_AddMsg_spec(1) by blast
next
  case 3 then show ?case using ptb_AddMsg_spec(3) by blast
next
  case 4 then show ?case using ptb_AddMsg_spec(5) by blast
next
  case 5 then show ?case using ptb_AddMsg_spec(2) by blast
next
  case 6 then show ?case using ptb_out_spec(1) by blast
next
  case 7 then show ?case using ptb_out_spec(2) by blast
next
  case 8 then show ?case using ptb_out_spec(3) by blast
next
  case 9 then show ?case using ptb_AddMsg_spec(4) by blast
qed

section \<open>Configuration of the entries\<close>

text \<open>Every entry was created with the configuration of its topic, so which messages the
  batcher accepts depends on the configuration only.\<close>

definition ptb_cfg_ok :: "TPerTopicConfig \<Rightarrow> TPerTopicBatcher \<Rightarrow> bool" where
  "ptb_cfg_ok cfg b \<longleftrightarrow>
     (\<forall>t e. map_of (ptb_BatchMap b) t = Some e \<longrightarrow>
        core_Config (stb_CoreState (ent_Batcher e)) = ptc_Get cfg t)"

lemma ptb_cfg_ok_set_entry:
  "ptb_cfg_ok cfg b \<Longrightarrow> core_Config (stb_CoreState (ent_Batcher e)) = ptc_Get cfg t \<Longrightarrow>
   ptb_cfg_ok cfg (set_entry t e b)"
  by (simp add: ptb_cfg_ok_def)

lemma ptb_cfg_ok_cong:
  "ptb_BatchMap b' = ptb_BatchMap b \<Longrightarrow> ptb_cfg_ok cfg b' = ptb_cfg_ok cfg b"
  by (simp add: ptb_cfg_ok_def)

lemma ptb_cfg_ok_loop:
  "ptb_cfg_ok cfg b \<Longrightarrow> GetCompleteBatches_loop xs now b = (b', bs) \<Longrightarrow> ptb_cfg_ok cfg b'"
proof (induction xs now b arbitrary: b' bs rule: GetCompleteBatches_loop.induct)
  case (2 n r rest now b)
  show ?case
  proof (cases "exp_Expiry r \<le> now")
    case True
    show ?thesis
    proof (cases "map_of (ptb_BatchMap b) (exp_Topic r)")
      case None
      with 2 True show ?thesis by auto
    next
      case (Some e)
      obtain stb batch where tk: "stb_TakeBatch (ent_Batcher e) = (stb, batch)" by fastforce
      let ?e = "e\<lparr>ent_Batcher := stb, ent_ExpiryRef := None\<rparr>"
      let ?b = "tracker_erase n (set_entry (exp_Topic r) ?e b)"
      have "ptb_cfg_ok cfg (set_entry (exp_Topic r) ?e b)"
        using stb_TakeBatch_Config [OF tk] Some "2.prems"(1)
        by (intro ptb_cfg_ok_set_entry) (simp_all add: ptb_cfg_ok_def)
      then have "ptb_cfg_ok cfg ?b" by (simp add: ptb_cfg_ok_def)
      moreover obtain bs1 where "GetCompleteBatches_loop rest now ?b = (b', bs1)"
        using "2.prems"(2) True Some tk by (auto split: prod.splits)
      ultimately show ?thesis using "2.IH"(2) [OF True Some tk [symmetric] refl refl] by blast
    qed
  qed (use 2 in simp)
qed auto

lemma update_expiry_BatchMap:
  "update_expiry t e x n b = (b', e') \<Longrightarrow> ptb_BatchMap b' = ptb_BatchMap b \<and> ent_Batcher e' = ent_Batcher e"
  by (auto simp: update_expiry_def tracker_insert_def Let_def split: if_splits)

lemma ptb_AddMsg_config:
  assumes ok: "ptb_cfg_ok cfg b" and eq: "ptb_AddMsg cfg b msg now = (b', bs, r)"
  shows "ptb_cfg_ok cfg b'"
    and "r = (if cfg_BatchingIsEnabled (ptc_Get cfg (GetTopic msg)) then None else Some msg)"
proof -
  let ?t = "GetTopic msg"
  obtain b1 e where f: "find_entry cfg ?t b = (b1, e)" by fastforce
  have ok1: "ptb_cfg_ok cfg b1" and e: "core_Config (stb_CoreState (ent_Batcher e)) = ptc_Get cfg ?t"
    using f ok
    by (auto simp: find_entry_def ptb_cfg_ok_def TSingleTopicBatcher_ctor_def TBatcherCore_ctor_def
        Let_def split: option.splits if_splits)
  have en: "stb_BatchingIsEnabled (ent_Batcher e) = cfg_BatchingIsEnabled (ptc_Get cfg ?t)"
    using e by (simp add: stb_BatchingIsEnabled_def core_BatchingIsEnabled_def)
  obtain stb cb left where a: "stb_AddMsg (ent_Batcher e) msg now = (stb, cb, left)"
    by (metis prod_cases3)
  obtain bu eu where u: "update_expiry ?t (e\<lparr>ent_Batcher := stb\<rparr>) (ref_expiry b1 e)
      (stb_GetNextCompleteTime stb) b1 = (bu, eu)" by fastforce
  have "ptb_cfg_ok cfg (set_entry ?t eu bu)"
    using update_expiry_BatchMap [OF u] stb_AddMsg_Config [OF a] e ok1
    by (intro ptb_cfg_ok_set_entry) (simp_all add: ptb_cfg_ok_def)
  with eq f a u en ok1 ptb_cfg_ok_loop show "ptb_cfg_ok cfg b'"
    and "r = (if cfg_BatchingIsEnabled (ptc_Get cfg ?t) then None else Some msg)"
    by (auto simp: ptb_AddMsg_def ptb_GetCompleteBatches_def Let_def split: prod.splits if_splits)
qed

lemma ptb_cfg_ok_disabled:
  assumes "ptb_inv b" and "ptb_cfg_ok cfg b" and "\<not> cfg_BatchingIsEnabled (ptc_Get cfg t)"
  shows "ptb_held b t = []"
proof (cases "map_of (ptb_BatchMap b) t")
  case (Some e)
  with assms(2,3) have "\<not> stb_BatchingIsEnabled (ent_Batcher e)"
    by (simp add: ptb_cfg_ok_def stb_BatchingIsEnabled_def core_BatchingIsEnabled_def)
  with stb_inv_disabled ptb_invD(5) [OF assms(1) Some] Some show ?thesis
    by (simp add: ptb_held_def)
qed (simp add: ptb_held_def)

lemma ptb_flush_config:
  assumes ok: "ptb_cfg_ok cfg b"
  shows "ptb_GetCompleteBatches b now = (b', bs) \<Longrightarrow> ptb_cfg_ok cfg b'"
    and "ptb_GetAllBatches b = (b', bs) \<Longrightarrow> ptb_cfg_ok cfg b'"
    and "ptb_DeleteTopic b t = (b', ms) \<Longrightarrow> ptb_cfg_ok cfg b'"
proof -
  show "ptb_GetCompleteBatches b now = (b', bs) \<Longrightarrow> ptb_cfg_ok cfg b'"
    using ptb_cfg_ok_loop [OF ok] by (simp add: ptb_GetCompleteBatches_def)
  show "ptb_GetAllBatches b = (b', bs) \<Longrightarrow> ptb_cfg_ok cfg b'"
    using ok by (auto simp: ptb_GetAllBatches_def ptb_cfg_ok_def map_of_map_values stb_TakeBatch_def)
  show "ptb_DeleteTopic b t = (b', ms) \<Longrightarrow> ptb_cfg_ok cfg b'"
    using ok by (auto simp: ptb_DeleteTopic_def ptb_cfg_ok_def stb_TakeBatch_def Let_def
        split: option.splits if_splits)
qed

lemma ptb_GetAllBatches_Config:
  "ptb_GetAllBatches b = (b', bs) \<Longrightarrow> ptb_Config b' = ptb_Config b"
  by (auto simp: ptb_GetAllBatches_def)

section \<open>Properties\<close>

definition ex_pt_config :: TPerTopicConfig where
  "ex_pt_config = \<lparr>ptc_DefaultTopic = \<lparr>cfg_TimeLimit = 10, cfg_MsgCount = 3, cfg_ByteCount = 100\<rparr>,
     ptc_PerTopic = [(''x'', TBatchConfig_ctor)]\<rparr>"

definition ex_pt_msg :: "string \<Rightarrow> int \<Rightarrow> TMsg" where
  "ex_pt_msg topic ts = TMsg_ctor PartitionKey 0 ts 0 topic [] [] False"

definition ex_pt_events :: "ptb_flush batcher_event list" where
  "ex_pt_events = [Add (ex_pt_msg ''a'' 1) 1, Add (ex_pt_msg ''b'' 2) 3, Add (ex_pt_msg ''x'' 4) 4,
     Add (ex_pt_msg ''a'' 5) 12, Out (FlushComplete 30), Add (ex_pt_msg ''a'' 31) 31]"

definition ex_pt_run :: "TPerTopicBatcher \<times> TMsg list list" where
  "ex_pt_run = run_batcher (ptb_AddMsg ex_pt_config) ptb_out
     (TPerTopicBatcher_ctor (Some ex_pt_config)) ex_pt_events"

text \<open>C7: The per-topic batcher is first-in first-out per topic over every history of calls of
  \<open>AddMsg\<close>, \<open>GetCompleteBatches\<close>, \<open>GetAllBatches\<close> and \<open>DeleteTopic\<close>, although \<open>AddMsg\<close> returns the
  batches of other topics that have timed out before those of the message's own topic; and
  every batch it hands out is nonempty and has messages of one topic only.\<close>

theorem per_topic_batcher_fifo:
  assumes "run_batcher (ptb_AddMsg cfg) ptb_out (TPerTopicBatcher_ctor (Some cfg)) es = (b, bs)"
  shows "of_topic t (concat bs) @ ptb_held b t = of_topic t (concat (map added es)) \<and>
    (\<forall>x \<in> set bs. batch_ok x)"
proof -
  have p: "\<forall>e \<in> set es. \<forall>m \<in> set (added e). True" by simp
  from per_topic.run_fifo [OF ptb_inv_ctor p assms] per_topic.run_batches [OF ptb_inv_ctor p assms]
  show ?thesis by simp
qed

theorem per_topic_batcher_fifo_witness:
  "of_topic ''a'' (concat (snd ex_pt_run)) @ ptb_held (fst ex_pt_run) ''a'' =
     [ex_pt_msg ''a'' 1, ex_pt_msg ''a'' 5, ex_pt_msg ''a'' 31]"
proof -
  have "of_topic ''a'' (concat (map added ex_pt_events)) =
      [ex_pt_msg ''a'' 1, ex_pt_msg ''a'' 5, ex_pt_msg ''a'' 31]" by code_simp
  with per_topic_batcher_fifo [of ex_pt_config ex_pt_events "fst ex_pt_run" "snd ex_pt_run" "''a''"]
  show ?thesis by (simp add: ex_pt_run_def)
qed

text \<open>C8: The expiry tracker of the per-topic batcher never gets out of step with the batches:
  after every history of calls the class's own \<open>SanityCheck\<close> succeeds, and the errors that
  \<open>AddMsg\<close> and \<open>GetCompleteBatches\<close> log as bugs cannot occur (every record belongs to the entry
  that refers to it, and has the completion time of its batch).\<close>

theorem per_topic_sanity:
  assumes "run_batcher (ptb_AddMsg cfg) ptb_out (TPerTopicBatcher_ctor (Some cfg)) es = (b, bs)"
  shows "ptb_SanityCheck b \<and>
    (\<forall>(n, r) \<in> set (ptb_ExpiryTracker b). \<exists>e. map_of (ptb_BatchMap b) (exp_Topic r) = Some e \<and>
       ent_ExpiryRef e = Some n \<and> stb_GetNextCompleteTime (ent_Batcher e) = Some (exp_Expiry r) \<and>
       \<not> stb_IsEmpty (ent_Batcher e))"
proof -
  have inv: "ptb_inv b" by (rule per_topic.run_inv [OF ptb_inv_ctor _ assms]) simp
  have "\<exists>e. map_of (ptb_BatchMap b) (exp_Topic r) = Some e \<and> ent_ExpiryRef e = Some n \<and>
      ent_nct e = Some (exp_Expiry r) \<and> \<not> stb_IsEmpty (ent_Batcher e)"
    if nr: "(n, r) \<in> set (ptb_ExpiryTracker b)" for n r
  proof -
    obtain e where e: "map_of (ptb_BatchMap b) (exp_Topic r) = Some e" "ent_ExpiryRef e = Some n"
      "ent_nct e = Some (exp_Expiry r)"
      using record_entry [OF inv nr] by blast
    moreover have "\<not> stb_IsEmpty (ent_Batcher e)"
      using stb_inv_IsEmpty stb_nct_nonempty ptb_invD(5) [OF inv e(1)] e(3) by blast
    ultimately show ?thesis by blast
  qed
  with SanityCheck_holds [OF inv] show ?thesis by blast
qed

theorem per_topic_sanity_witness:
  "ptb_SanityCheck (fst ex_pt_run) \<and> length (ptb_ExpiryTracker (fst ex_pt_run)) = 1"
proof -
  have "length (ptb_ExpiryTracker (fst ex_pt_run)) = 1" by code_simp
  with per_topic_sanity [of ex_pt_config ex_pt_events "fst ex_pt_run" "snd ex_pt_run"]
  show ?thesis by (simp add: ex_pt_run_def)
qed

text \<open>C15: \<open>GetCompleteBatches\<close> hands out exactly the batches whose time limit has been reached:
  for a topic whose batch is due, all of its messages come out in order and nothing stays;
  for the others nothing comes out; afterwards \<open>GetNextCompleteTime\<close> is in the future.\<close>

theorem GetCompleteBatches_exact:
  assumes "ptb_inv b" and "ptb_GetCompleteBatches b now = (b', bs)"
  shows "of_topic t (concat bs) = (if batch_due b now t then ptb_held b t else []) \<and>
    ptb_held b' t = (if batch_due b now t then [] else ptb_held b t) \<and>
    (\<forall>x. ptb_GetNextCompleteTime b' = Some x \<longrightarrow> now < x)"
proof -
  note sp = GetCompleteBatches_spec [OF assms]
  have "now < x" if x: "ptb_GetNextCompleteTime b' = Some x" for x
  proof -
    obtain u where "ptb_nct b' u = Some x" using GetNextCompleteTime_spec(2) [OF sp(1) x] by blast
    with sp(6) [of u] show ?thesis by (auto simp: batch_due_def split: if_splits option.splits)
  qed
  with sp(4,5) [of t] show ?thesis by blast
qed

theorem GetCompleteBatches_exact_witness:
  "of_topic ''a'' (concat (snd (ptb_GetCompleteBatches (fst ex_pt_run) 41))) = [ex_pt_msg ''a'' 31]"
proof -
  have inv: "ptb_inv (fst ex_pt_run)"
    using per_topic.run_inv [OF ptb_inv_ctor, of ex_pt_events ex_pt_config "Some ex_pt_config"]
    by (simp add: ex_pt_run_def prod_eq_iff)
  have "batch_due (fst ex_pt_run) 41 ''a'' \<and> ptb_held (fst ex_pt_run) ''a'' = [ex_pt_msg ''a'' 31]"
    by code_simp
  with GetCompleteBatches_exact [OF inv prod.collapse [symmetric], of "''a''" 41] show ?thesis by simp
qed

end
