(* ===== verification/Batch_Conf.thy ===== *)
theory Batch_Conf
  imports Combined_Topics_Batcher Per_Topic_Batcher
begin

text \<open>
  The batching section of the configuration: \<open>TBatchConf\<close> and its builder
  (\<open>src/dory/conf/batch_conf.{h,cc}\<close>), and the translation into the batchers' configuration
  (\<open>TBatchConfigBuilder\<close>, \<open>src/dory/batch/batch_config_builder.{h,cc}\<close>, and
  \<open>TGlobalBatchConfig\<close>).  Exceptions are values of \<open>TBatchConfError\<close>.  A \<open>const T *\<close> argument
  that may be null is an option.
\<close>

section \<open>\<open>TBatchConf\<close>\<close>

datatype TTopicAction = PerTopic | CombinedTopics | Disable

record TBatchValues =
  OptTimeLimit :: "nat option"
  OptMsgCount :: "nat option"
  OptByteCount :: "nat option"

definition TBatchValues_ctor :: TBatchValues where
  "TBatchValues_ctor = \<lparr>OptTimeLimit = None, OptMsgCount = None, OptByteCount = None\<rparr>"

record TTopicConf =
  tc_Action :: TTopicAction
  tc_BatchValues :: TBatchValues

record TBatchConf =
  conf_ProduceRequestDataLimit :: nat
  conf_MessageMaxBytes :: nat
  conf_CombinedTopicsBatchingEnabled :: bool
  conf_CombinedTopicsConfig :: TBatchValues
  conf_DefaultTopicAction :: TTopicAction
  conf_DefaultTopicConfig :: TBatchValues
  conf_TopicConfigs :: "(string \<times> TTopicConf) list"

definition TBatchConf_ctor :: TBatchConf where
  "TBatchConf_ctor =
     \<lparr>conf_ProduceRequestDataLimit = 0, conf_MessageMaxBytes = 0,
      conf_CombinedTopicsBatchingEnabled = False, conf_CombinedTopicsConfig = TBatchValues_ctor,
      conf_DefaultTopicAction = Disable, conf_DefaultTopicConfig = TBatchValues_ctor,
      conf_TopicConfigs = []\<rparr>"

definition StringToTopicAction :: "string \<Rightarrow> TTopicAction option" where
  "StringToTopicAction s =
     (if s = ''perTopic'' then Some PerTopic
      else if s = ''combinedTopics'' then Some CombinedTopics
      else if s = ''disable'' then Some Disable
      else None)"

datatype TBatchConfError =
    TBatchDuplicateNamedConfig string
  | TBatchDuplicateProduceRequestDataLimit
  | TBatchDuplicateMessageMaxBytes
  | TBatchDuplicateCombinedTopicsConfig
  | TBatchUnknownCombinedTopicsConfig string
  | TBatchDuplicateDefaultTopicConfig
  | TBatchUnknownDefaultTopicConfig string
  | TBatchDuplicateTopicConfig string
  | TBatchUnknownTopicConfig string string
  | TBatchMissingProduceRequestDataLimit
  | TBatchMissingMessageMaxBytes
  | TBatchMissingCombinedTopics
  | TBatchMissingDefaultTopic

fun batch_conf_what :: "TBatchConfError \<Rightarrow> string" where
  "batch_conf_what (TBatchDuplicateNamedConfig n) =
     ''Batching config contains duplicate named config: ['' @ n @ '']''"
| "batch_conf_what TBatchDuplicateProduceRequestDataLimit =
     ''Batching config contains duplicate produceRequestDataLimit definition''"
| "batch_conf_what TBatchDuplicateMessageMaxBytes =
     ''Batching config contains duplicate messageMaxBytes definition''"
| "batch_conf_what TBatchDuplicateCombinedTopicsConfig =
     ''Batching config contains duplicate combinedTopics definition''"
| "batch_conf_what (TBatchUnknownCombinedTopicsConfig n) =
     ''Batching config combinedTopics definition references unknown named config: ['' @ n @ '']''"
| "batch_conf_what TBatchDuplicateDefaultTopicConfig =
     ''Batching config contains duplicate defaultTopic definition''"
| "batch_conf_what (TBatchUnknownDefaultTopicConfig n) =
     ''Batching config defaultTopic definition references unknown named config: ['' @ n @ '']''"
| "batch_conf_what (TBatchDuplicateTopicConfig t) =
     ''Batching config contains duplicate specification for topic ['' @ t @ '']''"
| "batch_conf_what (TBatchUnknownTopicConfig t n) =
     ''Batching config for topic ['' @ t @ ''] references unknown named config: ['' @ n @ '']''"
| "batch_conf_what TBatchMissingProduceRequestDataLimit =
     ''Batching config is missing produceRequestDataLimit definition''"
| "batch_conf_what TBatchMissingMessageMaxBytes =
     ''Batching config is missing messageMaxBytes definition''"
| "batch_conf_what TBatchMissingCombinedTopics =
     ''Batching config is missing combinedTopics definition''"
| "batch_conf_what TBatchMissingDefaultTopic =
     ''Batching config is missing defaultTopic definition''"

section \<open>\<open>TBatchConf::TBuilder\<close>\<close>

record TBatchConfBuilder =
  cb_NamedConfigs :: "(string \<times> TBatchValues) list"
  cb_BuildResult :: TBatchConf
  cb_GotProduceRequestDataLimit :: bool
  cb_GotMessageMaxBytes :: bool
  cb_GotCombinedTopics :: bool
  cb_GotDefaultTopic :: bool

definition TBatchConfBuilder_ctor :: TBatchConfBuilder where
  "TBatchConfBuilder_ctor =
     \<lparr>cb_NamedConfigs = [], cb_BuildResult = TBatchConf_ctor, cb_GotProduceRequestDataLimit = False,
      cb_GotMessageMaxBytes = False, cb_GotCombinedTopics = False, cb_GotDefaultTopic = False\<rparr>"

type_synonym cb_result = "TBatchConfError + TBatchConfBuilder"

definition cb_AddNamedConfig :: "string \<Rightarrow> TBatchValues \<Rightarrow> TBatchConfBuilder \<Rightarrow> cb_result" where
  "cb_AddNamedConfig name values b =
     (case map_of (cb_NamedConfigs b) name of
        Some _ \<Rightarrow> Inl (TBatchDuplicateNamedConfig name)
      | None \<Rightarrow> Inr (b\<lparr>cb_NamedConfigs := AList.update name values (cb_NamedConfigs b)\<rparr>))"

definition cb_SetProduceRequestDataLimit :: "nat \<Rightarrow> TBatchConfBuilder \<Rightarrow> cb_result" where
  "cb_SetProduceRequestDataLimit limit b =
     (if cb_GotProduceRequestDataLimit b then Inl TBatchDuplicateProduceRequestDataLimit
      else Inr (b\<lparr>cb_BuildResult := (cb_BuildResult b)\<lparr>conf_ProduceRequestDataLimit := limit\<rparr>,
                  cb_GotProduceRequestDataLimit := True\<rparr>))"

definition cb_SetMessageMaxBytes :: "nat \<Rightarrow> TBatchConfBuilder \<Rightarrow> cb_result" where
  "cb_SetMessageMaxBytes message_max_bytes b =
     (if cb_GotMessageMaxBytes b then Inl TBatchDuplicateMessageMaxBytes
      else Inr (b\<lparr>cb_BuildResult := (cb_BuildResult b)\<lparr>conf_MessageMaxBytes := message_max_bytes\<rparr>,
                  cb_GotMessageMaxBytes := True\<rparr>))"

text \<open>The functions that may throw after they have changed the builder return the error
  only: the exception ends the build.  The name is dereferenced only where it is used.\<close>

definition cb_SetCombinedTopicsConfig :: "bool \<Rightarrow> string option \<Rightarrow> TBatchConfBuilder \<Rightarrow> cb_result" where
  "cb_SetCombinedTopicsConfig enabled config_name b =
     (if cb_GotCombinedTopics b then Inl TBatchDuplicateCombinedTopicsConfig
      else
        let r = (cb_BuildResult b)\<lparr>conf_CombinedTopicsBatchingEnabled := enabled\<rparr>
        in if enabled then
             (case map_of (cb_NamedConfigs b) (the config_name) of
                None \<Rightarrow> Inl (TBatchUnknownCombinedTopicsConfig (the config_name))
              | Some values \<Rightarrow>
                  Inr (b\<lparr>cb_BuildResult := r\<lparr>conf_CombinedTopicsConfig := values\<rparr>,
                         cb_GotCombinedTopics := True\<rparr>))
           else Inr (b\<lparr>cb_BuildResult := r, cb_GotCombinedTopics := True\<rparr>))"

definition cb_SetDefaultTopicConfig ::
  "TTopicAction \<Rightarrow> string option \<Rightarrow> TBatchConfBuilder \<Rightarrow> cb_result" where
  "cb_SetDefaultTopicConfig action config_name b =
     (if cb_GotDefaultTopic b then Inl TBatchDuplicateDefaultTopicConfig
      else
        let r = (cb_BuildResult b)\<lparr>conf_DefaultTopicAction := action\<rparr>
        in if action = PerTopic then
             (case map_of (cb_NamedConfigs b) (the config_name) of
                None \<Rightarrow> Inl (TBatchUnknownDefaultTopicConfig (the config_name))
              | Some values \<Rightarrow>
                  Inr (b\<lparr>cb_BuildResult := r\<lparr>conf_DefaultTopicConfig := values\<rparr>,
                         cb_GotDefaultTopic := True\<rparr>))
           else Inr (b\<lparr>cb_BuildResult := r, cb_GotDefaultTopic := True\<rparr>))"

definition cb_SetTopicConfig ::
  "string \<Rightarrow> TTopicAction \<Rightarrow> string option \<Rightarrow> TBatchConfBuilder \<Rightarrow> cb_result" where
  "cb_SetTopicConfig topic action config_name b =
     (let r = cb_BuildResult b;
          put = (\<lambda>values. Inr (b\<lparr>cb_BuildResult := r\<lparr>conf_TopicConfigs :=
                   AList.update topic \<lparr>tc_Action = action, tc_BatchValues = values\<rparr>
                     (conf_TopicConfigs r)\<rparr>\<rparr>))
      in if map_of (conf_TopicConfigs r) topic \<noteq> None then Inl (TBatchDuplicateTopicConfig topic)
         else if action = PerTopic then
           (case map_of (cb_NamedConfigs b) (the config_name) of
              None \<Rightarrow> Inl (TBatchUnknownTopicConfig topic (the config_name))
            | Some values \<Rightarrow> put values)
         else put TBatchValues_ctor)"

definition cb_Build :: "TBatchConfBuilder \<Rightarrow> TBatchConfError + (TBatchConf \<times> TBatchConfBuilder)" where
  "cb_Build b =
     (if \<not> cb_GotProduceRequestDataLimit b then Inl TBatchMissingProduceRequestDataLimit
      else if \<not> cb_GotMessageMaxBytes b then Inl TBatchMissingMessageMaxBytes
      else if \<not> cb_GotCombinedTopics b then Inl TBatchMissingCombinedTopics
      else if \<not> cb_GotDefaultTopic b then Inl TBatchMissingDefaultTopic
      else Inr (cb_BuildResult b, TBatchConfBuilder_ctor))"

section \<open>\<open>TGlobalBatchConfig\<close> and \<open>TBatchConfigBuilder\<close>\<close>

record TGlobalBatchConfig =
  GetPerTopicConfig :: "TPerTopicConfig option"
  GetCombinedTopicsConfig :: TCombinedConfig
  GetProduceRequestDataLimit :: nat
  GetMessageMaxBytes :: nat

definition TGlobalBatchConfig_ctor :: TGlobalBatchConfig where
  "TGlobalBatchConfig_ctor =
     \<lparr>GetPerTopicConfig = None, GetCombinedTopicsConfig = TCombinedConfig_default,
      GetProduceRequestDataLimit = 0, GetMessageMaxBytes = 0\<rparr>"

record TBatchConfigBuilder =
  PerTopicMap :: "(string \<times> TBatchConfig) list"
  DefaultTopicConfigSpecified :: bool
  DefaultTopicConfig :: TBatchConfig
  DefaultTopicSkipBrokerBatching :: bool
  BrokerBatchConfigSpecified :: bool
  BrokerBatchConfig :: TBatchConfig
  BrokerBatchEnableTopics :: "string set"
  BrokerBatchDisableTopics :: "string set"
  PerTopicBatchingTopics :: "string set"
  ProduceRequestDataLimitSpecified :: bool
  ProduceRequestDataLimit :: nat
  MessageMaxBytesSpecified :: bool
  MessageMaxBytes :: nat

definition TBatchConfigBuilder_ctor :: TBatchConfigBuilder where
  "TBatchConfigBuilder_ctor =
     \<lparr>PerTopicMap = [], DefaultTopicConfigSpecified = False, DefaultTopicConfig = TBatchConfig_ctor,
      DefaultTopicSkipBrokerBatching = False, BrokerBatchConfigSpecified = False,
      BrokerBatchConfig = TBatchConfig_ctor, BrokerBatchEnableTopics = {},
      BrokerBatchDisableTopics = {}, PerTopicBatchingTopics = {},
      ProduceRequestDataLimitSpecified = False, ProduceRequestDataLimit = 0,
      MessageMaxBytesSpecified = False, MessageMaxBytes = 0\<rparr>"

definition AddTopic ::
  "string \<Rightarrow> TBatchConfig option \<Rightarrow> TBatchConfigBuilder \<Rightarrow> TBatchConfigBuilder \<times> bool" where
  "AddTopic topic config b =
     (if map_of (PerTopicMap b) topic \<noteq> None then (b, False)
      else
        let b1 = (case config of
                    None \<Rightarrow> b\<lparr>BrokerBatchDisableTopics := insert topic (BrokerBatchDisableTopics b)\<rparr>
                  | Some conf \<Rightarrow>
                      if cfg_BatchingIsEnabled conf
                      then b\<lparr>PerTopicBatchingTopics := insert topic (PerTopicBatchingTopics b)\<rparr>
                      else b\<lparr>BrokerBatchEnableTopics := insert topic (BrokerBatchEnableTopics b)\<rparr>);
            conf = (case config of None \<Rightarrow> TBatchConfig_ctor | Some conf \<Rightarrow> conf)
        in (b1\<lparr>PerTopicMap := AList.update topic conf (PerTopicMap b1)\<rparr>, True))"

definition SetDefaultTopic ::
  "TBatchConfig option \<Rightarrow> TBatchConfigBuilder \<Rightarrow> TBatchConfigBuilder \<times> bool" where
  "SetDefaultTopic config b =
     (if DefaultTopicConfigSpecified b then (b, False)
      else (b\<lparr>DefaultTopicSkipBrokerBatching := (config = None),
              DefaultTopicConfig := (case config of None \<Rightarrow> TBatchConfig_ctor | Some c \<Rightarrow> c),
              DefaultTopicConfigSpecified := True\<rparr>, True))"

definition SetBrokerConfig ::
  "TBatchConfig option \<Rightarrow> TBatchConfigBuilder \<Rightarrow> TBatchConfigBuilder \<times> bool" where
  "SetBrokerConfig config b =
     (if BrokerBatchConfigSpecified b then (b, False)
      else (b\<lparr>BrokerBatchConfig := (case config of None \<Rightarrow> TBatchConfig_ctor | Some c \<Rightarrow> c),
              BrokerBatchConfigSpecified := True\<rparr>, True))"

definition SetProduceRequestDataLimit :: "nat \<Rightarrow> TBatchConfigBuilder \<Rightarrow> TBatchConfigBuilder \<times> bool" where
  "SetProduceRequestDataLimit limit b =
     (if ProduceRequestDataLimitSpecified b then (b, False)
      else (b\<lparr>ProduceRequestDataLimit := limit, ProduceRequestDataLimitSpecified := True\<rparr>, True))"

definition SetMessageMaxBytes :: "nat \<Rightarrow> TBatchConfigBuilder \<Rightarrow> TBatchConfigBuilder \<times> bool" where
  "SetMessageMaxBytes limit b =
     (if MessageMaxBytesSpecified b then (b, False)
      else (b\<lparr>MessageMaxBytes := limit, MessageMaxBytesSpecified := True\<rparr>, True))"

text \<open>\<open>Clear\<close> resets every field but \<open>PerTopicBatchingTopics\<close>.\<close>

definition builder_Clear :: "TBatchConfigBuilder \<Rightarrow> TBatchConfigBuilder" where
  "builder_Clear b =
     b\<lparr>PerTopicMap := [], DefaultTopicConfigSpecified := False, DefaultTopicConfig := TBatchConfig_ctor,
       DefaultTopicSkipBrokerBatching := False, BrokerBatchConfigSpecified := False,
       BrokerBatchConfig := TBatchConfig_ctor, BrokerBatchEnableTopics := {},
       BrokerBatchDisableTopics := {}, ProduceRequestDataLimitSpecified := False,
       ProduceRequestDataLimit := 0, MessageMaxBytesSpecified := False, MessageMaxBytes := 0\<rparr>"

text \<open>A moved-from container is empty.\<close>

definition builder_Build :: "TBatchConfigBuilder \<Rightarrow> TGlobalBatchConfig \<times> TBatchConfigBuilder" where
  "builder_Build b =
     (let per_topic_config = \<lparr>ptc_DefaultTopic = DefaultTopicConfig b, ptc_PerTopic = PerTopicMap b\<rparr>;
          exclude_topic_filter =
            (cfg_BatchingIsEnabled (BrokerBatchConfig b) \<and> \<not> DefaultTopicSkipBrokerBatching b \<and>
             \<not> cfg_BatchingIsEnabled (DefaultTopicConfig b));
          (topic_filter, b1) =
            (if cfg_BatchingIsEnabled (BrokerBatchConfig b) then
               if exclude_topic_filter then
                 (PerTopicBatchingTopics b \<union> BrokerBatchDisableTopics b, b\<lparr>PerTopicBatchingTopics := {}\<rparr>)
               else (BrokerBatchEnableTopics b, b\<lparr>BrokerBatchEnableTopics := {}\<rparr>)
             else ({}, b))
      in (\<lparr>GetPerTopicConfig = Some per_topic_config,
           GetCombinedTopicsConfig =
             \<lparr>ctc_BatchConfig = BrokerBatchConfig b, ctc_TopicFilter = topic_filter,
              ctc_ExcludeTopicFilter = exclude_topic_filter\<rparr>,
           GetProduceRequestDataLimit = ProduceRequestDataLimit b,
           GetMessageMaxBytes = MessageMaxBytes b\<rparr>,
          builder_Clear b1))"

definition ToBatchConfig :: "TBatchValues \<Rightarrow> TBatchConfig" where
  "ToBatchConfig values =
     \<lparr>cfg_TimeLimit = (case OptTimeLimit values of None \<Rightarrow> 0 | Some n \<Rightarrow> n),
      cfg_MsgCount = (case OptMsgCount values of None \<Rightarrow> 0 | Some n \<Rightarrow> n),
      cfg_ByteCount = (case OptByteCount values of None \<Rightarrow> 0 | Some n \<Rightarrow> n)\<rparr>"

text \<open>The switch over the action that \<open>BuildFromConf\<close> has twice.\<close>

definition action_config :: "TTopicAction \<Rightarrow> TBatchValues \<Rightarrow> TBatchConfig option" where
  "action_config action values =
     (case action of
        PerTopic \<Rightarrow> Some (ToBatchConfig values)
      | CombinedTopics \<Rightarrow> Some TBatchConfig_ctor
      | Disable \<Rightarrow> None)"

fun add_topics :: "(string \<times> TTopicConf) list \<Rightarrow> TBatchConfigBuilder \<Rightarrow> TBatchConfigBuilder" where
  "add_topics [] b = b"
| "add_topics ((topic, tc) # rest) b =
     add_topics rest (fst (AddTopic topic (action_config (tc_Action tc) (tc_BatchValues tc)) b))"

definition BuildFromConf ::
  "TBatchConf \<Rightarrow> TBatchConfigBuilder \<Rightarrow> TGlobalBatchConfig \<times> TBatchConfigBuilder" where
  "BuildFromConf conf b =
     (let b1 = fst (SetProduceRequestDataLimit (conf_ProduceRequestDataLimit conf) b);
          b2 = fst (SetMessageMaxBytes (conf_MessageMaxBytes conf) b1);
          b3 = fst (SetBrokerConfig
                 (if conf_CombinedTopicsBatchingEnabled conf
                  then Some (ToBatchConfig (conf_CombinedTopicsConfig conf)) else None) b2);
          b4 = fst (SetDefaultTopic
                 (action_config (conf_DefaultTopicAction conf) (conf_DefaultTopicConfig conf)) b3);
          b5 = add_topics (conf_TopicConfigs conf) b4
      in builder_Build b5)"

section \<open>What a configuration means\<close>

text \<open>The specification: the action of a topic, as the batching configuration that governs it.
  \<open>None\<close> means that messages of the topic are sent at once; a configuration with a limit
  means per-topic batching; a configuration without limits means combined topics
  batching.\<close>

definition topic_policy :: "TBatchConf \<Rightarrow> string \<Rightarrow> TBatchConfig option" where
  "topic_policy conf t =
     (case map_of (conf_TopicConfigs conf) t of
        Some tc \<Rightarrow> action_config (tc_Action tc) (tc_BatchValues tc)
      | None \<Rightarrow> action_config (conf_DefaultTopicAction conf) (conf_DefaultTopicConfig conf))"

definition wants_combined :: "TBatchConfig option \<Rightarrow> bool" where
  "wants_combined p \<longleftrightarrow> (case p of None \<Rightarrow> False | Some c \<Rightarrow> \<not> cfg_BatchingIsEnabled c)"

definition wants_per_topic :: "TBatchConfig option \<Rightarrow> bool" where
  "wants_per_topic p \<longleftrightarrow> (case p of None \<Rightarrow> False | Some c \<Rightarrow> cfg_BatchingIsEnabled c)"

abbreviation tc_policy :: "TTopicConf \<Rightarrow> TBatchConfig option" where
  "tc_policy tc \<equiv> action_config (tc_Action tc) (tc_BatchValues tc)"

abbreviation policy_config :: "TBatchConfig option \<Rightarrow> TBatchConfig" where
  "policy_config p \<equiv> (case p of None \<Rightarrow> TBatchConfig_ctor | Some c \<Rightarrow> c)"

lemma empty_config_disabled [simp]: "\<not> cfg_BatchingIsEnabled TBatchConfig_ctor"
  by (simp add: cfg_BatchingIsEnabled_def TBatchConfig_ctor_def)

lemma AddTopic_new:
  fixes p :: "TBatchConfig option"
  assumes "map_of (PerTopicMap b) topic = None"
  defines "b' \<equiv> fst (AddTopic topic p b)"
  shows "PerTopicMap b' = AList.update topic (policy_config p) (PerTopicMap b)"
    and "BrokerBatchEnableTopics b' =
          (if wants_combined p then insert topic (BrokerBatchEnableTopics b) else BrokerBatchEnableTopics b)"
    and "BrokerBatchDisableTopics b' =
          (if p = None then insert topic (BrokerBatchDisableTopics b) else BrokerBatchDisableTopics b)"
    and "PerTopicBatchingTopics b' =
          (if wants_per_topic p then insert topic (PerTopicBatchingTopics b) else PerTopicBatchingTopics b)"
    and "BrokerBatchConfig b' = BrokerBatchConfig b" "DefaultTopicConfig b' = DefaultTopicConfig b"
    and "DefaultTopicSkipBrokerBatching b' = DefaultTopicSkipBrokerBatching b"
    and "ProduceRequestDataLimit b' = ProduceRequestDataLimit b" "MessageMaxBytes b' = MessageMaxBytes b"
  using assms(1) unfolding b'_def AddTopic_def
  by (cases p; simp add: Let_def wants_combined_def wants_per_topic_def)+

lemma add_topics_spec:
  assumes "distinct (map fst al)" and "\<And>t. t \<in> fst ` set al \<Longrightarrow> map_of (PerTopicMap b) t = None"
  shows "map_of (PerTopicMap (add_topics al b)) t =
           (case map_of al t of Some tc \<Rightarrow> Some (policy_config (tc_policy tc)) | None \<Rightarrow> map_of (PerTopicMap b) t) \<and>
         (t \<in> BrokerBatchEnableTopics (add_topics al b) \<longleftrightarrow>
           t \<in> BrokerBatchEnableTopics b \<or> (\<exists>tc. map_of al t = Some tc \<and> wants_combined (tc_policy tc))) \<and>
         (t \<in> BrokerBatchDisableTopics (add_topics al b) \<longleftrightarrow>
           t \<in> BrokerBatchDisableTopics b \<or> (\<exists>tc. map_of al t = Some tc \<and> tc_policy tc = None)) \<and>
         (t \<in> PerTopicBatchingTopics (add_topics al b) \<longleftrightarrow>
           t \<in> PerTopicBatchingTopics b \<or> (\<exists>tc. map_of al t = Some tc \<and> wants_per_topic (tc_policy tc))) \<and>
         BrokerBatchConfig (add_topics al b) = BrokerBatchConfig b \<and>
         DefaultTopicConfig (add_topics al b) = DefaultTopicConfig b \<and>
         DefaultTopicSkipBrokerBatching (add_topics al b) = DefaultTopicSkipBrokerBatching b \<and>
         ProduceRequestDataLimit (add_topics al b) = ProduceRequestDataLimit b \<and>
         MessageMaxBytes (add_topics al b) = MessageMaxBytes b"
  using assms
proof (induction al b rule: add_topics.induct)
  case (2 topic tc rest b)
  let ?b = "fst (AddTopic topic (tc_policy tc) b)"
  have new: "map_of (PerTopicMap b) topic = None" using "2.prems"(2) by simp
  have notin: "map_of rest topic = None" using "2.prems"(1) by (simp add: map_of_eq_None_iff)
  have "\<And>u. u \<in> fst ` set rest \<Longrightarrow> map_of (PerTopicMap ?b) u = None"
    using "2.prems" AddTopic_new(1) [OF new] by auto
  from "2.IH" [OF _ this] "2.prems"(1) AddTopic_new [OF new, of "tc_policy tc"] notin show ?case
    by (cases "t = topic") (auto split: option.splits)
qed simp

text \<open>The builder implements the specification when it starts fresh.\<close>

lemma BuildFromConf_fresh:
  assumes d: "distinct (map fst (conf_TopicConfigs conf))"
    and b: "BuildFromConf conf TBatchConfigBuilder_ctor = (g, b')"
  shows "\<exists>cfg. GetPerTopicConfig g = Some cfg \<and> ptc_Get cfg t = policy_config (topic_policy conf t)"
    and "ctb_BatchingIsEnabled_topic (TCombinedTopicsBatcher_ctor (GetCombinedTopicsConfig g)) t \<longleftrightarrow>
          conf_CombinedTopicsBatchingEnabled conf \<and>
          cfg_BatchingIsEnabled (ToBatchConfig (conf_CombinedTopicsConfig conf)) \<and>
          wants_combined (topic_policy conf t)"
    and "GetProduceRequestDataLimit g = conf_ProduceRequestDataLimit conf"
    and "GetMessageMaxBytes g = conf_MessageMaxBytes conf"
proof -
  define b4 where "b4 = TBatchConfigBuilder_ctor
    \<lparr>ProduceRequestDataLimit := conf_ProduceRequestDataLimit conf, ProduceRequestDataLimitSpecified := True,
     MessageMaxBytes := conf_MessageMaxBytes conf, MessageMaxBytesSpecified := True,
     BrokerBatchConfig := policy_config (if conf_CombinedTopicsBatchingEnabled conf
       then Some (ToBatchConfig (conf_CombinedTopicsConfig conf)) else None),
     BrokerBatchConfigSpecified := True,
     DefaultTopicSkipBrokerBatching :=
       (action_config (conf_DefaultTopicAction conf) (conf_DefaultTopicConfig conf) = None),
     DefaultTopicConfig := policy_config
       (action_config (conf_DefaultTopicAction conf) (conf_DefaultTopicConfig conf)),
     DefaultTopicConfigSpecified := True\<rparr>"
  have g: "g = fst (builder_Build (add_topics (conf_TopicConfigs conf) b4))"
    using b by (simp add: BuildFromConf_def Let_def SetProduceRequestDataLimit_def SetMessageMaxBytes_def
        SetBrokerConfig_def SetDefaultTopic_def TBatchConfigBuilder_ctor_def b4_def)
  have empty: "PerTopicMap b4 = []" "BrokerBatchEnableTopics b4 = {}" "BrokerBatchDisableTopics b4 = {}"
    "PerTopicBatchingTopics b4 = {}"
    by (simp_all add: b4_def TBatchConfigBuilder_ctor_def)
  define b5 where "b5 = add_topics (conf_TopicConfigs conf) b4"
  note at = add_topics_spec [OF d, of b4, unfolded empty, simplified]
  show "\<exists>cfg. GetPerTopicConfig g = Some cfg \<and> ptc_Get cfg t = policy_config (topic_policy conf t)"
    using at [of t]
    by (auto simp: g builder_Build_def Let_def ptc_Get_def topic_policy_def b4_def split: option.splits)
  show "GetProduceRequestDataLimit g = conf_ProduceRequestDataLimit conf"
    and "GetMessageMaxBytes g = conf_MessageMaxBytes conf"
    using at [of t] by (auto simp: g builder_Build_def Let_def b4_def)
  show "ctb_BatchingIsEnabled_topic (TCombinedTopicsBatcher_ctor (GetCombinedTopicsConfig g)) t \<longleftrightarrow>
          conf_CombinedTopicsBatchingEnabled conf \<and>
          cfg_BatchingIsEnabled (ToBatchConfig (conf_CombinedTopicsConfig conf)) \<and>
          wants_combined (topic_policy conf t)"
  proof -
    have "ctb_BatchingIsEnabled_topic (TCombinedTopicsBatcher_ctor (GetCombinedTopicsConfig g)) t \<longleftrightarrow>
        cfg_BatchingIsEnabled (BrokerBatchConfig b4) \<and>
        (if \<not> DefaultTopicSkipBrokerBatching b4 \<and> \<not> cfg_BatchingIsEnabled (DefaultTopicConfig b4)
         then t \<notin> PerTopicBatchingTopics b5 \<and> t \<notin> BrokerBatchDisableTopics b5
         else t \<in> BrokerBatchEnableTopics b5)"
      using at [of t]
      by (auto simp: g b5_def builder_Build_def Let_def enabled_topic_iff TCombinedTopicsBatcher_ctor_def
          core_BatchingIsEnabled_def TBatcherCore_ctor_def)
    then show ?thesis
      using at [of t]
      by (cases "map_of (conf_TopicConfigs conf) t")
        (auto simp: b5_def topic_policy_def wants_combined_def wants_per_topic_def b4_def split: option.splits)
  qed
qed

section \<open>Properties\<close>


definition ex_conf :: TBatchConf where
  "ex_conf = TBatchConf_ctor\<lparr>conf_ProduceRequestDataLimit := 1000, conf_MessageMaxBytes := 2000,
     conf_CombinedTopicsBatchingEnabled := True,
     conf_CombinedTopicsConfig := \<lparr>OptTimeLimit = Some 500, OptMsgCount = None, OptByteCount = None\<rparr>,
     conf_DefaultTopicAction := CombinedTopics,
     conf_TopicConfigs :=
       [(''p'', \<lparr>tc_Action = PerTopic,
                tc_BatchValues = \<lparr>OptTimeLimit = None, OptMsgCount = Some 7, OptByteCount = None\<rparr>\<rparr>),
        (''d'', \<lparr>tc_Action = Disable, tc_BatchValues = TBatchValues_ctor\<rparr>)]\<rparr>"


text \<open>C16: \<open>Clear\<close> does not reset everything, so a builder is not reusable.  After building a
  configuration in which combined topics batching is off and a topic is batched per topic, the
  same builder, given a configuration in which all topics are to be batched together, still
  excludes that topic: it gets no batching at all.\<close>

theorem builder_reuse_keeps_old_topics:
  "\<exists>conf1 conf2 t.
     let b = snd (BuildFromConf conf1 TBatchConfigBuilder_ctor); g = fst (BuildFromConf conf2 b)
     in topic_policy conf2 t = Some TBatchConfig_ctor \<and> conf_CombinedTopicsBatchingEnabled conf2 \<and>
        cfg_BatchingIsEnabled (ToBatchConfig (conf_CombinedTopicsConfig conf2)) \<and>
        \<not> cfg_BatchingIsEnabled (ptc_Get (the (GetPerTopicConfig g)) t) \<and>
        \<not> ctb_BatchingIsEnabled_topic (TCombinedTopicsBatcher_ctor (GetCombinedTopicsConfig g)) t"
proof (intro exI)
  show "let b = snd (BuildFromConf (ex_conf\<lparr>conf_CombinedTopicsBatchingEnabled := False\<rparr>) TBatchConfigBuilder_ctor);
         g = fst (BuildFromConf (ex_conf\<lparr>conf_TopicConfigs := []\<rparr>) b)
     in topic_policy (ex_conf\<lparr>conf_TopicConfigs := []\<rparr>) ''p'' = Some TBatchConfig_ctor \<and>
        conf_CombinedTopicsBatchingEnabled (ex_conf\<lparr>conf_TopicConfigs := []\<rparr>) \<and>
        cfg_BatchingIsEnabled (ToBatchConfig (conf_CombinedTopicsConfig (ex_conf\<lparr>conf_TopicConfigs := []\<rparr>))) \<and>
        \<not> cfg_BatchingIsEnabled (ptc_Get (the (GetPerTopicConfig g)) ''p'') \<and>
        \<not> ctb_BatchingIsEnabled_topic (TCombinedTopicsBatcher_ctor (GetCombinedTopicsConfig g)) ''p''"
    by code_simp
qed

end
