(* ===== verification/Msg_State_Tracker.thy ===== *)
theory Msg_State_Tracker
  imports Msg
begin

text \<open>
  \<open>TMsgStateTracker\<close> of \<open>src/dory/msg_state_tracker.{h,cc}\<close>: per-topic counts of the
  messages that are being batched, waiting to be sent and waiting for an ACK, and the
  global count of new messages.  Every method holds the tracker's mutex while it updates
  the counts, so each is one atomic step here.  Counts are \<open>long\<close> in the code and \<open>int\<close>
  here (they are bounded by the number of live messages).
\<close>

section \<open>State\<close>

record TTopicStats =
  BatchingCount :: int
  SendWaitCount :: int
  AckWaitCount :: int

record TTopicStatsWrapper =
  w_TopicStats :: TTopicStats
  w_OkToDelete :: bool

record TMsgStateTracker =
  mst_TopicStats :: "(string \<times> TTopicStatsWrapper) list"
  mst_NewCount :: int

definition TTopicStats_ctor :: TTopicStats where
  "TTopicStats_ctor = \<lparr>BatchingCount = 0, SendWaitCount = 0, AckWaitCount = 0\<rparr>"

definition TTopicStatsWrapper_ctor :: TTopicStatsWrapper where
  "TTopicStatsWrapper_ctor = \<lparr>w_TopicStats = TTopicStats_ctor, w_OkToDelete = False\<rparr>"

definition TMsgStateTracker_ctor :: TMsgStateTracker where
  "TMsgStateTracker_ctor = \<lparr>mst_TopicStats = [], mst_NewCount = 0\<rparr>"

record TDeltaComputer =
  NewDelta :: int
  BatchingDelta :: int
  SendWaitDelta :: int
  AckWaitDelta :: int

definition TDeltaComputer_ctor :: TDeltaComputer where
  "TDeltaComputer_ctor = \<lparr>NewDelta = 0, BatchingDelta = 0, SendWaitDelta = 0, AckWaitDelta = 0\<rparr>"

section \<open>Delta computation\<close>

text \<open>The branches that only log a bug leave the deltas unchanged.\<close>

definition CountBatchingEntered :: "TState \<Rightarrow> TDeltaComputer \<Rightarrow> TDeltaComputer" where
  "CountBatchingEntered prev_state c =
     (case prev_state of
        New \<Rightarrow> c\<lparr>NewDelta := NewDelta c - 1, BatchingDelta := BatchingDelta c + 1\<rparr>
      | Batching \<Rightarrow> c | SendWait \<Rightarrow> c | AckWait \<Rightarrow> c | Processed \<Rightarrow> c)"

definition CountSendWaitEntered :: "TState \<Rightarrow> TDeltaComputer \<Rightarrow> TDeltaComputer" where
  "CountSendWaitEntered prev_state c =
     (case prev_state of
        New \<Rightarrow> c\<lparr>NewDelta := NewDelta c - 1, SendWaitDelta := SendWaitDelta c + 1\<rparr>
      | Batching \<Rightarrow> c\<lparr>BatchingDelta := BatchingDelta c - 1, SendWaitDelta := SendWaitDelta c + 1\<rparr>
      | SendWait \<Rightarrow> c
      | AckWait \<Rightarrow> c\<lparr>AckWaitDelta := AckWaitDelta c - 1, SendWaitDelta := SendWaitDelta c + 1\<rparr>
      | Processed \<Rightarrow> c)"

definition CountAckWaitEntered :: "TState \<Rightarrow> TDeltaComputer \<Rightarrow> TDeltaComputer" where
  "CountAckWaitEntered prev_state c =
     (case prev_state of
        New \<Rightarrow> c | Batching \<Rightarrow> c
      | SendWait \<Rightarrow> c\<lparr>SendWaitDelta := SendWaitDelta c - 1, AckWaitDelta := AckWaitDelta c + 1\<rparr>
      | AckWait \<Rightarrow> c | Processed \<Rightarrow> c)"

definition CountProcessedEntered :: "TState \<Rightarrow> TDeltaComputer \<Rightarrow> TDeltaComputer" where
  "CountProcessedEntered prev_state c =
     (case prev_state of
        New \<Rightarrow> c\<lparr>NewDelta := NewDelta c - 1\<rparr>
      | Batching \<Rightarrow> c
      | SendWait \<Rightarrow> c\<lparr>SendWaitDelta := SendWaitDelta c - 1\<rparr>
      | AckWait \<Rightarrow> c\<lparr>AckWaitDelta := AckWaitDelta c - 1\<rparr>
      | Processed \<Rightarrow> c)"

section \<open>Operations\<close>

definition all_zero :: "TTopicStats \<Rightarrow> bool" where
  "all_zero s \<longleftrightarrow> BatchingCount s = 0 \<and> SendWaitCount s = 0 \<and> AckWaitCount s = 0"

definition UpdateStats :: "TMsgStateTracker \<Rightarrow> string \<Rightarrow> TDeltaComputer \<Rightarrow> TMsgStateTracker" where
  "UpdateStats tr topic dc =
     (let tr' =
        (if BatchingDelta dc \<noteq> 0 \<or> SendWaitDelta dc \<noteq> 0 \<or> AckWaitDelta dc \<noteq> 0 then
           let w = (case map_of (mst_TopicStats tr) topic of
                      None \<Rightarrow> TTopicStatsWrapper_ctor | Some w \<Rightarrow> w);
               s = w_TopicStats w;
               s' = \<lparr>BatchingCount = BatchingCount s + BatchingDelta dc,
                     SendWaitCount = SendWaitCount s + SendWaitDelta dc,
                     AckWaitCount = AckWaitCount s + AckWaitDelta dc\<rparr>;
               w' = w\<lparr>w_TopicStats := s'\<rparr>
           in if w_OkToDelete w' \<and> all_zero s'
              then tr\<lparr>mst_TopicStats := AList.delete topic (mst_TopicStats tr)\<rparr>
              else tr\<lparr>mst_TopicStats := AList.update topic w' (mst_TopicStats tr)\<rparr>
         else tr)
      in tr'\<lparr>mst_NewCount := mst_NewCount tr' + NewDelta dc\<rparr>)"

definition MsgEnterNew :: "TMsgStateTracker \<Rightarrow> TMsgStateTracker" where
  "MsgEnterNew tr = tr\<lparr>mst_NewCount := mst_NewCount tr + 1\<rparr>"

definition MsgEnterBatching :: "TMsgStateTracker \<Rightarrow> TMsg \<Rightarrow> TMsgStateTracker \<times> TMsg" where
  "MsgEnterBatching tr m =
     (UpdateStats tr (GetTopic m) (CountBatchingEntered (GetState m) TDeltaComputer_ctor),
      SetState Batching m)"

definition MsgEnterSendWait :: "TMsgStateTracker \<Rightarrow> TMsg \<Rightarrow> TMsgStateTracker \<times> TMsg" where
  "MsgEnterSendWait tr m =
     (UpdateStats tr (GetTopic m) (CountSendWaitEntered (GetState m) TDeltaComputer_ctor),
      SetState SendWait m)"

definition MsgEnterAckWait :: "TMsgStateTracker \<Rightarrow> TMsg \<Rightarrow> TMsgStateTracker \<times> TMsg" where
  "MsgEnterAckWait tr m =
     (UpdateStats tr (GetTopic m) (CountAckWaitEntered (GetState m) TDeltaComputer_ctor),
      SetState AckWait m)"

definition MsgEnterProcessed :: "TMsgStateTracker \<Rightarrow> TMsg \<Rightarrow> TMsgStateTracker \<times> TMsg" where
  "MsgEnterProcessed tr m =
     (UpdateStats tr (GetTopic m) (CountProcessedEntered (GetState m) TDeltaComputer_ctor),
      SetState Processed m)"

text \<open>The overloads on a list of messages accumulate the deltas of the whole list and
  update the stats of the first message's topic once.\<close>

definition MsgEnterSendWait_list :: "TMsgStateTracker \<Rightarrow> TMsg list \<Rightarrow> TMsgStateTracker \<times> TMsg list" where
  "MsgEnterSendWait_list tr ms =
     (case ms of [] \<Rightarrow> (tr, [])
      | m # _ \<Rightarrow>
          (UpdateStats tr (GetTopic m)
             (fold (\<lambda>x. CountSendWaitEntered (GetState x)) ms TDeltaComputer_ctor),
           map (SetState SendWait) ms))"

definition MsgEnterAckWait_list :: "TMsgStateTracker \<Rightarrow> TMsg list \<Rightarrow> TMsgStateTracker \<times> TMsg list" where
  "MsgEnterAckWait_list tr ms =
     (case ms of [] \<Rightarrow> (tr, [])
      | m # _ \<Rightarrow>
          (UpdateStats tr (GetTopic m)
             (fold (\<lambda>x. CountAckWaitEntered (GetState x)) ms TDeltaComputer_ctor),
           map (SetState AckWait) ms))"

definition MsgEnterProcessed_list :: "TMsgStateTracker \<Rightarrow> TMsg list \<Rightarrow> TMsgStateTracker \<times> TMsg list" where
  "MsgEnterProcessed_list tr ms =
     (case ms of [] \<Rightarrow> (tr, [])
      | m # _ \<Rightarrow>
          (UpdateStats tr (GetTopic m)
             (fold (\<lambda>x. CountProcessedEntered (GetState x)) ms TDeltaComputer_ctor),
           map (SetState Processed) ms))"

text \<open>The overloads on a list of lists call the list overload on each inner list.\<close>

fun MsgEnterSendWait_lists :: "TMsgStateTracker \<Rightarrow> TMsg list list \<Rightarrow> TMsgStateTracker \<times> TMsg list list" where
  "MsgEnterSendWait_lists tr [] = (tr, [])"
| "MsgEnterSendWait_lists tr (ms # mss) =
     (let (tr', ms') = MsgEnterSendWait_list tr ms;
          (tr'', mss') = MsgEnterSendWait_lists tr' mss
      in (tr'', ms' # mss'))"

fun MsgEnterAckWait_lists :: "TMsgStateTracker \<Rightarrow> TMsg list list \<Rightarrow> TMsgStateTracker \<times> TMsg list list" where
  "MsgEnterAckWait_lists tr [] = (tr, [])"
| "MsgEnterAckWait_lists tr (ms # mss) =
     (let (tr', ms') = MsgEnterAckWait_list tr ms;
          (tr'', mss') = MsgEnterAckWait_lists tr' mss
      in (tr'', ms' # mss'))"

fun MsgEnterProcessed_lists :: "TMsgStateTracker \<Rightarrow> TMsg list list \<Rightarrow> TMsgStateTracker \<times> TMsg list list" where
  "MsgEnterProcessed_lists tr [] = (tr, [])"
| "MsgEnterProcessed_lists tr (ms # mss) =
     (let (tr', ms') = MsgEnterProcessed_list tr ms;
          (tr'', mss') = MsgEnterProcessed_lists tr' mss
      in (tr'', ms' # mss'))"

definition GetStats :: "TMsgStateTracker \<Rightarrow> (string \<times> TTopicStats) list \<times> int" where
  "GetStats tr =
     (map (\<lambda>(t, w). (t, w_TopicStats w))
        (filter (\<lambda>(t, w). BatchingCount (w_TopicStats w) \<noteq> 0 \<or> SendWaitCount (w_TopicStats w) \<noteq> 0
                         \<or> AckWaitCount (w_TopicStats w) \<noteq> 0) (mst_TopicStats tr)),
      mst_NewCount tr)"

fun PruneTopics_loop ::
  "(string \<Rightarrow> bool) \<Rightarrow> (string \<times> TTopicStatsWrapper) list \<Rightarrow> (string \<times> TTopicStatsWrapper) list" where
  "PruneTopics_loop topic_exists_fn [] = []"
| "PruneTopics_loop topic_exists_fn ((t, w) # rest) =
     (let w' = w\<lparr>w_OkToDelete := \<not> topic_exists_fn t\<rparr>
      in if w_OkToDelete w' \<and> BatchingCount (w_TopicStats w') = 0 \<and> SendWaitCount (w_TopicStats w') = 0
            \<and> AckWaitCount (w_TopicStats w') = 0
         then PruneTopics_loop topic_exists_fn rest
         else (t, w') # PruneTopics_loop topic_exists_fn rest)"

definition PruneTopics :: "(string \<Rightarrow> bool) \<Rightarrow> TMsgStateTracker \<Rightarrow> TMsgStateTracker" where
  "PruneTopics topic_exists_fn tr =
     tr\<lparr>mst_TopicStats := PruneTopics_loop topic_exists_fn (mst_TopicStats tr)\<rparr>"

section \<open>The tracked population\<close>

text \<open>The stats the tracker reports for a topic; a topic with no record has none.\<close>

definition stat :: "TMsgStateTracker \<Rightarrow> string \<Rightarrow> TTopicStats" where
  "stat tr t = (case map_of (mst_TopicStats tr) t of
                  None \<Rightarrow> TTopicStats_ctor | Some w \<Rightarrow> w_TopicStats w)"

definition num_in :: "TState \<Rightarrow> string \<Rightarrow> TMsg multiset \<Rightarrow> int" where
  "num_in st t M = int (size (filter_mset (\<lambda>m. GetTopic m = t \<and> GetState m = st) M))"

definition num_new :: "TMsg multiset \<Rightarrow> int" where
  "num_new M = int (size (filter_mset (\<lambda>m. GetState m = New) M))"

text \<open>The abstract specification: the tracker agrees with the multiset of live messages.\<close>

definition tracks :: "TMsgStateTracker \<Rightarrow> TMsg multiset \<Rightarrow> bool" where
  "tracks tr M \<longleftrightarrow>
     distinct (map fst (mst_TopicStats tr)) \<and>
     (\<forall>t. BatchingCount (stat tr t) = num_in Batching t M \<and>
          SendWaitCount (stat tr t) = num_in SendWait t M \<and>
          AckWaitCount (stat tr t) = num_in AckWait t M) \<and>
     mst_NewCount tr = num_new M"

lemma num_in_simps [simp]:
  "num_in st t {#} = 0"
  "num_in st t (add_mset m M) = num_in st t M + of_bool (GetTopic m = t \<and> GetState m = st)"
  "num_in st t (M + N) = num_in st t M + num_in st t N"
  by (simp_all add: num_in_def)

lemma num_new_simps [simp]:
  "num_new {#} = 0"
  "num_new (add_mset m M) = num_new M + of_bool (GetState m = New)"
  "num_new (M + N) = num_new M + num_new N"
  by (simp_all add: num_new_def)

lemma num_in_nonneg: "0 \<le> num_in st t M"
  by (simp add: num_in_def)

lemma stat_UpdateStats:
  "stat (UpdateStats tr topic c) t =
     (if t = topic
      then \<lparr>BatchingCount = BatchingCount (stat tr t) + BatchingDelta c,
            SendWaitCount = SendWaitCount (stat tr t) + SendWaitDelta c,
            AckWaitCount = AckWaitCount (stat tr t) + AckWaitDelta c\<rparr>
      else stat tr t)"
  by (auto simp: UpdateStats_def stat_def Let_def all_zero_def TTopicStats_ctor_def
      TTopicStatsWrapper_ctor_def split: option.splits)

lemma NewCount_UpdateStats [simp]:
  "mst_NewCount (UpdateStats tr topic c) = mst_NewCount tr + NewDelta c"
  by (simp add: UpdateStats_def Let_def)

lemma distinct_UpdateStats [simp]:
  "distinct (map fst (mst_TopicStats tr)) \<Longrightarrow>
   distinct (map fst (mst_TopicStats (UpdateStats tr topic c)))"
  by (simp add: UpdateStats_def Let_def)

section \<open>The state entry contract\<close>

text \<open>
  One contract for the four \<open>Count...Entered\<close> methods: from a legal previous state, the
  deltas move one message from the previous state to the target.  The lemmas on single
  messages and lists follow from it once.
\<close>

locale state_entry =
  fixes target :: TState
    and legal :: "TState \<Rightarrow> bool"
    and count_entered :: "TState \<Rightarrow> TDeltaComputer \<Rightarrow> TDeltaComputer"
  assumes target_not_new: "target \<noteq> New"
    and new_delta: "legal p \<Longrightarrow> NewDelta (count_entered p c) = NewDelta c - of_bool (p = New)"
    and batching_delta: "legal p \<Longrightarrow> BatchingDelta (count_entered p c) =
      BatchingDelta c + of_bool (target = Batching) - of_bool (p = Batching)"
    and send_wait_delta: "legal p \<Longrightarrow> SendWaitDelta (count_entered p c) =
      SendWaitDelta c + of_bool (target = SendWait) - of_bool (p = SendWait)"
    and ack_wait_delta: "legal p \<Longrightarrow> AckWaitDelta (count_entered p c) =
      AckWaitDelta c + of_bool (target = AckWait) - of_bool (p = AckWait)"
begin

lemma fold_deltas:
  assumes "\<forall>m \<in> set ms. GetTopic m = t \<and> legal (GetState m)"
  defines "N \<equiv> mset (map (SetState target) ms)"
  shows "NewDelta (fold (\<lambda>x. count_entered (GetState x)) ms c) =
           NewDelta c + num_new N - num_new (mset ms)"
    and "BatchingDelta (fold (\<lambda>x. count_entered (GetState x)) ms c) =
           BatchingDelta c + num_in Batching t N - num_in Batching t (mset ms)"
    and "SendWaitDelta (fold (\<lambda>x. count_entered (GetState x)) ms c) =
           SendWaitDelta c + num_in SendWait t N - num_in SendWait t (mset ms)"
    and "AckWaitDelta (fold (\<lambda>x. count_entered (GetState x)) ms c) =
           AckWaitDelta c + num_in AckWait t N - num_in AckWait t (mset ms)"
  unfolding N_def using assms(1)
  by (induction ms arbitrary: c)
    (auto simp: new_delta batching_delta send_wait_delta ack_wait_delta target_not_new)

lemma num_in_other_topic:
  assumes "\<forall>m \<in> set ms. GetTopic m = t" and "t' \<noteq> t"
  shows "num_in st t' (mset ms) = 0"
  using assms by (induction ms) auto

lemma tracks_entered:
  assumes "\<forall>m \<in> set ms. GetTopic m = t \<and> legal (GetState m)"
    and "tracks tr (M + mset ms)"
  shows "tracks (UpdateStats tr t (fold (\<lambda>x. count_entered (GetState x)) ms TDeltaComputer_ctor))
           (M + mset (map (SetState target) ms))"
proof -
  have other: "num_in st t' (mset (map (SetState target) ms)) = 0"
    "num_in st t' (mset ms) = 0" if "t' \<noteq> t" for st t'
    by (rule num_in_other_topic [OF _ that], use assms(1) in force)+
  show ?thesis
    using assms(2) fold_deltas [OF assms(1)] other
    unfolding tracks_def by (auto simp: stat_UpdateStats TDeltaComputer_ctor_def)
qed

end

text \<open>The legal transitions of a message's state, as the \<open>switch\<close> statements have them.\<close>

abbreviation batching_legal :: "TState \<Rightarrow> bool" where
  "batching_legal p \<equiv> p = New"

abbreviation send_wait_legal :: "TState \<Rightarrow> bool" where
  "send_wait_legal p \<equiv> p \<noteq> Processed"

abbreviation ack_wait_legal :: "TState \<Rightarrow> bool" where
  "ack_wait_legal p \<equiv> p = SendWait"

abbreviation processed_legal :: "TState \<Rightarrow> bool" where
  "processed_legal p \<equiv> p \<noteq> Batching \<and> p \<noteq> Processed"

interpretation enter_batching: state_entry Batching batching_legal CountBatchingEntered
  by unfold_locales (auto simp: CountBatchingEntered_def split: TState.splits)

interpretation enter_send_wait: state_entry SendWait send_wait_legal CountSendWaitEntered
  by unfold_locales (auto simp: CountSendWaitEntered_def split: TState.splits)

interpretation enter_ack_wait: state_entry AckWait ack_wait_legal CountAckWaitEntered
  by unfold_locales (auto simp: CountAckWaitEntered_def split: TState.splits)

interpretation enter_processed: state_entry Processed processed_legal CountProcessedEntered
  by unfold_locales (auto simp: CountProcessedEntered_def split: TState.splits)

section \<open>Every operation keeps the tracker exact\<close>

lemma tracks_ctor: "tracks TMsgStateTracker_ctor {#}"
  by (simp add: tracks_def TMsgStateTracker_ctor_def stat_def TTopicStats_ctor_def)

lemma tracks_MsgEnterNew:
  "tracks tr M \<Longrightarrow> GetState m = New \<Longrightarrow> tracks (MsgEnterNew tr) (add_mset m M)"
  by (auto simp: tracks_def MsgEnterNew_def stat_def)

lemma tracks_MsgEnterBatching:
  assumes "tracks tr (add_mset m M)" and "GetState m = New"
  shows "tracks (fst (MsgEnterBatching tr m)) (add_mset (SetState Batching m) M)"
  using enter_batching.tracks_entered [of "[m]" "GetTopic m" tr M] assms
  by (simp add: MsgEnterBatching_def)

lemma tracks_MsgEnterSendWait:
  assumes "tracks tr (add_mset m M)" and "GetState m \<noteq> Processed"
  shows "tracks (fst (MsgEnterSendWait tr m)) (add_mset (SetState SendWait m) M)"
  using enter_send_wait.tracks_entered [of "[m]" "GetTopic m" tr M] assms
  by (simp add: MsgEnterSendWait_def)

lemma tracks_MsgEnterSendWait_list:
  assumes "tracks tr (M + mset ms)" and "one_topic ms" and "\<forall>m \<in> set ms. GetState m \<noteq> Processed"
  shows "tracks (fst (MsgEnterSendWait_list tr ms)) (M + mset (map (SetState SendWait) ms))"
proof -
  have "\<forall>m \<in> set ms. GetTopic m = GetTopic (hd ms) \<and> send_wait_legal (GetState m)"
    using assms(2,3) one_topic_hd by blast
  from enter_send_wait.tracks_entered [OF this assms(1)] show ?thesis
    using assms(1) by (cases ms) (simp_all add: MsgEnterSendWait_list_def)
qed

lemma tracks_MsgEnterAckWait_list:
  assumes "tracks tr (M + mset ms)" and "one_topic ms" and "\<forall>m \<in> set ms. GetState m = SendWait"
  shows "tracks (fst (MsgEnterAckWait_list tr ms)) (M + mset (map (SetState AckWait) ms))"
proof -
  have "\<forall>m \<in> set ms. GetTopic m = GetTopic (hd ms) \<and> ack_wait_legal (GetState m)"
    using assms(2,3) one_topic_hd by blast
  from enter_ack_wait.tracks_entered [OF this assms(1)] show ?thesis
    using assms(1) by (cases ms) (simp_all add: MsgEnterAckWait_list_def)
qed

lemma tracks_MsgEnterProcessed_list:
  assumes "tracks tr (M + mset ms)" and "one_topic ms"
    and "\<forall>m \<in> set ms. processed_legal (GetState m)"
  shows "tracks (fst (MsgEnterProcessed_list tr ms)) (M + mset (map (SetState Processed) ms))"
proof -
  have "\<forall>m \<in> set ms. GetTopic m = GetTopic (hd ms) \<and> processed_legal (GetState m)"
    using assms(2,3) one_topic_hd by blast
  from enter_processed.tracks_entered [OF this assms(1)] show ?thesis
    using assms(1) by (cases ms) (simp_all add: MsgEnterProcessed_list_def)
qed

text \<open>A processed message is not counted, so it can be destroyed.\<close>

lemma tracks_destroy:
  assumes "tracks tr (M + N)" and "\<forall>m \<in># N. GetState m = Processed"
  shows "tracks tr M"
proof -
  have "num_in st t N = 0" if "st \<noteq> Processed" for st t
    using assms(2) that by (auto simp: num_in_def filter_mset_eq_mempty_iff)
  moreover have "num_new N = 0"
    using assms(2) by (auto simp: num_new_def filter_mset_eq_mempty_iff)
  ultimately show ?thesis using assms(1) by (simp add: tracks_def)
qed

lemma snd_MsgEnter_list [simp]:
  "snd (MsgEnterSendWait_list tr ms) = map (SetState SendWait) ms"
  "snd (MsgEnterAckWait_list tr ms) = map (SetState AckWait) ms"
  "snd (MsgEnterProcessed_list tr ms) = map (SetState Processed) ms"
  by (cases ms; simp add: MsgEnterSendWait_list_def MsgEnterAckWait_list_def
      MsgEnterProcessed_list_def)+

lemma snd_MsgEnter_lists [simp]:
  "snd (MsgEnterSendWait_lists tr mss) = map (map (SetState SendWait)) mss"
  "snd (MsgEnterAckWait_lists tr mss) = map (map (SetState AckWait)) mss"
  "snd (MsgEnterProcessed_lists tr mss) = map (map (SetState Processed)) mss"
  by (induction mss arbitrary: tr; simp add: split_beta Let_def)+

lemma tracks_MsgEnterSendWait_lists:
  assumes "tracks tr (M + mset (concat mss))" and "\<forall>ms \<in> set mss. one_topic ms"
    and "\<forall>m \<in> set (concat mss). GetState m \<noteq> Processed"
  shows "tracks (fst (MsgEnterSendWait_lists tr mss))
           (M + mset (map (SetState SendWait) (concat mss)))"
  using assms
proof (induction mss arbitrary: tr M)
  case (Cons ms mss)
  have "tracks tr ((M + mset (concat mss)) + mset ms)"
    using Cons.prems(1) by (simp add: ac_simps)
  then have "tracks (fst (MsgEnterSendWait_list tr ms))
          ((M + mset (concat mss)) + mset (map (SetState SendWait) ms))"
    by (rule tracks_MsgEnterSendWait_list) (use Cons.prems in simp_all)
  then have "tracks (fst (MsgEnterSendWait_list tr ms))
          ((M + mset (map (SetState SendWait) ms)) + mset (concat mss))"
    by (simp only: ac_simps)
  from Cons.IH [OF this] Cons.prems(2,3) show ?case
    by (simp add: split_beta Let_def add.assoc)
qed simp

lemma tracks_MsgEnterProcessed_lists:
  assumes "tracks tr (M + mset (concat mss))" and "\<forall>ms \<in> set mss. one_topic ms"
    and "\<forall>m \<in> set (concat mss). processed_legal (GetState m)"
  shows "tracks (fst (MsgEnterProcessed_lists tr mss))
           (M + mset (map (SetState Processed) (concat mss)))"
  using assms
proof (induction mss arbitrary: tr M)
  case (Cons ms mss)
  have "tracks tr ((M + mset (concat mss)) + mset ms)"
    using Cons.prems(1) by (simp add: ac_simps)
  then have "tracks (fst (MsgEnterProcessed_list tr ms))
          ((M + mset (concat mss)) + mset (map (SetState Processed) ms))"
    by (rule tracks_MsgEnterProcessed_list) (use Cons.prems in simp_all)
  then have "tracks (fst (MsgEnterProcessed_list tr ms))
          ((M + mset (map (SetState Processed) ms)) + mset (concat mss))"
    by (simp only: ac_simps)
  from Cons.IH [OF this] Cons.prems(2,3) show ?case
    by (simp add: split_beta Let_def add.assoc)
qed simp

lemma map_of_PruneTopics_loop:
  "distinct (map fst al) \<Longrightarrow>
   map_of (PruneTopics_loop f al) t =
     (case map_of al t of None \<Rightarrow> None
      | Some w \<Rightarrow> if \<not> f t \<and> all_zero (w_TopicStats w) then None
                  else Some (w\<lparr>w_OkToDelete := \<not> f t\<rparr>))"
proof (induction al)
  case (Cons a al)
  obtain k w where a: "a = (k, w)" by fastforce
  show ?case
  proof (cases "t = k")
    case True
    then have "map_of al t = None"
      using Cons.prems a by (simp add: map_of_eq_None_iff)
    then show ?thesis
      using Cons True a by (simp add: all_zero_def Let_def)
  next
    case False
    then show ?thesis using Cons a by (simp add: Let_def)
  qed
qed simp

lemma PruneTopics_loop_keys: "set (map fst (PruneTopics_loop f al)) \<subseteq> set (map fst al)"
  by (induction f al rule: PruneTopics_loop.induct) (auto simp: Let_def)

lemma distinct_PruneTopics_loop:
  "distinct (map fst al) \<Longrightarrow> distinct (map fst (PruneTopics_loop f al))"
proof (induction al)
  case (Cons a al)
  then show ?case
    using PruneTopics_loop_keys [of f al] by (cases a) (auto simp: Let_def)
qed simp

lemma stat_PruneTopics:
  assumes "distinct (map fst (mst_TopicStats tr))"
  shows "stat (PruneTopics f tr) t = stat tr t"
  using assms
  by (cases "map_of (mst_TopicStats tr) t")
    (simp_all add: stat_def PruneTopics_def map_of_PruneTopics_loop all_zero_def TTopicStats_ctor_def)

lemma PruneTopics_fields:
  "distinct (map fst (mst_TopicStats tr)) \<Longrightarrow>
   distinct (map fst (mst_TopicStats (PruneTopics f tr)))"
  "mst_NewCount (PruneTopics f tr) = mst_NewCount tr"
  by (simp_all add: PruneTopics_def distinct_PruneTopics_loop)

lemma tracks_PruneTopics:
  assumes "tracks tr M"
  shows "tracks (PruneTopics f tr) M"
  using assms unfolding tracks_def by (simp add: stat_PruneTopics PruneTopics_fields)

section \<open>Properties\<close>

text \<open>Histories of the tracker: a message enters state \<open>New\<close> when it is created, then moves on in
  lists of messages of one topic, and is destroyed after it has been processed.\<close>

inductive tracker_run :: "TMsgStateTracker \<Rightarrow> TMsg multiset \<Rightarrow> bool" where
  start: "tracker_run TMsgStateTracker_ctor {#}"
| new: "tracker_run tr M \<Longrightarrow> GetState m = New \<Longrightarrow> tracker_run (MsgEnterNew tr) (add_mset m M)"
| batching: "tracker_run tr (add_mset m M) \<Longrightarrow> GetState m = New \<Longrightarrow>
    MsgEnterBatching tr m = (tr', m') \<Longrightarrow> tracker_run tr' (add_mset m' M)"
| send_wait: "tracker_run tr (M + mset (concat mss)) \<Longrightarrow> \<forall>ms \<in> set mss. one_topic ms \<Longrightarrow>
    \<forall>m \<in> set (concat mss). GetState m \<noteq> Processed \<Longrightarrow>
    MsgEnterSendWait_lists tr mss = (tr', mss') \<Longrightarrow> tracker_run tr' (M + mset (concat mss'))"
| ack_wait: "tracker_run tr (M + mset ms) \<Longrightarrow> one_topic ms \<Longrightarrow> \<forall>m \<in> set ms. GetState m = SendWait \<Longrightarrow>
    MsgEnterAckWait_list tr ms = (tr', ms') \<Longrightarrow> tracker_run tr' (M + mset ms')"
| processed: "tracker_run tr (M + mset (concat mss)) \<Longrightarrow> \<forall>ms \<in> set mss. one_topic ms \<Longrightarrow>
    \<forall>m \<in> set (concat mss). GetState m \<noteq> Batching \<and> GetState m \<noteq> Processed \<Longrightarrow>
    MsgEnterProcessed_lists tr mss = (tr', mss') \<Longrightarrow> tracker_run tr' (M + mset (concat mss'))"
| destroy: "tracker_run tr (M + N) \<Longrightarrow> \<forall>m \<in># N. GetState m = Processed \<Longrightarrow> tracker_run tr M"
| prune: "tracker_run tr M \<Longrightarrow> tracker_run (PruneTopics f tr) M"

lemma concat_map_SetState: "concat (map (map f) xss) = map f (concat xss)"
  by (induction xss) auto

lemma tracker_run_tracks: "tracker_run tr M \<Longrightarrow> tracks tr M"
proof (induction rule: tracker_run.induct)
  case start then show ?case by (rule tracks_ctor)
next
  case (new tr M m) then show ?case by (intro tracks_MsgEnterNew)
next
  case (batching tr m M tr' m')
  then show ?case using tracks_MsgEnterBatching [of tr m M] by (auto simp: MsgEnterBatching_def)
next
  case (send_wait tr M mss tr' mss')
  then have "mss' = map (map (SetState SendWait)) mss" "tr' = fst (MsgEnterSendWait_lists tr mss)"
    using snd_MsgEnter_lists(1) [of tr mss] by simp_all
  with send_wait tracks_MsgEnterSendWait_lists [of tr M mss] show ?case by (simp add: concat_map_SetState)
next
  case (ack_wait tr M ms tr' ms')
  then have "ms' = map (SetState AckWait) ms" "tr' = fst (MsgEnterAckWait_list tr ms)"
    using snd_MsgEnter_list(2) [of tr ms] by simp_all
  with ack_wait tracks_MsgEnterAckWait_list [of tr M ms] show ?case by simp
next
  case (processed tr M mss tr' mss')
  then have "mss' = map (map (SetState Processed)) mss" "tr' = fst (MsgEnterProcessed_lists tr mss)"
    using snd_MsgEnter_lists(3) [of tr mss] by simp_all
  with processed tracks_MsgEnterProcessed_lists [of tr M mss] show ?case by (simp add: concat_map_SetState)
next
  case (destroy tr M N) then show ?case by (blast intro: tracks_destroy)
next
  case (prune tr M f) then show ?case by (blast intro: tracks_PruneTopics)
qed

lemma GetStats_lookup:
  assumes "distinct (map fst (mst_TopicStats tr))"
  shows "map_of (fst (GetStats tr)) t =
    (if all_zero (stat tr t) then None else Some (stat tr t))"
proof -
  have "map_of (map (\<lambda>(t, w). (t, w_TopicStats w)) (filter (\<lambda>(t, w). P w) al)) t =
      (case map_of al t of Some w \<Rightarrow> if P w then Some (w_TopicStats w) else None | None \<Rightarrow> None)"
    if "distinct (map fst al)" for P and al :: "(string \<times> TTopicStatsWrapper) list"
    using that by (induction al) (auto split: option.splits simp: map_of_eq_None_iff [symmetric])
  from this [OF assms] show ?thesis
    by (auto simp: GetStats_def stat_def all_zero_def TTopicStats_ctor_def split: option.splits)
qed

text \<open>C11: Exact statistics.  Over every history of message creations, state transitions in lists
  of one topic, destructions of processed messages and prunings of unknown topics, \<open>GetStats\<close>
  reports for each topic exactly the numbers of live messages in the states \<open>Batching\<close>,
  \<open>SendWait\<close> and \<open>AckWait\<close>, omits exactly the topics that have none, and reports the number of
  messages in state \<open>New\<close>.\<close>

theorem GetStats_exact:
  assumes "tracker_run tr M" and "GetStats tr = (stats, new_count)"
  shows "new_count = num_new M \<and>
    map_of stats t =
      (if num_in Batching t M = 0 \<and> num_in SendWait t M = 0 \<and> num_in AckWait t M = 0 then None
       else Some \<lparr>BatchingCount = num_in Batching t M, SendWaitCount = num_in SendWait t M,
                  AckWaitCount = num_in AckWait t M\<rparr>)"
proof -
  have tr: "tracks tr M" using assms(1) by (rule tracker_run_tracks)
  then have "stat tr t = \<lparr>BatchingCount = num_in Batching t M, SendWaitCount = num_in SendWait t M,
      AckWaitCount = num_in AckWait t M\<rparr>"
    by (simp add: tracks_def)
  with tr GetStats_lookup [of tr t] assms(2) show ?thesis
    by (auto simp: tracks_def all_zero_def GetStats_def)
qed

definition ex_new :: "string \<Rightarrow> TMsg" where
  "ex_new topic = TMsg_ctor AnyPartition 0 0 0 topic [] [] False"

definition ex_tracker :: TMsgStateTracker where
  "ex_tracker = fst (MsgEnterBatching (MsgEnterNew (MsgEnterNew TMsgStateTracker_ctor)) (ex_new ''a''))"

theorem GetStats_exact_witness:
  "map_of (fst (GetStats ex_tracker)) ''a'' =
     Some \<lparr>BatchingCount = 1, SendWaitCount = 0, AckWaitCount = 0\<rparr> \<and> snd (GetStats ex_tracker) = 1"
proof -
  have n: "GetState (ex_new t) = New" for t by (simp add: ex_new_def TMsg_ctor_def)
  have "tracker_run ex_tracker (add_mset (SetState Batching (ex_new ''a'')) {#ex_new ''b''#})"
  proof -
    have "tracker_run (MsgEnterNew (MsgEnterNew TMsgStateTracker_ctor)) {#ex_new ''a'', ex_new ''b''#}"
      by (rule new [OF new [OF start n] n])
    from batching [OF this n prod.collapse [symmetric]] show ?thesis
      by (simp add: ex_tracker_def) (simp add: MsgEnterBatching_def)
  qed
  from GetStats_exact [OF this prod.collapse [symmetric], of "''a''"] show ?thesis
    by (simp add: ex_new_def TMsg_ctor_def SetState_def)
qed

end
