(* ===== verification/Broker_Msg_Queue.thy ===== *)
theory Broker_Msg_Queue
  imports Batch_Conf Msg_State_Tracker
begin

text \<open>
  \<open>TBrokerMsgQueue\<close>, \<open>src/dory/msg_dispatch/broker_msg_queue.{h,cc}\<close>: the queue between the
  router thread and the connector thread of one broker.  Each operation that takes the
  mutex is one step on the state; the operations interleave in any order.

  The event semaphore is its count.  The message state tracker, which the queue shares by
  reference with the rest of the program, is part of the state.

  The code sets the state of a message that a batcher has accepted through a reference to
  the message, wherever the batcher has put it.  Here the message goes into the batcher
  with its new state; the batchers do not look at the state, so which messages they accept
  is unaffected (\<open>ctb_accepts_SetState\<close>, \<open>ptb_AddMsg_config\<close>).  A message that is not
  accepted keeps its state.
\<close>

section \<open>State\<close>

record TExpiryStatus =
  OptInitialExpiry :: "int option"
  OptFinalExpiry :: "int option"

definition TExpiryStatus_Clear :: TExpiryStatus where
  "TExpiryStatus_Clear = \<lparr>OptInitialExpiry = None, OptFinalExpiry = None\<rparr>"

record TBrokerMsgQueue =
  bq_SenderNotify :: nat
  bq_PerTopicBatcher :: TPerTopicBatcher
  bq_CombinedTopicsBatcher :: TCombinedTopicsBatcher
  bq_ReadyList :: "TMsg list list"
  bq_MsgStateTracker :: TMsgStateTracker
  bq_counters :: TCounters

definition min_opt_ts :: "int option \<Rightarrow> int option \<Rightarrow> int option" where
  "min_opt_ts t1 t2 =
     (case (t1, t2) of
        (Some x, Some y) \<Rightarrow> Some (min x y)
      | (Some x, None) \<Rightarrow> t1
      | (None, Some y) \<Rightarrow> t2
      | (None, None) \<Rightarrow> None)"

definition TBrokerMsgQueue_ctor ::
  "TGlobalBatchConfig \<Rightarrow> TMsgStateTracker \<Rightarrow> TCounters \<Rightarrow> TBrokerMsgQueue" where
  "TBrokerMsgQueue_ctor batch_config msg_state_tracker counters =
     \<lparr>bq_SenderNotify = 0,
      bq_PerTopicBatcher = TPerTopicBatcher_ctor (GetPerTopicConfig batch_config),
      bq_CombinedTopicsBatcher = TCombinedTopicsBatcher_ctor (GetCombinedTopicsConfig batch_config),
      bq_ReadyList = [], bq_MsgStateTracker = msg_state_tracker, bq_counters = counters\<rparr>"

section \<open>Operations\<close>

text \<open>Moving batches to the ready list, after they have entered state \<open>SendWait\<close>.\<close>

definition enter_send_wait_lists ::
  "TMsg list list \<Rightarrow> TBrokerMsgQueue \<Rightarrow> TBrokerMsgQueue \<times> TMsg list list" where
  "enter_send_wait_lists batches q =
     (let (tr, batches') = MsgEnterSendWait_lists (bq_MsgStateTracker q) batches
      in (q\<lparr>bq_MsgStateTracker := tr\<rparr>, batches'))"

definition splice_ready :: "TMsg list list \<Rightarrow> TBrokerMsgQueue \<Rightarrow> TBrokerMsgQueue" where
  "splice_ready batches q = q\<lparr>bq_ReadyList := bq_ReadyList q @ batches\<rparr>"

definition bq_count :: "string \<Rightarrow> TBrokerMsgQueue \<Rightarrow> TBrokerMsgQueue" where
  "bq_count name q = q\<lparr>bq_counters := Increment name (bq_counters q)\<rparr>"

definition Push :: "TBrokerMsgQueue \<Rightarrow> TBrokerMsgQueue" where
  "Push q = q\<lparr>bq_SenderNotify := bq_SenderNotify q + 1\<rparr>"

text \<open>The second component of the result is what the caller's pointer still holds.\<close>

definition TryBatchPerTopic ::
  "TBrokerMsgQueue \<Rightarrow> int \<Rightarrow> TMsg \<Rightarrow> TBrokerMsgQueue \<times> TMsg option \<times> TExpiryStatus" where
  "TryBatchPerTopic q now msg =
     (case ptb_Config (bq_PerTopicBatcher q) of
        None \<Rightarrow> (q, Some msg, TExpiryStatus_Clear)
      | Some cfg \<Rightarrow>
          let initial = ptb_GetNextCompleteTime (bq_PerTopicBatcher q)
          in if GetRoutingType msg = PartitionKey then
               let (tr_batching, batched) = MsgEnterBatching (bq_MsgStateTracker q) msg;
                   (b, batch_list, left) = ptb_AddMsg cfg (bq_PerTopicBatcher q) batched now;
                   q1 = q\<lparr>bq_PerTopicBatcher := b,
                          bq_MsgStateTracker :=
                            (if left = None then tr_batching else bq_MsgStateTracker q)\<rparr>;
                   (q2, batch_list') = enter_send_wait_lists batch_list q1;
                   q3 = splice_ready batch_list' q2
               in (q3, (if left = None then None else Some msg),
                   \<lparr>OptInitialExpiry = initial,
                    OptFinalExpiry = ptb_GetNextCompleteTime (bq_PerTopicBatcher q3)\<rparr>)
             else (q, Some msg, \<lparr>OptInitialExpiry = initial, OptFinalExpiry = initial\<rparr>))"

definition TryBatchCombinedTopics ::
  "TBrokerMsgQueue \<Rightarrow> int \<Rightarrow> TMsg \<Rightarrow> TBrokerMsgQueue \<times> TMsg option \<times> TExpiryStatus" where
  "TryBatchCombinedTopics q now msg =
     (let initial = ctb_GetNextCompleteTime (bq_CombinedTopicsBatcher q);
          (tr_batching, batched) = MsgEnterBatching (bq_MsgStateTracker q) msg;
          (b, batch_list, left) = ctb_AddMsg (bq_CombinedTopicsBatcher q) batched now;
          q1 = q\<lparr>bq_CombinedTopicsBatcher := b,
                 bq_MsgStateTracker := (if left = None then tr_batching else bq_MsgStateTracker q)\<rparr>;
          (q2, batch_list') = enter_send_wait_lists batch_list q1;
          q3 = splice_ready batch_list' q2
      in (q3, (if left = None then None else Some msg),
          \<lparr>OptInitialExpiry = initial,
           OptFinalExpiry = ctb_GetNextCompleteTime (bq_CombinedTopicsBatcher q3)\<rparr>))"

definition CheckPerTopicBatcher ::
  "TBrokerMsgQueue \<Rightarrow> int \<Rightarrow> TBrokerMsgQueue \<times> TMsg list list \<times> TExpiryStatus" where
  "CheckPerTopicBatcher q now =
     (let initial = ptb_GetNextCompleteTime (bq_PerTopicBatcher q);
          (b, ready_batches, final) =
            (case initial of
               None \<Rightarrow> (bq_PerTopicBatcher q, [], None)
             | Some x \<Rightarrow>
                 if x \<le> now then
                   let (b, bs) = ptb_GetCompleteBatches (bq_PerTopicBatcher q) now
                   in (b, bs, ptb_GetNextCompleteTime b)
                 else (bq_PerTopicBatcher q, [], initial));
          (q', ready') = enter_send_wait_lists ready_batches (q\<lparr>bq_PerTopicBatcher := b\<rparr>)
      in (q', ready', \<lparr>OptInitialExpiry = initial, OptFinalExpiry = final\<rparr>))"

definition CheckCombinedTopicsBatcher ::
  "TBrokerMsgQueue \<Rightarrow> int \<Rightarrow> TBrokerMsgQueue \<times> TMsg list list \<times> TExpiryStatus" where
  "CheckCombinedTopicsBatcher q now =
     (let initial = ctb_GetNextCompleteTime (bq_CombinedTopicsBatcher q);
          (b, ready_batches, final) =
            (case initial of
               None \<Rightarrow> (bq_CombinedTopicsBatcher q, [], None)
             | Some x \<Rightarrow>
                 if x \<le> now then
                   let (b, bs) = ctb_TakeBatch (bq_CombinedTopicsBatcher q) in (b, bs, None)
                 else (bq_CombinedTopicsBatcher q, [], initial));
          (q', ready') = enter_send_wait_lists ready_batches (q\<lparr>bq_CombinedTopicsBatcher := b\<rparr>)
      in (q', ready', \<lparr>OptInitialExpiry = initial, OptFinalExpiry = final\<rparr>))"

definition CheckBothBatchers ::
  "TBrokerMsgQueue \<Rightarrow> int \<Rightarrow> TBrokerMsgQueue \<times> TExpiryStatus \<times> TExpiryStatus" where
  "CheckBothBatchers q now =
     (let (q1, per_topic_batches, per_topic_status) = CheckPerTopicBatcher q now;
          (q2, combined_topics_batches, combined_topics_status) = CheckCombinedTopicsBatcher q1 now;
          q3 = (case (OptInitialExpiry per_topic_status, OptInitialExpiry combined_topics_status) of
                  (Some x, Some y) \<Rightarrow>
                    if x < y
                    then splice_ready combined_topics_batches (splice_ready per_topic_batches q2)
                    else splice_ready per_topic_batches (splice_ready combined_topics_batches q2)
                | _ \<Rightarrow> splice_ready combined_topics_batches (splice_ready per_topic_batches q2))
      in (q3, per_topic_status, combined_topics_status))"

definition bq_GetAllMsgs :: "TBrokerMsgQueue \<Rightarrow> TBrokerMsgQueue \<times> TMsg list list" where
  "bq_GetAllMsgs q =
     (let per_topic_expiry = ptb_GetNextCompleteTime (bq_PerTopicBatcher q);
          combined_topics_expiry = ctb_GetNextCompleteTime (bq_CombinedTopicsBatcher q);
          (b, per_topic) = ptb_GetAllBatches (bq_PerTopicBatcher q);
          (c, combined_topics) = ctb_TakeBatch (bq_CombinedTopicsBatcher q);
          (q1, per_topic') =
            enter_send_wait_lists per_topic (q\<lparr>bq_PerTopicBatcher := b, bq_CombinedTopicsBatcher := c\<rparr>);
          (q2, combined_topics') = enter_send_wait_lists combined_topics q1;
          q3 = (case (per_topic_expiry, combined_topics_expiry) of
                  (Some x, Some y) \<Rightarrow>
                    if y < x then splice_ready per_topic' (splice_ready combined_topics' q2)
                    else splice_ready combined_topics' (splice_ready per_topic' q2)
                | _ \<Rightarrow> splice_ready combined_topics' (splice_ready per_topic' q2))
      in (q3\<lparr>bq_ReadyList := []\<rparr>, bq_ReadyList q3))"

definition expiry_earlier :: "int option \<Rightarrow> int option \<Rightarrow> bool" where
  "expiry_earlier initial final =
     (case (initial, final) of
        (_, None) \<Rightarrow> False
      | (None, Some _) \<Rightarrow> True
      | (Some x, Some y) \<Rightarrow> y < x)"

definition notify_sender :: "bool \<Rightarrow> TBrokerMsgQueue \<Rightarrow> TBrokerMsgQueue" where
  "notify_sender notify q =
     (if notify then Push (bq_count ''BrokerMsgQueueNotify'' q)
      else bq_count ''BrokerMsgQueueSkipNotify'' q)"

text \<open>\<open>Put\<close>: first the part under the mutex, then the notification.\<close>

definition bq_Put_locked ::
  "TBrokerMsgQueue \<Rightarrow> int \<Rightarrow> TMsg \<Rightarrow> TBrokerMsgQueue \<times> TExpiryStatus \<times> TExpiryStatus" where
  "bq_Put_locked q now msg =
     (let (q1, left1, per_topic_status) = TryBatchPerTopic q now msg
      in case left1 of
           None \<Rightarrow>
             let nct = ctb_GetNextCompleteTime (bq_CombinedTopicsBatcher q1)
             in (bq_count ''PerTopicBatchPartitionKey'' q1, per_topic_status,
                 \<lparr>OptInitialExpiry = nct, OptFinalExpiry = nct\<rparr>)
         | Some m1 \<Rightarrow>
             let routing_type = GetRoutingType m1;
                 (qc, left2, combined_topics_status) = TryBatchCombinedTopics q1 now m1
             in case left2 of
                  Some m2 \<Rightarrow>
                    let (tr, m3) = MsgEnterSendWait (bq_MsgStateTracker qc) m2;
                        qr = splice_ready [[m3]] (qc\<lparr>bq_MsgStateTracker := tr\<rparr>)
                    in (bq_count (if routing_type = PartitionKey then ''NoBatchPartitionKey''
                                  else ''NoBatchAnyPartition'') qr,
                        per_topic_status, combined_topics_status)
                | None \<Rightarrow>
                    (bq_count (if routing_type = PartitionKey then ''CombinedTopicsBatchPartitionKey''
                               else ''CombinedTopicsBatchAnyPartition'') qc,
                     per_topic_status, combined_topics_status))"

definition bq_Put :: "TBrokerMsgQueue \<Rightarrow> int \<Rightarrow> TMsg \<Rightarrow> TBrokerMsgQueue" where
  "bq_Put q now msg =
     (let ready_list_empty_initial = (bq_ReadyList q = []);
          (q1, per_topic_status, combined_topics_status) = bq_Put_locked q now msg;
          ready_list_empty_final = (bq_ReadyList q1 = []);
          notify =
            (ready_list_empty_initial \<and> \<not> ready_list_empty_final \<or>
             expiry_earlier
               (min_opt_ts (OptInitialExpiry per_topic_status) (OptInitialExpiry combined_topics_status))
               (min_opt_ts (OptFinalExpiry per_topic_status) (OptFinalExpiry combined_topics_status)))
      in notify_sender notify q1)"

definition bq_PutNow :: "TBrokerMsgQueue \<Rightarrow> int \<Rightarrow> TMsg \<Rightarrow> TBrokerMsgQueue" where
  "bq_PutNow q now msg =
     (let (tr, msg') = MsgEnterSendWait (bq_MsgStateTracker q) msg;
          was_empty = (bq_ReadyList q = []);
          (q1, per_topic_status, combined_topics_status) =
            CheckBothBatchers (q\<lparr>bq_MsgStateTracker := tr\<rparr>) now
      in notify_sender was_empty (splice_ready [[msg']] q1))"

definition bq_PutNow_lists :: "TBrokerMsgQueue \<Rightarrow> int \<Rightarrow> TMsg list list \<Rightarrow> TBrokerMsgQueue" where
  "bq_PutNow_lists q now batch =
     (if batch = [] then q
      else
        let (q0, batch') = enter_send_wait_lists batch q;
            was_empty = (bq_ReadyList q0 = []);
            (q1, per_topic_status, combined_topics_status) = CheckBothBatchers q0 now
        in notify_sender was_empty (splice_ready batch' q1))"

text \<open>The result is the next batch completion time (\<open>Some\<close> when the code returns true) and
  the messages that are ready.\<close>

definition bq_NonblockingGet ::
  "TBrokerMsgQueue \<Rightarrow> int \<Rightarrow> TBrokerMsgQueue \<times> int option \<times> TMsg list list" where
  "bq_NonblockingGet q now =
     (let (q1, per_topic_status, combined_topics_status) = CheckBothBatchers q now
      in (q1\<lparr>bq_ReadyList := []\<rparr>,
          min_opt_ts (OptFinalExpiry per_topic_status) (OptFinalExpiry combined_topics_status),
          bq_ReadyList q1))"

text \<open>\<open>Get\<close> pops the semaphore first, which blocks when the count is zero: \<open>None\<close>.\<close>

definition bq_Get ::
  "TBrokerMsgQueue \<Rightarrow> int \<Rightarrow> (TBrokerMsgQueue \<times> int option \<times> TMsg list list) option" where
  "bq_Get q now =
     (if bq_SenderNotify q = 0 then None
      else Some (bq_NonblockingGet (q\<lparr>bq_SenderNotify := bq_SenderNotify q - 1\<rparr>) now))"

definition bq_GetAllOnShutdown :: "TBrokerMsgQueue \<Rightarrow> TBrokerMsgQueue \<times> TMsg list list" where
  "bq_GetAllOnShutdown q = bq_GetAllMsgs q"

definition bq_Reset :: "TBrokerMsgQueue \<Rightarrow> TBrokerMsgQueue \<times> TMsg list list" where
  "bq_Reset q = bq_GetAllMsgs (q\<lparr>bq_SenderNotify := 0\<rparr>)"

section \<open>Invariant\<close>

text \<open>Per-topic batching takes \<open>PartitionKey\<close> messages of the topics for which it is enabled;
  combined topics batching takes the others.  So for a topic and a routing type, at most one
  of the two batchers holds messages.\<close>

definition pt_enabled :: "TPerTopicBatcher \<Rightarrow> string \<Rightarrow> bool" where
  "pt_enabled b t \<longleftrightarrow>
     (case ptb_Config b of None \<Rightarrow> False | Some cfg \<Rightarrow> cfg_BatchingIsEnabled (ptc_Get cfg t))"

definition ptb_ok :: "TPerTopicBatcher \<Rightarrow> bool" where
  "ptb_ok b \<longleftrightarrow> ptb_inv b \<and>
     (case ptb_Config b of None \<Rightarrow> ptb_BatchMap b = [] | Some cfg \<Rightarrow> ptb_cfg_ok cfg b) \<and>
     (\<forall>m \<in># ptb_msgs b. GetRoutingType m = PartitionKey \<and> GetState m = Batching)"

definition ctb_ok :: "TPerTopicBatcher \<Rightarrow> TCombinedTopicsBatcher \<Rightarrow> bool" where
  "ctb_ok b c \<longleftrightarrow> ctb_inv c \<and>
     (\<forall>m \<in># ctb_msgs c. GetState m = Batching \<and>
        (GetRoutingType m = PartitionKey \<longrightarrow> \<not> pt_enabled b (GetTopic m)))"

definition ready_ok :: "TMsg list list \<Rightarrow> bool" where
  "ready_ok bs \<longleftrightarrow> (\<forall>b \<in> set bs. batch_ok b \<and> (\<forall>m \<in> set b. GetState m = SendWait))"

definition bq_inv :: "TBrokerMsgQueue \<Rightarrow> bool" where
  "bq_inv q \<longleftrightarrow> ptb_ok (bq_PerTopicBatcher q) \<and>
     ctb_ok (bq_PerTopicBatcher q) (bq_CombinedTopicsBatcher q) \<and> ready_ok (bq_ReadyList q)"

definition bq_msgs :: "TBrokerMsgQueue \<Rightarrow> TMsg multiset" where
  "bq_msgs q = mset (concat (bq_ReadyList q)) + ptb_msgs (bq_PerTopicBatcher q) +
     ctb_msgs (bq_CombinedTopicsBatcher q)"

text \<open>The messages of one topic and routing type, in the order in which they will leave the
  queue, without their state.\<close>

definition of_rt :: "TRoutingType \<Rightarrow> TMsg list \<Rightarrow> TMsg list" where
  "of_rt rt ms = filter (\<lambda>m. GetRoutingType m = rt) ms"

definition key_seq :: "string \<Rightarrow> TRoutingType \<Rightarrow> TMsg list \<Rightarrow> TMsg list" where
  "key_seq t rt ms = map (SetState New) (of_rt rt (of_topic t ms))"

definition bq_seq :: "TBrokerMsgQueue \<Rightarrow> string \<Rightarrow> TRoutingType \<Rightarrow> TMsg list" where
  "bq_seq q t rt = key_seq t rt (concat (bq_ReadyList q)) @
     key_seq t rt (ptb_held (bq_PerTopicBatcher q) t) @
     key_seq t rt (ctb_held (bq_CombinedTopicsBatcher q) t)"

text \<open>The soonest completion time over both batchers.\<close>

definition bq_next_expiry :: "TBrokerMsgQueue \<Rightarrow> int option" where
  "bq_next_expiry q =
     min_opt_ts (ptb_GetNextCompleteTime (bq_PerTopicBatcher q))
       (ctb_GetNextCompleteTime (bq_CombinedTopicsBatcher q))"

lemma of_rt_simps [simp]:
  "of_rt rt [] = []" "of_rt rt (m # ms) = (if GetRoutingType m = rt then m # of_rt rt ms else of_rt rt ms)"
  "of_rt rt (xs @ ys) = of_rt rt xs @ of_rt rt ys"
  by (simp_all add: of_rt_def)

lemma key_seq_simps [simp]:
  "key_seq t rt [] = []" "key_seq t rt (xs @ ys) = key_seq t rt xs @ key_seq t rt ys"
  by (simp_all add: key_seq_def)

lemma key_seq_Cons:
  "key_seq t rt (m # ms) =
     (if GetTopic m = t \<and> GetRoutingType m = rt then [SetState New m] else []) @ key_seq t rt ms"
  by (simp add: key_seq_def)

lemma key_seq_SetState [simp]: "key_seq t rt (map (SetState st) ms) = key_seq t rt ms"
  by (induction ms) (auto simp: key_seq_Cons)

lemma concat_map_map: "concat (map (map f) xss) = map f (concat xss)"
  by (induction xss) auto

lemma key_seq_of_topic [simp]: "key_seq t rt (of_topic t ms) = key_seq t rt ms"
  by (simp add: key_seq_def of_topic_def)

lemma key_seq_empty_iff:
  "key_seq t rt ms = [] \<longleftrightarrow> (\<forall>m \<in> set ms. \<not> (GetTopic m = t \<and> GetRoutingType m = rt))"
  by (auto simp: key_seq_def of_rt_def of_topic_def filter_empty_conv)

lemma ptb_ok_disabled:
  assumes "ptb_ok b" and "\<not> pt_enabled b t" shows "ptb_held b t = []"
proof (cases "ptb_Config b")
  case None
  with assms show ?thesis by (simp add: ptb_ok_def ptb_held_def)
next
  case (Some cfg)
  with assms have "ptb_inv b" "ptb_cfg_ok cfg b" "\<not> cfg_BatchingIsEnabled (ptc_Get cfg t)"
    by (simp_all add: ptb_ok_def pt_enabled_def)
  then show ?thesis by (rule ptb_cfg_ok_disabled)
qed

lemma ptb_ok_held:
  assumes "ptb_ok b" and "m \<in> set (ptb_held b t)"
  shows "GetTopic m = t" and "GetRoutingType m = PartitionKey" and "GetState m = Batching"
proof -
  have i: "ptb_inv b" using assms(1) by (simp add: ptb_ok_def)
  show t: "GetTopic m = t" using i assms(2) by (rule per_topic.held_topic)
  with assms(2) per_topic.held_iff [OF i, of m] have "m \<in># ptb_msgs b" by simp
  then show "GetRoutingType m = PartitionKey" and "GetState m = Batching"
    using assms(1) by (simp_all add: ptb_ok_def)
qed

lemma ctb_ok_held:
  assumes "ctb_ok b c" and "m \<in> set (ctb_held c t)"
  shows "GetTopic m = t" and "GetState m = Batching"
    and "GetRoutingType m = PartitionKey \<Longrightarrow> \<not> pt_enabled b t"
proof -
  have i: "ctb_inv c" using assms(1) by (simp add: ctb_ok_def)
  show t: "GetTopic m = t" using i assms(2) by (rule combined.held_topic)
  with assms(2) combined.held_iff [OF i, of m] have "m \<in># ctb_msgs c" by simp
  then show "GetState m = Batching" and "GetRoutingType m = PartitionKey \<Longrightarrow> \<not> pt_enabled b t"
    using assms(1) t by (auto simp: ctb_ok_def)
qed

text \<open>At most one batcher holds messages of a topic and routing type.\<close>

lemma exclusive:
  assumes "ptb_ok b" and "ctb_ok b c"
  shows "key_seq t rt (ptb_held b t) = [] \<or> key_seq t rt (ctb_held c t) = []"
proof (cases "pt_enabled b t \<and> rt = PartitionKey")
  case True
  then have "key_seq t rt (ctb_held c t) = []"
    unfolding key_seq_empty_iff using ctb_ok_held(3) [OF assms(2)] by blast
  then show ?thesis ..
next
  case False
  then have "key_seq t rt (ptb_held b t) = []"
    unfolding key_seq_empty_iff using ptb_ok_held(2) [OF assms(1)] ptb_ok_disabled [OF assms(1), of t]
    by (metis empty_iff list.set(1))
  then show ?thesis ..
qed

subsection \<open>Moving batches to the ready list\<close>

lemma enter_send_wait_lists_eq:
  "enter_send_wait_lists bs q =
     (q\<lparr>bq_MsgStateTracker := fst (MsgEnterSendWait_lists (bq_MsgStateTracker q) bs)\<rparr>,
      map (map (SetState SendWait)) bs)"
  by (simp add: enter_send_wait_lists_def case_prod_unfold)

lemma tracks_to_ready:
  assumes "tracks tr (M + mset (concat bs))" and "\<forall>b \<in> set bs. batch_ok b"
    and "\<forall>m \<in> set (concat bs). GetState m \<noteq> Processed"
  shows "tracks (fst (MsgEnterSendWait_lists tr bs)) (M + mset (concat (map (map (SetState SendWait)) bs)))"
  using tracks_MsgEnterSendWait_lists [OF assms(1) _ assms(3)] assms(2)
  by (simp add: batch_ok_def concat_map_map)

lemma ready_ok_append:
  "ready_ok r \<Longrightarrow> \<forall>b \<in> set bs. batch_ok b \<Longrightarrow> ready_ok (r @ map (map (SetState SendWait)) bs)"
  by (auto simp: ready_ok_def)

lemma splice_ready_simps [simp]:
  "bq_ReadyList (splice_ready bs q) = bq_ReadyList q @ bs"
  "bq_PerTopicBatcher (splice_ready bs q) = bq_PerTopicBatcher q"
  "bq_CombinedTopicsBatcher (splice_ready bs q) = bq_CombinedTopicsBatcher q"
  "bq_MsgStateTracker (splice_ready bs q) = bq_MsgStateTracker q"
  "bq_SenderNotify (splice_ready bs q) = bq_SenderNotify q"
  by (simp_all add: splice_ready_def)

lemma bq_count_simps [simp]:
  "bq_ReadyList (bq_count n q) = bq_ReadyList q"
  "bq_PerTopicBatcher (bq_count n q) = bq_PerTopicBatcher q"
  "bq_CombinedTopicsBatcher (bq_count n q) = bq_CombinedTopicsBatcher q"
  "bq_MsgStateTracker (bq_count n q) = bq_MsgStateTracker q"
  "bq_SenderNotify (bq_count n q) = bq_SenderNotify q"
  by (simp_all add: bq_count_def)

lemma Push_simps [simp]:
  "bq_ReadyList (Push q) = bq_ReadyList q" "bq_PerTopicBatcher (Push q) = bq_PerTopicBatcher q"
  "bq_CombinedTopicsBatcher (Push q) = bq_CombinedTopicsBatcher q"
  "bq_MsgStateTracker (Push q) = bq_MsgStateTracker q"
  "bq_SenderNotify (Push q) = bq_SenderNotify q + 1"
  by (simp_all add: Push_def)

subsection \<open>The batchers inside the queue\<close>

lemma msetD: "mset xs + A + B = C \<Longrightarrow> x \<in> set xs \<Longrightarrow> x \<in># C"
  "mset xs + A + B = C \<Longrightarrow> x \<in># A \<Longrightarrow> x \<in># C"
  "mset xs + A = C \<Longrightarrow> x \<in> set xs \<Longrightarrow> x \<in># C"
  "mset xs + A = C \<Longrightarrow> x \<in># A \<Longrightarrow> x \<in># C"
  by auto

lemma ptb_ok_add:
  assumes ok: "ptb_ok b" and cfg: "ptb_Config b = Some cfg" and eq: "ptb_AddMsg cfg b m now = (b', bs, r)"
    and m: "GetRoutingType m = PartitionKey" "GetState m = Batching"
  shows "ptb_ok b'" and "ptb_Config b' = ptb_Config b" and "\<forall>x \<in> set (concat bs). GetState x = Batching"
    and "\<forall>x \<in> set bs. batch_ok x" and "r = (if pt_enabled b (GetTopic m) then None else Some m)"
    and "mset (concat bs) + ptb_msgs b' + mset (opt_list r) = add_mset m (ptb_msgs b)"
proof -
  have i: "ptb_inv b" and c: "ptb_cfg_ok cfg b" using ok cfg by (simp_all add: ptb_ok_def)
  note sp = ptb_AddMsg_spec [OF i eq] and cf = ptb_AddMsg_config [OF c eq]
  show con: "mset (concat bs) + ptb_msgs b' + mset (opt_list r) = add_mset m (ptb_msgs b)"
    by (rule per_topic.add_conserves [OF i TrueI eq])
  have all: "\<forall>x \<in># add_mset m (ptb_msgs b). GetRoutingType x = PartitionKey \<and> GetState x = Batching"
    using ok m by (simp add: ptb_ok_def)
  show "ptb_Config b' = ptb_Config b" by (rule sp(7))
  moreover have "\<forall>x \<in># ptb_msgs b'. GetRoutingType x = PartitionKey \<and> GetState x = Batching"
    using all msetD(2) [OF con] by blast
  ultimately show "ptb_ok b'" using sp(1) cf(1) cfg by (simp add: ptb_ok_def)
  show "\<forall>x \<in> set (concat bs). GetState x = Batching" using all msetD(1) [OF con] by blast
  show "\<forall>x \<in> set bs. batch_ok x" using sp(5) by blast
  show "r = (if pt_enabled b (GetTopic m) then None else Some m)"
    using cf(2) cfg by (simp add: pt_enabled_def)
qed

lemma pt_enabled_cong: "ptb_Config b' = ptb_Config b \<Longrightarrow> pt_enabled b' t = pt_enabled b t"
  by (simp add: pt_enabled_def)

lemma ctb_ok_cong: "ptb_Config b' = ptb_Config b \<Longrightarrow> ctb_ok b' c = ctb_ok b c"
  by (simp add: ctb_ok_def pt_enabled_def)

lemma ctb_ok_add:
  assumes ok: "ctb_ok b c" and eq: "ctb_AddMsg c m now = (c', bs, r)"
    and m: "GetRoutingType m = PartitionKey \<Longrightarrow> \<not> pt_enabled b (GetTopic m)" "GetState m = Batching"
  shows "ctb_ok b c'" and "\<forall>x \<in> set (concat bs). GetState x = Batching" and "\<forall>x \<in> set bs. batch_ok x"
    and "r = None \<or> r = Some m"
    and "mset (concat bs) + ctb_msgs c' + mset (opt_list r) = add_mset m (ctb_msgs c)"
proof -
  have i: "ctb_inv c" using ok by (simp add: ctb_ok_def)
  note sp = ctb_AddMsg_spec [OF i eq]
  show con: "mset (concat bs) + ctb_msgs c' + mset (opt_list r) = add_mset m (ctb_msgs c)"
    by (rule combined.add_conserves [OF i TrueI eq])
  have all: "\<forall>x \<in># add_mset m (ctb_msgs c). GetState x = Batching \<and>
      (GetRoutingType x = PartitionKey \<longrightarrow> \<not> pt_enabled b (GetTopic x))"
    using ok m by (simp add: ctb_ok_def)
  show "ctb_ok b c'" unfolding ctb_ok_def using sp(1) all msetD(2) [OF con] by blast
  show "\<forall>x \<in> set (concat bs). GetState x = Batching" using all msetD(1) [OF con] by blast
  show "\<forall>x \<in> set bs. batch_ok x" using sp(5) by blast
  show "r = None \<or> r = Some m" by (rule sp(3))
qed

lemma ptb_ok_out:
  assumes ok: "ptb_ok b" and eq: "ptb_out f b = (b', bs)" and f: "\<And>t. f \<noteq> FlushTopic t"
  shows "ptb_ok b'" and "ptb_Config b' = ptb_Config b" and "\<forall>x \<in> set (concat bs). GetState x = Batching"
    and "\<forall>x \<in> set bs. batch_ok x" and "mset (concat bs) + ptb_msgs b' = ptb_msgs b"
proof -
  have i: "ptb_inv b" using ok by (simp add: ptb_ok_def)
  note sp = ptb_out_spec [OF i eq]
  show con: "mset (concat bs) + ptb_msgs b' = ptb_msgs b"
    by (rule per_topic.out_conserves [OF i eq])
  have all: "\<forall>x \<in># ptb_msgs b. GetRoutingType x = PartitionKey \<and> GetState x = Batching"
    using ok by (simp add: ptb_ok_def)
  show cf: "ptb_Config b' = ptb_Config b"
    using eq f GetCompleteBatches_spec(2) [OF i] ptb_GetAllBatches_Config
    by (cases f) (auto simp: ptb_out_def)
  have "ptb_cfg_ok cfg b'" if "ptb_cfg_ok cfg b" for cfg
    using that eq f ptb_flush_config(1,2) [OF that] by (cases f) (auto simp: ptb_out_def)
  moreover have "ptb_BatchMap b = [] \<Longrightarrow> ptb_BatchMap b' = []"
  proof -
    assume e: "ptb_BatchMap b = []"
    have "ptb_ExpiryTracker b = []"
    proof (rule ccontr)
      assume "ptb_ExpiryTracker b \<noteq> []"
      then obtain n r where "(n, r) \<in> set (ptb_ExpiryTracker b)" by (metis list.set_sel(1) surj_pair)
      from record_entry [OF i this] e show False by simp
    qed
    with e eq f show ?thesis
      by (cases f) (auto simp: ptb_out_def ptb_GetCompleteBatches_def ptb_GetAllBatches_def)
  qed
  moreover have "\<forall>x \<in># ptb_msgs b'. GetRoutingType x = PartitionKey \<and> GetState x = Batching"
    using all msetD(4) [OF con] by blast
  ultimately show "ptb_ok b'"
    using sp(1) ok cf by (auto simp: ptb_ok_def split: option.splits)
  show "\<forall>x \<in> set (concat bs). GetState x = Batching" using all msetD(3) [OF con] by blast
  show "\<forall>x \<in> set bs. batch_ok x" using sp(2) by blast
qed

lemma ctb_ok_take:
  assumes ok: "ctb_ok b c" and eq: "ctb_TakeBatch c = (c', bs)"
  shows "ctb_ok b c'" and "\<forall>x \<in> set (concat bs). GetState x = Batching" and "\<forall>x \<in> set bs. batch_ok x"
    and "mset (concat bs) + ctb_msgs c' = ctb_msgs c"
proof -
  have i: "ctb_inv c" using ok by (simp add: ctb_ok_def)
  have eq': "ctb_out () c = (c', bs)" using eq by (simp add: ctb_out_def)
  show con: "mset (concat bs) + ctb_msgs c' = ctb_msgs c"
    by (rule combined.out_conserves [OF i eq'])
  have all: "\<forall>x \<in># ctb_msgs c. GetState x = Batching \<and>
      (GetRoutingType x = PartitionKey \<longrightarrow> \<not> pt_enabled b (GetTopic x))"
    using ok by (simp add: ctb_ok_def)
  show "ctb_ok b c'" unfolding ctb_ok_def
    using ctb_TakeBatch_spec(1) [OF i eq] all msetD(4) [OF con] by blast
  show "\<forall>x \<in> set (concat bs). GetState x = Batching" using all msetD(3) [OF con] by blast
  show "\<forall>x \<in> set bs. batch_ok x" using ctb_TakeBatch_spec(4) [OF i eq] by blast
qed

section \<open>Each operation on the state\<close>

lemma key_law:
  "of_topic t (concat bs) @ P' @ of_topic t l = P @ of_topic t n \<Longrightarrow>
   key_seq t rt (concat bs) @ key_seq t rt P' @ key_seq t rt l = key_seq t rt P @ key_seq t rt n"
  by (drule arg_cong [of _ _ "key_seq t rt"]) simp

lemma bq_invD:
  assumes "bq_inv q"
  shows "ptb_ok (bq_PerTopicBatcher q)" and "ctb_ok (bq_PerTopicBatcher q) (bq_CombinedTopicsBatcher q)"
    and "ready_ok (bq_ReadyList q)" and "ptb_inv (bq_PerTopicBatcher q)"
    and "ctb_inv (bq_CombinedTopicsBatcher q)"
  using assms by (auto simp: bq_inv_def ptb_ok_def ctb_ok_def)

text \<open>Messages of a topic and routing type are never behind others of their kind in the
  other batcher.\<close>

lemma not_behind_combined:
  assumes "ctb_ok b c" and "GetRoutingType m = PartitionKey" and "pt_enabled b (GetTopic m)"
  shows "key_seq t rt (ctb_held c t) = [] \<or> key_seq t rt [m] = []"
proof (cases "t = GetTopic m \<and> rt = PartitionKey")
  case True
  then have "key_seq t rt (ctb_held c t) = []"
    unfolding key_seq_empty_iff using ctb_ok_held(3) [OF assms(1)] assms(3) by simp blast
  then show ?thesis ..
qed (use assms(2) in \<open>auto simp: key_seq_Cons\<close>)

lemma not_behind_per_topic:
  assumes "ptb_ok b" and "GetRoutingType m = PartitionKey \<longrightarrow> \<not> pt_enabled b (GetTopic m)"
  shows "key_seq t rt (ptb_held b t) = [] \<or> key_seq t rt [m] = []"
proof (cases "t = GetTopic m \<and> rt = GetRoutingType m")
  case True
  have "\<not> (GetTopic x = t \<and> GetRoutingType x = rt)" if "x \<in> set (ptb_held b t)" for x
    using that ptb_ok_held(2) [OF assms(1) that] ptb_ok_disabled [OF assms(1), of t] assms(2) True by auto
  then show ?thesis by (simp add: key_seq_empty_iff)
qed (auto simp: key_seq_Cons)

text \<open>One step of the queue that takes the messages \<open>inc\<close> and leaves \<open>left\<close> with the caller: the
  invariant and the configuration are kept, per topic and routing type the order is kept and
  nothing is lost or duplicated, and the message state tracker stays exact, whatever other
  messages \<open>M\<close> it tracks.\<close>

definition queue_step :: "TBrokerMsgQueue \<Rightarrow> TMsg list \<Rightarrow> TBrokerMsgQueue \<Rightarrow> TMsg list \<Rightarrow> bool" where
  "queue_step q inc q' left \<longleftrightarrow>
     bq_inv q' \<and> ptb_Config (bq_PerTopicBatcher q') = ptb_Config (bq_PerTopicBatcher q) \<and>
     (\<forall>t rt. bq_seq q' t rt @ key_seq t rt left = bq_seq q t rt @ key_seq t rt inc) \<and>
     (\<forall>M. tracks (bq_MsgStateTracker q) (mset inc + (M + bq_msgs q)) \<longrightarrow>
          tracks (bq_MsgStateTracker q') (mset left + (M + bq_msgs q')))"

lemma queue_step_trans:
  "queue_step q inc q1 mid \<Longrightarrow> queue_step q1 mid q2 left \<Longrightarrow> queue_step q inc q2 left"
  by (simp add: queue_step_def)

lemma queue_step_tracks:
  "queue_step q inc q' left \<Longrightarrow> tracks (bq_MsgStateTracker q) (mset inc + (M + bq_msgs q)) \<Longrightarrow>
   tracks (bq_MsgStateTracker q') (mset left + (M + bq_msgs q'))"
  by (simp add: queue_step_def)

lemma queue_step_refl: "bq_inv q \<Longrightarrow> queue_step q ms q ms"
  by (simp add: queue_step_def)

lemma queue_step_same:
  assumes "queue_step q inc q1 left" and "bq_PerTopicBatcher q2 = bq_PerTopicBatcher q1"
    and "bq_CombinedTopicsBatcher q2 = bq_CombinedTopicsBatcher q1" and "bq_ReadyList q2 = bq_ReadyList q1"
    and "bq_MsgStateTracker q2 = bq_MsgStateTracker q1"
  shows "queue_step q inc q2 left"
  using assms by (simp add: queue_step_def bq_inv_def bq_seq_def bq_msgs_def)

text \<open>A step from its parts: the per-topic batcher or the combined topics batcher hands out
  \<open>bs\<close>, which go to the ready list.\<close>

lemma queue_stepI_tracks:
  assumes inv: "bq_inv q"
    and b: "ptb_ok (bq_PerTopicBatcher q')"
      "ptb_Config (bq_PerTopicBatcher q') = ptb_Config (bq_PerTopicBatcher q)"
    and c: "ctb_ok (bq_PerTopicBatcher q) (bq_CombinedTopicsBatcher q')"
    and r: "bq_ReadyList q' = bq_ReadyList q @ map (map (SetState SendWait)) bs" "\<forall>x \<in> set bs. batch_ok x"
    and law: "\<And>t rt. key_seq t rt (concat bs) @ key_seq t rt (ptb_held (bq_PerTopicBatcher q') t) @
        key_seq t rt (ctb_held (bq_CombinedTopicsBatcher q') t) @ key_seq t rt left =
        key_seq t rt (ptb_held (bq_PerTopicBatcher q) t) @
        key_seq t rt (ctb_held (bq_CombinedTopicsBatcher q) t) @ key_seq t rt inc"
    and tr: "\<And>M. tracks (bq_MsgStateTracker q) (mset inc + (M + bq_msgs q)) \<Longrightarrow>
        tracks (bq_MsgStateTracker q') (mset left + (M + bq_msgs q'))"
  shows "queue_step q inc q' left"
  unfolding queue_step_def
proof (intro conjI allI impI)
  show "bq_inv q'"
    using b c ctb_ok_cong [OF b(2)] ready_ok_append [OF bq_invD(3) [OF inv] r(2)]
    by (simp add: bq_inv_def r(1))
  show "ptb_Config (bq_PerTopicBatcher q') = ptb_Config (bq_PerTopicBatcher q)" by (rule b(2))
  show "bq_seq q' t rt @ key_seq t rt left = bq_seq q t rt @ key_seq t rt inc" for t rt
    using law [of t rt] by (simp add: bq_seq_def r(1) concat_map_map)
qed (rule tr)

lemma queue_stepI:
  assumes inv: "bq_inv q"
    and b: "ptb_ok (bq_PerTopicBatcher q')"
      "ptb_Config (bq_PerTopicBatcher q') = ptb_Config (bq_PerTopicBatcher q)"
    and c: "ctb_ok (bq_PerTopicBatcher q) (bq_CombinedTopicsBatcher q')"
    and r: "bq_ReadyList q' = bq_ReadyList q @ map (map (SetState SendWait)) bs" "\<forall>x \<in> set bs. batch_ok x"
      "\<forall>m \<in> set (concat bs). GetState m \<noteq> Processed"
    and law: "\<And>t rt. key_seq t rt (concat bs) @ key_seq t rt (ptb_held (bq_PerTopicBatcher q') t) @
        key_seq t rt (ctb_held (bq_CombinedTopicsBatcher q') t) @ key_seq t rt left =
        key_seq t rt (ptb_held (bq_PerTopicBatcher q) t) @
        key_seq t rt (ctb_held (bq_CombinedTopicsBatcher q) t) @ key_seq t rt inc"
    and tr: "bq_MsgStateTracker q' = fst (MsgEnterSendWait_lists tr1 bs)"
      "\<And>M. tracks (bq_MsgStateTracker q) (mset inc + (M + bq_msgs q)) \<Longrightarrow>
        tracks tr1 (mset left + M + mset (concat (bq_ReadyList q)) + ptb_msgs (bq_PerTopicBatcher q') +
          ctb_msgs (bq_CombinedTopicsBatcher q') + mset (concat bs))"
  shows "queue_step q inc q' left"
proof (rule queue_stepI_tracks [OF inv b c r(1,2) law])
  show "tracks (bq_MsgStateTracker q') (mset left + (M + bq_msgs q'))"
    if "tracks (bq_MsgStateTracker q) (mset inc + (M + bq_msgs q))" for M
    using tracks_to_ready [OF tr(2) [OF that] r(2,3)]
    by (simp add: tr(1) bq_msgs_def r(1) ac_simps)
qed

lemma TryBatchPerTopic_step:
  assumes inv: "bq_inv q" and st: "GetState msg = New" and eq: "TryBatchPerTopic q now msg = (q', left, es)"
  shows "queue_step q [msg] q' (opt_list left)"
proof (cases "GetRoutingType msg = PartitionKey \<and> ptb_Config (bq_PerTopicBatcher q) \<noteq> None")
  case False
  then have "q' = q" "left = Some msg" using eq by (auto simp: TryBatchPerTopic_def Let_def split: option.splits)
  with inv show ?thesis by (simp add: queue_step_refl)
next
  case True
  let ?b = "bq_PerTopicBatcher q" and ?c = "bq_CombinedTopicsBatcher q" and ?m = "SetState Batching msg"
  note i = bq_invD [OF inv]
  obtain cfg where cfg: "ptb_Config ?b = Some cfg" using True by auto
  obtain b bs l where a: "ptb_AddMsg cfg ?b ?m now = (b, bs, l)" by (metis prod_cases3)
  note ok = ptb_ok_add [OF i(1) cfg a]
  define tr1 where
    "tr1 = (if l = None then fst (MsgEnterBatching (bq_MsgStateTracker q) msg) else bq_MsgStateTracker q)"
  have q': "bq_PerTopicBatcher q' = b" "bq_CombinedTopicsBatcher q' = ?c"
    "bq_ReadyList q' = bq_ReadyList q @ map (map (SetState SendWait)) bs"
    "bq_MsgStateTracker q' = fst (MsgEnterSendWait_lists tr1 bs)"
    and left: "left = (if l = None then None else Some msg)"
    using eq True cfg a
    by (auto simp: TryBatchPerTopic_def MsgEnterBatching_def enter_send_wait_lists_eq tr1_def Let_def)
  have l: "l = (if pt_enabled ?b (GetTopic msg) then None else Some ?m)" using ok(5) True by simp
  show ?thesis
  proof (rule queue_stepI [OF inv, where bs = bs and ?tr1.0 = tr1])
    show "key_seq t rt (concat bs) @ key_seq t rt (ptb_held (bq_PerTopicBatcher q') t) @
        key_seq t rt (ctb_held (bq_CombinedTopicsBatcher q') t) @ key_seq t rt (opt_list left) =
        key_seq t rt (ptb_held ?b t) @ key_seq t rt (ctb_held ?c t) @ key_seq t rt [msg]" for t rt
    proof -
      have k: "key_seq t rt (concat bs) @ key_seq t rt (ptb_held b t) @ key_seq t rt (opt_list l) =
          key_seq t rt (ptb_held ?b t) @ key_seq t rt [msg]"
        using key_law [OF ptb_AddMsg_spec(2) [OF i(4) a, of t], of rt] by (simp add: key_seq_Cons)
      show ?thesis
      proof (cases "pt_enabled ?b (GetTopic msg)")
        case en: True
        with not_behind_combined [OF i(2), of msg t rt] True k l show ?thesis
          by (auto simp: q' left)
      next
        case False
        then have "key_seq t rt (opt_list l) = key_seq t rt [msg]" using l by (simp add: key_seq_Cons)
        with k l False show ?thesis by (simp add: q' left)
      qed
    qed
    show "tracks tr1 (mset (opt_list left) + M + mset (concat (bq_ReadyList q)) +
        ptb_msgs (bq_PerTopicBatcher q') + ctb_msgs (bq_CombinedTopicsBatcher q') + mset (concat bs))"
      if "tracks (bq_MsgStateTracker q) (mset [msg] + (M + bq_msgs q))" for M
    proof (cases l)
      case None
      let ?R = "M + mset (concat (bq_ReadyList q)) + ctb_msgs ?c"
      have "tracks tr1 (add_mset ?m (?R + ptb_msgs ?b))"
        using tracks_MsgEnterBatching [OF _ st, of _ "?R + ptb_msgs ?b"] that
        by (simp add: tr1_def None bq_msgs_def ac_simps)
      moreover have "add_mset ?m (?R + ptb_msgs ?b) = ?R + (mset (concat bs) + ptb_msgs b)"
        using ok(6) None True by simp
      ultimately have "tracks tr1 (?R + (mset (concat bs) + ptb_msgs b))" by (simp only:)
      then show ?thesis by (simp add: left None q' ac_simps)
    next
      case (Some x)
      then have "ptb_msgs ?b = mset (concat bs) + ptb_msgs b" using ok(6) True l by (auto split: if_splits)
      with that show ?thesis by (simp add: left Some q' tr1_def bq_msgs_def ac_simps)
    qed
  qed (use ok True i(2) in \<open>auto simp: q'\<close>)
qed

lemma TryBatchCombinedTopics_fields:
  assumes eq: "TryBatchCombinedTopics q now msg = (q', left, es)"
    and a: "ctb_AddMsg (bq_CombinedTopicsBatcher q) (SetState Batching msg) now = (c, bs, l)"
  defines "tr1 \<equiv> (if l = None then fst (MsgEnterBatching (bq_MsgStateTracker q) msg) else bq_MsgStateTracker q)"
  shows "bq_PerTopicBatcher q' = bq_PerTopicBatcher q" and "bq_CombinedTopicsBatcher q' = c"
    and "bq_ReadyList q' = bq_ReadyList q @ map (map (SetState SendWait)) bs"
    and "bq_MsgStateTracker q' = fst (MsgEnterSendWait_lists tr1 bs)"
    and "left = (if l = None then None else Some msg)" and "bq_SenderNotify q' = bq_SenderNotify q"
    and "OptInitialExpiry es = ctb_GetNextCompleteTime (bq_CombinedTopicsBatcher q)"
    and "OptFinalExpiry es = ctb_GetNextCompleteTime c"
  using eq a unfolding tr1_def
  by (auto simp: TryBatchCombinedTopics_def MsgEnterBatching_def enter_send_wait_lists_eq Let_def)

lemma TryBatchCombinedTopics_step:
  assumes inv: "bq_inv q" and st: "GetState msg = New"
    and pk: "GetRoutingType msg = PartitionKey \<longrightarrow> \<not> pt_enabled (bq_PerTopicBatcher q) (GetTopic msg)"
    and eq: "TryBatchCombinedTopics q now msg = (q', left, es)"
  shows "queue_step q [msg] q' (opt_list left)" and "left = None \<or> left = Some msg"
    and "left = Some msg \<Longrightarrow> ctb_held (bq_CombinedTopicsBatcher q') (GetTopic msg) = []"
proof -
  let ?b = "bq_PerTopicBatcher q" and ?c = "bq_CombinedTopicsBatcher q" and ?m = "SetState Batching msg"
  note i = bq_invD [OF inv]
  obtain c bs l where a: "ctb_AddMsg ?c ?m now = (c, bs, l)" by (metis prod_cases3)
  note f = TryBatchCombinedTopics_fields [OF eq a]
  have ok: "ctb_ok ?b c" "\<forall>x \<in> set (concat bs). GetState x = Batching" "\<forall>x \<in> set bs. batch_ok x"
    "l = None \<or> l = Some ?m" "mset (concat bs) + ctb_msgs c + mset (opt_list l) = add_mset ?m (ctb_msgs ?c)"
    using ctb_ok_add [OF i(2) a] pk by simp_all
  define tr1 where
    "tr1 = (if l = None then fst (MsgEnterBatching (bq_MsgStateTracker q) msg) else bq_MsgStateTracker q)"
  show "left = None \<or> left = Some msg" by (simp add: f(5))
  show "ctb_held (bq_CombinedTopicsBatcher q') (GetTopic msg) = []" if "left = Some msg"
    using that ok(4) ctb_AddMsg_spec(4) [OF i(5) a] by (auto simp: f(2,5) split: if_splits)
  show "queue_step q [msg] q' (opt_list left)"
  proof (rule queue_stepI [OF inv, where bs = bs and ?tr1.0 = tr1])
    show "key_seq t rt (concat bs) @ key_seq t rt (ptb_held (bq_PerTopicBatcher q') t) @
        key_seq t rt (ctb_held (bq_CombinedTopicsBatcher q') t) @ key_seq t rt (opt_list left) =
        key_seq t rt (ptb_held ?b t) @ key_seq t rt (ctb_held ?c t) @ key_seq t rt [msg]" for t rt
    proof -
      have "key_seq t rt (opt_list left) = key_seq t rt (opt_list l)"
        using ok(4) by (auto simp: f(5) key_seq_Cons)
      then have k: "key_seq t rt (concat bs) @ key_seq t rt (ctb_held c t) @ key_seq t rt (opt_list left) =
          key_seq t rt (ctb_held ?c t) @ key_seq t rt [msg]"
        using key_law [OF ctb_AddMsg_spec(2) [OF i(5) a, of t], of rt] by (simp add: key_seq_Cons)
      show ?thesis
      proof (cases "key_seq t rt (ptb_held ?b t) = []")
        case True
        with k show ?thesis by (simp add: f(1,2))
      next
        case False
        with exclusive [OF i(1,2), of t rt] not_behind_per_topic [OF i(1) pk, of t rt]
        have "key_seq t rt (ctb_held ?c t) = []" "key_seq t rt [msg] = []" by auto
        with k show ?thesis by (simp add: f(1,2))
      qed
    qed
    show "tracks tr1 (mset (opt_list left) + M + mset (concat (bq_ReadyList q)) +
        ptb_msgs (bq_PerTopicBatcher q') + ctb_msgs (bq_CombinedTopicsBatcher q') + mset (concat bs))"
      if "tracks (bq_MsgStateTracker q) (mset [msg] + (M + bq_msgs q))" for M
    proof (cases l)
      case None
      let ?R = "M + mset (concat (bq_ReadyList q)) + ptb_msgs ?b"
      have "tracks tr1 (add_mset ?m (?R + ctb_msgs ?c))"
        using tracks_MsgEnterBatching [OF _ st, of _ "?R + ctb_msgs ?c"] that
        by (simp add: tr1_def None bq_msgs_def ac_simps)
      moreover have "add_mset ?m (?R + ctb_msgs ?c) = ?R + (mset (concat bs) + ctb_msgs c)"
        using ok(5) None by simp
      ultimately have "tracks tr1 (?R + (mset (concat bs) + ctb_msgs c))" by (simp only:)
      then show ?thesis by (simp add: f(1,2,5) None ac_simps)
    next
      case (Some x)
      then have "ctb_msgs ?c = mset (concat bs) + ctb_msgs c" using ok(4,5) by auto
      with that show ?thesis by (simp add: f(1,2,5) Some tr1_def bq_msgs_def ac_simps)
    qed
    show "bq_MsgStateTracker q' = fst (MsgEnterSendWait_lists tr1 bs)" by (simp add: f(4) tr1_def)
  qed (use ok i(1) in \<open>auto simp: f\<close>)
qed

subsection \<open>\<open>Put\<close>\<close>

text \<open>A message that no batcher accepts goes to the end of the ready list.  No message of its
  topic and routing type is still in a batcher, so it overtakes none.\<close>

lemma put_ready_step:
  assumes inv: "bq_inv q" and st: "GetState msg \<noteq> Processed"
    and p: "\<And>t rt. key_seq t rt (ptb_held (bq_PerTopicBatcher q) t) = [] \<or> key_seq t rt [msg] = []"
    and c: "\<And>t rt. key_seq t rt (ctb_held (bq_CombinedTopicsBatcher q) t) = [] \<or> key_seq t rt [msg] = []"
  shows "queue_step q [msg]
    (splice_ready [[SetState SendWait msg]]
      (q\<lparr>bq_MsgStateTracker := fst (MsgEnterSendWait (bq_MsgStateTracker q) msg)\<rparr>)) []"
proof (rule queue_stepI [OF inv, where bs = "[[msg]]" and ?tr1.0 = "bq_MsgStateTracker q"])
  note i = bq_invD [OF inv]
  have "MsgEnterSendWait_lists tr [[msg]] = (fst (MsgEnterSendWait tr msg), [[SetState SendWait msg]])" for tr
    by (simp add: MsgEnterSendWait_list_def MsgEnterSendWait_def)
  then show "bq_MsgStateTracker (splice_ready [[SetState SendWait msg]]
      (q\<lparr>bq_MsgStateTracker := fst (MsgEnterSendWait (bq_MsgStateTracker q) msg)\<rparr>)) =
      fst (MsgEnterSendWait_lists (bq_MsgStateTracker q) [[msg]])" by simp
  show "ptb_ok (bq_PerTopicBatcher (splice_ready [[SetState SendWait msg]]
      (q\<lparr>bq_MsgStateTracker := fst (MsgEnterSendWait (bq_MsgStateTracker q) msg)\<rparr>)))"
    "ctb_ok (bq_PerTopicBatcher q) (bq_CombinedTopicsBatcher (splice_ready [[SetState SendWait msg]]
      (q\<lparr>bq_MsgStateTracker := fst (MsgEnterSendWait (bq_MsgStateTracker q) msg)\<rparr>)))"
    using i by simp_all
  fix t rt
  show "key_seq t rt (concat [[msg]]) @
      key_seq t rt (ptb_held (bq_PerTopicBatcher (splice_ready [[SetState SendWait msg]]
        (q\<lparr>bq_MsgStateTracker := fst (MsgEnterSendWait (bq_MsgStateTracker q) msg)\<rparr>))) t) @
      key_seq t rt (ctb_held (bq_CombinedTopicsBatcher (splice_ready [[SetState SendWait msg]]
        (q\<lparr>bq_MsgStateTracker := fst (MsgEnterSendWait (bq_MsgStateTracker q) msg)\<rparr>))) t) @ key_seq t rt [] =
      key_seq t rt (ptb_held (bq_PerTopicBatcher q) t) @
      key_seq t rt (ctb_held (bq_CombinedTopicsBatcher q) t) @ key_seq t rt [msg]"
    using p [of t rt] c [of t rt] by auto
qed (use st in \<open>auto simp: bq_msgs_def ac_simps\<close>)

lemma notify_sender_simps [simp]:
  "bq_ReadyList (notify_sender n q) = bq_ReadyList q"
  "bq_PerTopicBatcher (notify_sender n q) = bq_PerTopicBatcher q"
  "bq_CombinedTopicsBatcher (notify_sender n q) = bq_CombinedTopicsBatcher q"
  "bq_MsgStateTracker (notify_sender n q) = bq_MsgStateTracker q"
  "bq_SenderNotify (notify_sender n q) = bq_SenderNotify q + of_bool n"
  by (simp_all add: notify_sender_def)

lemma TryBatchPerTopic_fields:
  assumes inv: "bq_inv q" and eq: "TryBatchPerTopic q now msg = (q', left, es)"
  shows "bq_CombinedTopicsBatcher q' = bq_CombinedTopicsBatcher q"
    and "bq_SenderNotify q' = bq_SenderNotify q" and "left = None \<or> left = Some msg"
    and "left = Some msg \<Longrightarrow> GetRoutingType msg = PartitionKey \<Longrightarrow>
           \<not> pt_enabled (bq_PerTopicBatcher q) (GetTopic msg)"
    and "OptInitialExpiry es = ptb_GetNextCompleteTime (bq_PerTopicBatcher q)"
    and "OptFinalExpiry es = ptb_GetNextCompleteTime (bq_PerTopicBatcher q')"
proof -
  let ?b = "bq_PerTopicBatcher q"
  note i = bq_invD [OF inv]
  have none: "ptb_GetNextCompleteTime ?b = None" if "ptb_Config ?b = None"
    using that i(1) GetNextCompleteTime_spec(2) [OF i(4)]
    by (cases "ptb_GetNextCompleteTime ?b") (auto simp: ptb_ok_def ptb_nct_def)
  have "bq_CombinedTopicsBatcher q' = bq_CombinedTopicsBatcher q \<and> bq_SenderNotify q' = bq_SenderNotify q \<and>
    (left = None \<or> left = Some msg) \<and>
    (left = Some msg \<longrightarrow> GetRoutingType msg = PartitionKey \<longrightarrow> \<not> pt_enabled ?b (GetTopic msg)) \<and>
    OptInitialExpiry es = ptb_GetNextCompleteTime ?b \<and>
    OptFinalExpiry es = ptb_GetNextCompleteTime (bq_PerTopicBatcher q')"
  proof (cases "ptb_Config ?b")
    case None
    with eq none show ?thesis
      by (auto simp: TryBatchPerTopic_def TExpiryStatus_Clear_def pt_enabled_def)
  next
    case (Some cfg)
    obtain b bs l where a: "ptb_AddMsg cfg ?b (SetState Batching msg) now = (b, bs, l)"
      by (metis prod_cases3)
    have "GetRoutingType msg = PartitionKey \<Longrightarrow> l = (if pt_enabled ?b (GetTopic msg) then None else Some (SetState Batching msg))"
      using ptb_ok_add(5) [OF i(1) Some a] by simp
    with eq Some a show ?thesis
      by (auto simp: TryBatchPerTopic_def MsgEnterBatching_def enter_send_wait_lists_eq Let_def
          split: if_splits)
  qed
  then show "bq_CombinedTopicsBatcher q' = bq_CombinedTopicsBatcher q"
    and "bq_SenderNotify q' = bq_SenderNotify q" and "left = None \<or> left = Some msg"
    and "left = Some msg \<Longrightarrow> GetRoutingType msg = PartitionKey \<Longrightarrow> \<not> pt_enabled ?b (GetTopic msg)"
    and "OptInitialExpiry es = ptb_GetNextCompleteTime ?b"
    and "OptFinalExpiry es = ptb_GetNextCompleteTime (bq_PerTopicBatcher q')" by blast+
qed

text \<open>The part of \<open>Put\<close> under the mutex: one step that takes the message, and the expiry
  statuses are those of the two states.\<close>

lemma bq_Put_locked_spec:
  assumes inv: "bq_inv q" and st: "GetState msg = New" and eq: "bq_Put_locked q now msg = (q', es1, es2)"
  shows "queue_step q [msg] q' []" and "bq_SenderNotify q' = bq_SenderNotify q"
    and "min_opt_ts (OptInitialExpiry es1) (OptInitialExpiry es2) = bq_next_expiry q"
    and "min_opt_ts (OptFinalExpiry es1) (OptFinalExpiry es2) = bq_next_expiry q'"
proof -
  obtain q1 left1 s1 where t1: "TryBatchPerTopic q now msg = (q1, left1, s1)" by (metis prod_cases3)
  note step1 = TryBatchPerTopic_step [OF inv st t1] and f1 = TryBatchPerTopic_fields [OF inv t1]
  have inv1: "bq_inv q1" and cfg1: "ptb_Config (bq_PerTopicBatcher q1) = ptb_Config (bq_PerTopicBatcher q)"
    using step1 by (simp_all add: queue_step_def)
  have "queue_step q [msg] q' [] \<and> bq_SenderNotify q' = bq_SenderNotify q \<and>
    min_opt_ts (OptInitialExpiry es1) (OptInitialExpiry es2) = bq_next_expiry q \<and>
    min_opt_ts (OptFinalExpiry es1) (OptFinalExpiry es2) = bq_next_expiry q'"
  proof (cases left1)
    case None
    then have q': "q' = bq_count ''PerTopicBatchPartitionKey'' q1" and es: "es1 = s1"
      "OptInitialExpiry es2 = ctb_GetNextCompleteTime (bq_CombinedTopicsBatcher q1)"
      "OptFinalExpiry es2 = ctb_GetNextCompleteTime (bq_CombinedTopicsBatcher q1)"
      using eq t1 by (auto simp: bq_Put_locked_def Let_def)
    from step1 None have "queue_step q [msg] q1 []" by simp
    then have "queue_step q [msg] q' []" by (rule queue_step_same) (simp_all add: q')
    then show ?thesis using f1 by (simp add: q' es bq_next_expiry_def)
  next
    case (Some m)
    then have m: "left1 = Some msg" using f1(3) by simp
    obtain qc left2 s2 where t2: "TryBatchCombinedTopics q1 now msg = (qc, left2, s2)" by (metis prod_cases3)
    have pk: "GetRoutingType msg = PartitionKey \<longrightarrow> \<not> pt_enabled (bq_PerTopicBatcher q1) (GetTopic msg)"
      using f1(4) [OF m] pt_enabled_cong [OF cfg1] by simp
    note step2 = TryBatchCombinedTopics_step [OF inv1 st pk t2]
    obtain c bs l where "ctb_AddMsg (bq_CombinedTopicsBatcher q1) (SetState Batching msg) now = (c, bs, l)"
      by (metis prod_cases3)
    note f2 = TryBatchCombinedTopics_fields [OF t2 this]
    define qr where "qr = (case left2 of None \<Rightarrow> qc
      | Some m2 \<Rightarrow> splice_ready [[SetState SendWait m2]]
          (qc\<lparr>bq_MsgStateTracker := fst (MsgEnterSendWait (bq_MsgStateTracker qc) m2)\<rparr>))"
    have q': "\<exists>n. q' = bq_count n qr" and es: "es1 = s1" "es2 = s2"
      using eq t1 t2 m
      by (cases left2; auto simp: bq_Put_locked_def MsgEnterSendWait_def qr_def Let_def)+
    have "queue_step q1 [msg] qr []"
    proof (cases left2)
      case None
      with step2(1) show ?thesis by (simp add: qr_def)
    next
      case (Some m2)
      then have m2: "left2 = Some msg" using step2(2) by simp
      have invc: "bq_inv qc" and s: "queue_step q1 [msg] qc [msg]"
        using step2(1) m2 by (simp_all add: queue_step_def)
      have "key_seq t rt (ptb_held (bq_PerTopicBatcher qc) t) = [] \<or> key_seq t rt [msg] = []" for t rt
        using not_behind_per_topic [OF bq_invD(1) [OF inv1] pk] f2(1) by simp
      moreover have "key_seq t rt (ctb_held (bq_CombinedTopicsBatcher qc) t) = [] \<or> key_seq t rt [msg] = []" for t rt
        using step2(3) [OF m2] by (cases "GetTopic msg = t") (auto simp: key_seq_Cons)
      ultimately have "queue_step qc [msg] qr []"
        using put_ready_step [OF invc, of msg] st m2 by (simp add: qr_def)
      with s show ?thesis by (rule queue_step_trans)
    qed
    then have "queue_step q [msg] qr []" using step1 m queue_step_trans by simp
    then have "queue_step q [msg] q' []" using q' by (auto intro: queue_step_same)
    moreover have "bq_PerTopicBatcher q' = bq_PerTopicBatcher q1" "bq_CombinedTopicsBatcher q' = c"
      "bq_SenderNotify q' = bq_SenderNotify q1"
      using q' f2 by (auto simp: qr_def split: option.splits)
    ultimately show ?thesis using f1 f2(7,8) by (simp add: es bq_next_expiry_def)
  qed
  then show "queue_step q [msg] q' []" and "bq_SenderNotify q' = bq_SenderNotify q"
    and "min_opt_ts (OptInitialExpiry es1) (OptInitialExpiry es2) = bq_next_expiry q"
    and "min_opt_ts (OptFinalExpiry es1) (OptFinalExpiry es2) = bq_next_expiry q'" by blast+
qed

subsection \<open>The batchers' time limits\<close>

text \<open>\<open>CheckPerTopicBatcher\<close> skips the batcher when nothing is due; calling it would have had no
  effect.\<close>

definition ctb_flush_due ::
  "TCombinedTopicsBatcher \<Rightarrow> int \<Rightarrow> TCombinedTopicsBatcher \<times> TMsg list list" where
  "ctb_flush_due c now =
     (case ctb_GetNextCompleteTime c of
        None \<Rightarrow> (c, []) | Some x \<Rightarrow> if x \<le> now then ctb_TakeBatch c else (c, []))"

lemma CheckPerTopicBatcher_eq:
  assumes "ptb_GetCompleteBatches (bq_PerTopicBatcher q) now = (b, bs)"
  shows "CheckPerTopicBatcher q now =
    (q\<lparr>bq_PerTopicBatcher := b,
        bq_MsgStateTracker := fst (MsgEnterSendWait_lists (bq_MsgStateTracker q) bs)\<rparr>,
     map (map (SetState SendWait)) bs,
     \<lparr>OptInitialExpiry = ptb_GetNextCompleteTime (bq_PerTopicBatcher q),
      OptFinalExpiry = ptb_GetNextCompleteTime b\<rparr>)"
proof (cases "ptb_ExpiryTracker (bq_PerTopicBatcher q)")
  case Nil
  with assms show ?thesis
    by (simp add: CheckPerTopicBatcher_def ptb_GetNextCompleteTime_def ptb_GetCompleteBatches_def
        enter_send_wait_lists_eq)
next
  case (Cons p rest)
  obtain n r where p: "p = (n, r)" by fastforce
  show ?thesis
  proof (cases "exp_Expiry r \<le> now")
    case True
    with assms Cons p show ?thesis
      by (simp add: CheckPerTopicBatcher_def ptb_GetNextCompleteTime_def enter_send_wait_lists_eq)
  next
    case False
    with assms Cons p show ?thesis
      by (auto simp: CheckPerTopicBatcher_def ptb_GetNextCompleteTime_def ptb_GetCompleteBatches_def
          enter_send_wait_lists_eq Let_def)
  qed
qed

lemma CheckCombinedTopicsBatcher_eq:
  assumes "ctb_flush_due (bq_CombinedTopicsBatcher q) now = (c, bs)"
  shows "CheckCombinedTopicsBatcher q now =
    (q\<lparr>bq_CombinedTopicsBatcher := c,
        bq_MsgStateTracker := fst (MsgEnterSendWait_lists (bq_MsgStateTracker q) bs)\<rparr>,
     map (map (SetState SendWait)) bs,
     \<lparr>OptInitialExpiry = ctb_GetNextCompleteTime (bq_CombinedTopicsBatcher q),
      OptFinalExpiry = ctb_GetNextCompleteTime c\<rparr>)"
  using assms
  by (auto simp: CheckCombinedTopicsBatcher_def ctb_flush_due_def enter_send_wait_lists_eq Let_def
      ctb_TakeBatch_def ctb_GetNextCompleteTime_def split: option.splits if_splits prod.splits)

lemma ctb_flush_due_spec:
  assumes ok: "ctb_ok b c" and eq: "ctb_flush_due c now = (c', bs)"
  shows "ctb_ok b c'" and "\<forall>x \<in> set (concat bs). GetState x = Batching" and "\<forall>x \<in> set bs. batch_ok x"
    and "ctb_msgs c = mset (concat bs) + ctb_msgs c'"
    and "of_topic t (concat bs) @ ctb_held c' t = ctb_held c t"
    and "ctb_GetNextCompleteTime c' = Some x \<Longrightarrow> now < x \<and> ctb_GetNextCompleteTime c = Some x"
proof -
  have i: "ctb_inv c" using ok by (simp add: ctb_ok_def)
  obtain c1 bs1 where tk: "ctb_TakeBatch c = (c1, bs1)" by fastforce
  note t = ctb_ok_take [OF ok tk] and sp = ctb_TakeBatch_spec [OF i tk]
  have "(c', bs) = (c1, bs1) \<or> (c', bs) = (c, []) \<and> (\<forall>x. ctb_GetNextCompleteTime c = Some x \<longrightarrow> now < x)"
    using eq tk by (auto simp: ctb_flush_due_def split: option.splits if_splits)
  then show "ctb_ok b c'" "\<forall>x \<in> set (concat bs). GetState x = Batching" "\<forall>x \<in> set bs. batch_ok x"
    "ctb_msgs c = mset (concat bs) + ctb_msgs c'" "of_topic t (concat bs) @ ctb_held c' t = ctb_held c t"
    "ctb_GetNextCompleteTime c' = Some x \<Longrightarrow> now < x \<and> ctb_GetNextCompleteTime c = Some x"
    using t sp ok by auto
qed

text \<open>Two groups of batches, one from each batcher, go to the ready list in either order.\<close>

lemma flush_both_step:
  assumes inv: "bq_inv q"
    and b: "ptb_ok b" "ptb_Config b = ptb_Config (bq_PerTopicBatcher q)" "\<forall>x \<in> set bs1. batch_ok x"
      "\<forall>x \<in> set (concat bs1). GetState x = Batching"
      "ptb_msgs (bq_PerTopicBatcher q) = mset (concat bs1) + ptb_msgs b"
      "\<And>t. of_topic t (concat bs1) @ ptb_held b t = ptb_held (bq_PerTopicBatcher q) t"
    and c: "ctb_ok (bq_PerTopicBatcher q) c" "\<forall>x \<in> set bs2. batch_ok x"
      "\<forall>x \<in> set (concat bs2). GetState x = Batching"
      "ctb_msgs (bq_CombinedTopicsBatcher q) = mset (concat bs2) + ctb_msgs c"
      "\<And>t. of_topic t (concat bs2) @ ctb_held c t = ctb_held (bq_CombinedTopicsBatcher q) t"
    and q': "bq_PerTopicBatcher q' = b" "bq_CombinedTopicsBatcher q' = c"
      "bq_MsgStateTracker q' =
         fst (MsgEnterSendWait_lists (fst (MsgEnterSendWait_lists (bq_MsgStateTracker q) bs1)) bs2)"
      "bq_ReadyList q' = bq_ReadyList q @ map (map (SetState SendWait)) bs"
    and bs: "bs = bs1 @ bs2 \<or> bs = bs2 @ bs1"
  shows "queue_step q [] q' []"
proof (rule queue_stepI_tracks [OF inv, where bs = bs])
  note i = bq_invD [OF inv]
  show "key_seq t rt (concat bs) @ key_seq t rt (ptb_held (bq_PerTopicBatcher q') t) @
      key_seq t rt (ctb_held (bq_CombinedTopicsBatcher q') t) @ key_seq t rt [] =
      key_seq t rt (ptb_held (bq_PerTopicBatcher q) t) @
      key_seq t rt (ctb_held (bq_CombinedTopicsBatcher q) t) @ key_seq t rt []" for t rt
  proof -
    have "key_seq t rt (concat bs1) @ key_seq t rt (ptb_held b t) = key_seq t rt (ptb_held (bq_PerTopicBatcher q) t)"
      "key_seq t rt (concat bs2) @ key_seq t rt (ctb_held c t) = key_seq t rt (ctb_held (bq_CombinedTopicsBatcher q) t)"
      using arg_cong [OF b(6) [of t], of "key_seq t rt"] arg_cong [OF c(5) [of t], of "key_seq t rt"]
      by simp_all
    with exclusive [OF i(1,2), of t rt] bs show ?thesis by (auto simp: q')
  qed
  show "tracks (bq_MsgStateTracker q') (mset [] + (M + bq_msgs q'))"
    if "tracks (bq_MsgStateTracker q) (mset [] + (M + bq_msgs q))" for M
  proof -
    let ?R = "M + mset (concat (bq_ReadyList q)) + ptb_msgs b + ctb_msgs c"
    let ?sw = "\<lambda>bs. mset (concat (map (map (SetState SendWait)) bs))"
    have "tracks (bq_MsgStateTracker q) (?R + mset (concat bs2) + mset (concat bs1))"
      using that b(5) c(4) by (simp add: bq_msgs_def ac_simps)
    from tracks_to_ready [OF this b(3)] b(4)
    have "tracks (fst (MsgEnterSendWait_lists (bq_MsgStateTracker q) bs1)) (?R + ?sw bs1 + mset (concat bs2))"
      by (simp add: ac_simps)
    from tracks_to_ready [OF this c(2)] c(3)
    have "tracks (bq_MsgStateTracker q') (?R + ?sw bs1 + ?sw bs2)" by (simp add: q')
    then show ?thesis using bs by (auto simp: bq_msgs_def q' ac_simps)
  qed
qed (use b c bs in \<open>auto simp: q'\<close>)

lemma min_opt_ts_Some:
  "min_opt_ts a b = Some x \<Longrightarrow> a = Some x \<or> b = Some x"
  "min_opt_ts a b = Some x \<Longrightarrow> a = Some y \<Longrightarrow> x \<le> y"
  "min_opt_ts a b = Some x \<Longrightarrow> b = Some y \<Longrightarrow> x \<le> y"
  "a = Some y \<or> b = Some y \<Longrightarrow> \<exists>x. min_opt_ts a b = Some x \<and> x \<le> y"
  by (cases a; cases b; auto simp: min_opt_ts_def min_def split: if_splits)+

lemma CheckBothBatchers_spec:
  assumes inv: "bq_inv q" and eq: "CheckBothBatchers q now = (q', es1, es2)"
  shows "queue_step q [] q' []" and "bq_SenderNotify q' = bq_SenderNotify q"
    and "min_opt_ts (OptFinalExpiry es1) (OptFinalExpiry es2) = bq_next_expiry q'"
    and "bq_next_expiry q' = Some x \<Longrightarrow> now < x"
    and "bq_next_expiry q' = Some x \<Longrightarrow> \<exists>y. bq_next_expiry q = Some y \<and> y \<le> x"
proof -
  let ?b = "bq_PerTopicBatcher q" and ?c = "bq_CombinedTopicsBatcher q"
  note i = bq_invD [OF inv]
  obtain b bs1 where g: "ptb_GetCompleteBatches ?b now = (b, bs1)" by fastforce
  obtain c bs2 where f: "ctb_flush_due ?c now = (c, bs2)" by fastforce
  have out: "ptb_out (FlushComplete now) ?b = (b, bs1)" using g by (simp add: ptb_out_def)
  note p = ptb_ok_out [OF i(1) out] and gs = GetCompleteBatches_spec [OF i(4) g]
  note d = ctb_flush_due_spec [OF i(2) f]
  define q2 where "q2 = q\<lparr>bq_PerTopicBatcher := b, bq_CombinedTopicsBatcher := c, bq_MsgStateTracker :=
    fst (MsgEnterSendWait_lists (fst (MsgEnterSendWait_lists (bq_MsgStateTracker q) bs1)) bs2)\<rparr>"
  let ?sw = "map (map (SetState SendWait))"
  have fc: "ctb_flush_due (bq_CombinedTopicsBatcher (q\<lparr>bq_PerTopicBatcher := b,
      bq_MsgStateTracker := fst (MsgEnterSendWait_lists (bq_MsgStateTracker q) bs1)\<rparr>)) now = (c, bs2)"
    using f by simp
  have "\<exists>bs. (bs = bs1 @ bs2 \<or> bs = bs2 @ bs1) \<and> q' = splice_ready (?sw bs) q2"
    and es: "OptFinalExpiry es1 = ptb_GetNextCompleteTime b" "OptFinalExpiry es2 = ctb_GetNextCompleteTime c"
    using eq unfolding CheckBothBatchers_def CheckPerTopicBatcher_eq [OF g] prod.case Let_def
      CheckCombinedTopicsBatcher_eq [OF fc]
    by (auto simp: q2_def splice_ready_def split: option.splits if_splits)
  then obtain bs where bs: "bs = bs1 @ bs2 \<or> bs = bs2 @ bs1" and q': "q' = splice_ready (?sw bs) q2" by blast
  show "queue_step q [] q' []"
  proof (rule flush_both_step [OF inv p(1,2,4,3) _ _ d(1,3,2,4) _ _ _ _ _ bs])
    show "of_topic t (concat bs1) @ ptb_held b t = ptb_held ?b t" for t using gs(4,5) [of t] by simp
    show "of_topic t (concat bs2) @ ctb_held c t = ctb_held ?c t" for t by (rule d(5))
  qed (use p(5) in \<open>simp_all add: q' q2_def\<close>)
  show "bq_SenderNotify q' = bq_SenderNotify q" by (simp add: q' q2_def)
  have next': "bq_next_expiry q' = min_opt_ts (ptb_GetNextCompleteTime b) (ctb_GetNextCompleteTime c)"
    by (simp add: bq_next_expiry_def q' q2_def)
  then show "min_opt_ts (OptFinalExpiry es1) (OptFinalExpiry es2) = bq_next_expiry q'" by (simp add: es)
  have pt: "now < y \<and> (\<exists>t. ptb_nct ?b t = Some y)" if nct: "ptb_GetNextCompleteTime b = Some y" for y
  proof -
    from GetNextCompleteTime_spec(2) [OF gs(1) nct] obtain t where "ptb_nct b t = Some y" by blast
    with gs(6) [of t] show ?thesis by (auto simp: batch_due_def split: if_splits option.splits)
  qed
  assume x: "bq_next_expiry q' = Some x"
  then have or: "ptb_GetNextCompleteTime b = Some x \<or> ctb_GetNextCompleteTime c = Some x"
    using min_opt_ts_Some(1) unfolding next' by blast
  then show "now < x" using pt d(6) by blast
  show "\<exists>y. bq_next_expiry q = Some y \<and> y \<le> x"
  proof (cases "ptb_GetNextCompleteTime b = Some x")
    case True
    then obtain t where t: "ptb_nct ?b t = Some x" using pt by blast
    then obtain z where "ptb_GetNextCompleteTime ?b = Some z" "z \<le> x"
      using GetNextCompleteTime_spec(1,3) [OF i(4)] by (cases "ptb_GetNextCompleteTime ?b") force+
    with min_opt_ts_Some(4) [of "ptb_GetNextCompleteTime ?b" z "ctb_GetNextCompleteTime ?c"] show ?thesis
      by (auto simp: bq_next_expiry_def intro: order_trans)
  next
    case False
    with or d(6) have "ctb_GetNextCompleteTime ?c = Some x" by blast
    with min_opt_ts_Some(4) [of "ptb_GetNextCompleteTime ?b" x "ctb_GetNextCompleteTime ?c"] show ?thesis
      by (simp add: bq_next_expiry_def)
  qed
qed

subsection \<open>Bypassing the batchers\<close>

text \<open>Appending batches to the ready list behind what the time limits have released.  The
  order is kept for every topic and routing type of which the batches have no message.\<close>

lemma splice_batches:
  assumes inv: "bq_inv q" and ok: "\<forall>b \<in> set bs. batch_ok b"
  defines "q' \<equiv> splice_ready (map (map (SetState SendWait)) bs) q"
  shows "bq_inv q'" and "bq_msgs q' = mset (map (SetState SendWait) (concat bs)) + bq_msgs q"
    and "key_seq t rt (concat bs) = [] \<Longrightarrow> bq_seq q' t rt = bq_seq q t rt"
    and "mset (bq_seq q' t rt) = mset (bq_seq q t rt) + mset (key_seq t rt (concat bs))"
proof -
  show "bq_inv q'"
    using inv ready_ok_append [OF _ ok] by (simp add: bq_inv_def q'_def)
  show "bq_msgs q' = mset (map (SetState SendWait) (concat bs)) + bq_msgs q"
    by (simp add: bq_msgs_def q'_def concat_map_map)
  show "key_seq t rt (concat bs) = [] \<Longrightarrow> bq_seq q' t rt = bq_seq q t rt"
    by (simp add: bq_seq_def q'_def concat_map_map)
  show "mset (bq_seq q' t rt) = mset (bq_seq q t rt) + mset (key_seq t rt (concat bs))"
    by (simp add: bq_seq_def q'_def concat_map_map)
qed

lemma bq_PutNow_eq:
  assumes "GetState msg \<noteq> Processed"
  shows "bq_PutNow q now msg = bq_PutNow_lists q now [[msg]]"
  by (simp add: bq_PutNow_def bq_PutNow_lists_def enter_send_wait_lists_eq MsgEnterSendWait_def
      MsgEnterSendWait_list_def)

lemma bq_PutNow_lists_spec:
  fixes now :: int
  assumes inv: "bq_inv q" and ne: "bs \<noteq> []" and ok: "\<forall>b \<in> set bs. batch_ok b"
    and st: "\<forall>m \<in> set (concat bs). GetState m \<noteq> Processed"
  defines "q' \<equiv> bq_PutNow_lists q now bs"
  shows "bq_inv q'" and "ptb_Config (bq_PerTopicBatcher q') = ptb_Config (bq_PerTopicBatcher q)"
    and "key_seq t rt (concat bs) = [] \<Longrightarrow> bq_seq q' t rt = bq_seq q t rt"
    and "tracks (bq_MsgStateTracker q) (mset (concat bs) + (M + bq_msgs q)) \<Longrightarrow>
          tracks (bq_MsgStateTracker q') (M + bq_msgs q')"
    and "bq_SenderNotify q' = bq_SenderNotify q + of_bool (bq_ReadyList q = [])"
    and "bq_ReadyList q' \<noteq> []"
    and "bq_next_expiry q' = Some x \<Longrightarrow> \<exists>y. bq_next_expiry q = Some y \<and> y \<le> x"
    and "mset (bq_seq q' t rt) = mset (bq_seq q t rt) + mset (key_seq t rt (concat bs))"
proof -
  define q0 where
    "q0 = q\<lparr>bq_MsgStateTracker := fst (MsgEnterSendWait_lists (bq_MsgStateTracker q) bs)\<rparr>"
  obtain q1 es1 es2 where c: "CheckBothBatchers q0 now = (q1, es1, es2)" by (metis prod_cases3)
  have q': "q' = notify_sender (bq_ReadyList q = []) (splice_ready (map (map (SetState SendWait)) bs) q1)"
    using ne c by (simp add: q'_def bq_PutNow_lists_def enter_send_wait_lists_eq q0_def)
  have inv0: "bq_inv q0" using inv by (simp add: bq_inv_def q0_def)
  note sp = CheckBothBatchers_spec [OF inv0 c]
  have inv1: "bq_inv q1" and cfg: "ptb_Config (bq_PerTopicBatcher q1) = ptb_Config (bq_PerTopicBatcher q0)"
    and seq: "\<And>t rt. bq_seq q1 t rt = bq_seq q0 t rt"
    and trk: "\<And>M. tracks (bq_MsgStateTracker q0) (M + bq_msgs q0) \<Longrightarrow> tracks (bq_MsgStateTracker q1) (M + bq_msgs q1)"
    using sp(1) by (auto simp: queue_step_def)
  note spl = splice_batches [OF inv1 ok]
  show "bq_inv q'" using spl(1) by (simp add: q' bq_inv_def)
  show "ptb_Config (bq_PerTopicBatcher q') = ptb_Config (bq_PerTopicBatcher q)" using cfg by (simp add: q' q0_def)
  show "bq_seq q' t rt = bq_seq q t rt" if "key_seq t rt (concat bs) = []"
    using spl(3) [OF that] seq [of t rt] by (simp add: q' q0_def bq_seq_def)
  show "tracks (bq_MsgStateTracker q') (M + bq_msgs q')"
    if "tracks (bq_MsgStateTracker q) (mset (concat bs) + (M + bq_msgs q))"
  proof -
    have "tracks (bq_MsgStateTracker q0) (M + mset (map (SetState SendWait) (concat bs)) + bq_msgs q0)"
      using tracks_to_ready [of _ "M + bq_msgs q" bs] that ok st
      by (simp add: q0_def concat_map_map bq_msgs_def ac_simps)
    from trk [OF this] show ?thesis using spl(2) by (simp add: q' bq_msgs_def ac_simps)
  qed
  show "bq_SenderNotify q' = bq_SenderNotify q + of_bool (bq_ReadyList q = [])"
    using sp(2) by (simp add: q' q0_def)
  show "bq_ReadyList q' \<noteq> []" using ne by (simp add: q')
  show "\<exists>y. bq_next_expiry q = Some y \<and> y \<le> x" if "bq_next_expiry q' = Some x"
    using sp(5) [of x] that by (simp add: q' q0_def bq_next_expiry_def)
  show "mset (bq_seq q' t rt) = mset (bq_seq q t rt) + mset (key_seq t rt (concat bs))"
  proof -
    have "bq_seq q1 t rt = bq_seq q t rt" using seq [of t rt] by (simp add: q0_def bq_seq_def)
    moreover have "bq_seq q' t rt = bq_seq (splice_ready (map (map (SetState SendWait)) bs) q1) t rt"
      by (simp add: q' bq_seq_def)
    ultimately show ?thesis using spl(4) [of t rt] by simp
  qed
qed

subsection \<open>Taking messages out\<close>

lemma take_ready:
  assumes "bq_inv q"
  shows "bq_inv (q\<lparr>bq_ReadyList := []\<rparr>)"
    and "key_seq t rt (concat (bq_ReadyList q)) @ bq_seq (q\<lparr>bq_ReadyList := []\<rparr>) t rt = bq_seq q t rt"
    and "mset (concat (bq_ReadyList q)) + bq_msgs (q\<lparr>bq_ReadyList := []\<rparr>) = bq_msgs q"
  using assms by (simp_all add: bq_inv_def ready_ok_def bq_seq_def bq_msgs_def)

lemma bq_NonblockingGet_spec:
  assumes inv: "bq_inv q" and eq: "bq_NonblockingGet q now = (q', deadline, out)"
  shows "bq_inv q'" and "ptb_Config (bq_PerTopicBatcher q') = ptb_Config (bq_PerTopicBatcher q)"
    and "key_seq t rt (concat out) @ bq_seq q' t rt = bq_seq q t rt" and "ready_ok out"
    and "tracks (bq_MsgStateTracker q) (M + bq_msgs q) \<Longrightarrow>
          tracks (bq_MsgStateTracker q') (mset (concat out) + (M + bq_msgs q'))"
    and "bq_SenderNotify q' = bq_SenderNotify q" and "bq_ReadyList q' = []"
    and "deadline = bq_next_expiry q'" and "deadline = Some x \<Longrightarrow> now < x"
proof -
  obtain q1 es1 es2 where c: "CheckBothBatchers q now = (q1, es1, es2)" by (metis prod_cases3)
  note sp = CheckBothBatchers_spec [OF inv c]
  have q': "q' = q1\<lparr>bq_ReadyList := []\<rparr>" and out: "out = bq_ReadyList q1"
    and dl: "deadline = min_opt_ts (OptFinalExpiry es1) (OptFinalExpiry es2)"
    using eq c by (auto simp: bq_NonblockingGet_def)
  have inv1: "bq_inv q1" and seq: "\<And>t rt. bq_seq q1 t rt = bq_seq q t rt"
    and trk: "\<And>M. tracks (bq_MsgStateTracker q) (M + bq_msgs q) \<Longrightarrow> tracks (bq_MsgStateTracker q1) (M + bq_msgs q1)"
    and cfg: "ptb_Config (bq_PerTopicBatcher q1) = ptb_Config (bq_PerTopicBatcher q)"
    using sp(1) by (auto simp: queue_step_def)
  note tk = take_ready [OF inv1]
  show "bq_inv q'" using tk(1) by (simp add: q')
  show "ptb_Config (bq_PerTopicBatcher q') = ptb_Config (bq_PerTopicBatcher q)" using cfg by (simp add: q')
  show "key_seq t rt (concat out) @ bq_seq q' t rt = bq_seq q t rt" using tk(2) seq by (simp add: q' out)
  show "ready_ok out" using inv1 by (simp add: bq_inv_def out)
  show "tracks (bq_MsgStateTracker q') (mset (concat out) + (M + bq_msgs q'))"
    if "tracks (bq_MsgStateTracker q) (M + bq_msgs q)"
    using trk [OF that] tk(3) by (simp add: q' out bq_msgs_def ac_simps)
  show "bq_SenderNotify q' = bq_SenderNotify q" "bq_ReadyList q' = []" using sp(2) by (simp_all add: q')
  show n: "deadline = bq_next_expiry q'" using sp(3) by (simp add: dl q' bq_next_expiry_def)
  show "now < x" if "deadline = Some x" using that sp(4) [of x] by (simp add: dl sp(3))
qed

lemma bq_GetAllMsgs_spec:
  assumes inv: "bq_inv q" and eq: "bq_GetAllMsgs q = (q', out)"
  shows "bq_inv q'" and "key_seq t rt (concat out) = bq_seq q t rt" and "bq_msgs q' = {#}" and "ready_ok out"
    and "tracks (bq_MsgStateTracker q) (M + bq_msgs q) \<Longrightarrow>
          tracks (bq_MsgStateTracker q') (M + mset (concat out))"
proof -
  let ?b = "bq_PerTopicBatcher q" and ?c = "bq_CombinedTopicsBatcher q"
  note i = bq_invD [OF inv]
  obtain b bs1 where g: "ptb_GetAllBatches ?b = (b, bs1)" by fastforce
  obtain c bs2 where f: "ctb_TakeBatch ?c = (c, bs2)" by fastforce
  have out1: "ptb_out FlushAll ?b = (b, bs1)" using g by (simp add: ptb_out_def)
  note p = ptb_ok_out [OF i(1) out1] and gs = GetAllBatches_spec [OF i(4) g]
  note d = ctb_ok_take [OF i(2) f] and ds = ctb_TakeBatch_spec [OF i(5) f]
  define q2 where "q2 = q\<lparr>bq_PerTopicBatcher := b, bq_CombinedTopicsBatcher := c, bq_MsgStateTracker :=
    fst (MsgEnterSendWait_lists (fst (MsgEnterSendWait_lists (bq_MsgStateTracker q) bs1)) bs2)\<rparr>"
  let ?sw = "map (map (SetState SendWait))"
  have "\<exists>bs. (bs = bs1 @ bs2 \<or> bs = bs2 @ bs1) \<and> q' = (splice_ready (?sw bs) q2)\<lparr>bq_ReadyList := []\<rparr> \<and>
      out = bq_ReadyList (splice_ready (?sw bs) q2)"
    using eq unfolding bq_GetAllMsgs_def g f prod.case Let_def enter_send_wait_lists_eq
    by (auto simp: q2_def splice_ready_def split: option.splits if_splits)
  then obtain bs where bs: "bs = bs1 @ bs2 \<or> bs = bs2 @ bs1"
    and q': "q' = (splice_ready (?sw bs) q2)\<lparr>bq_ReadyList := []\<rparr>"
    and out: "out = bq_ReadyList (splice_ready (?sw bs) q2)" by blast
  have step: "queue_step q [] (splice_ready (?sw bs) q2) []"
  proof (rule flush_both_step [OF inv p(1,2,4,3) _ _ d(1,3,2) _ _ _ _ _ _ bs])
    show "of_topic t (concat bs1) @ ptb_held b t = ptb_held ?b t" for t using gs(2,3) [of t] by simp
    show "of_topic t (concat bs2) @ ctb_held c t = ctb_held ?c t" for t using ds(2,3) [of t] by simp
  qed (use p(5) d(4) in \<open>simp_all add: q2_def\<close>)
  then have inv3: "bq_inv (splice_ready (?sw bs) q2)" by (simp add: queue_step_def)
  note tk = take_ready [OF inv3, folded q' out]
  have held: "ptb_held b t = []" "ctb_held c t = []" for t using gs(3) ds(3) by auto
  have pm: "ptb_msgs b = {#}"
    by (rule multiset_eq_by_key [of GetTopic]) (simp add: ptb_held_msgs [OF gs(1)] held)
  have cm: "ctb_msgs c = {#}"
    by (rule multiset_eq_by_key [of GetTopic]) (simp add: combined.held_msgs [OF ds(1)] held)
  show "bq_inv q'" by (rule tk(1))
  have "bq_seq (splice_ready (?sw bs) q2) t rt = bq_seq q t rt" using step by (simp add: queue_step_def)
  moreover have "bq_seq q' t rt = []" using held by (simp add: bq_seq_def q' q2_def)
  ultimately show "key_seq t rt (concat out) = bq_seq q t rt" using tk(2) [of t rt] by simp
  show "bq_msgs q' = {#}" by (simp add: bq_msgs_def q' q2_def pm cm)
  then show "tracks (bq_MsgStateTracker q') (M + mset (concat out))"
    if "tracks (bq_MsgStateTracker q) (M + bq_msgs q)"
    using step that tk(3) unfolding queue_step_def by (simp add: q')
  show "ready_ok out" using inv3 by (simp add: bq_inv_def out)
qed

section \<open>Properties of the queue\<close>

lemma bq_inv_ctor: "bq_inv (TBrokerMsgQueue_ctor cfg tr counters)"
proof -
  have "ptb_ok (TPerTopicBatcher_ctor c)" for c
    using ptb_inv_ctor [of c]
    by (cases c) (auto simp: ptb_ok_def TPerTopicBatcher_ctor_def ptb_cfg_ok_def ptb_msgs_def ptb_lists_def)
  moreover have "ctb_ok b (TCombinedTopicsBatcher_ctor c)" for b c
    using ctb_inv_ctor [of c] by (simp add: ctb_ok_def ctb_msgs_def TCombinedTopicsBatcher_ctor_def)
  ultimately show ?thesis by (simp add: bq_inv_def TBrokerMsgQueue_ctor_def ready_ok_def)
qed

lemma bq_Put_spec:
  assumes inv: "bq_inv q" and st: "GetState msg = New"
  shows "queue_step q [msg] (bq_Put q now msg) []"
    and "bq_SenderNotify (bq_Put q now msg) = bq_SenderNotify q +
      of_bool (bq_ReadyList q = [] \<and> bq_ReadyList (bq_Put q now msg) \<noteq> [] \<or>
               expiry_earlier (bq_next_expiry q) (bq_next_expiry (bq_Put q now msg)))"
proof -
  obtain q1 es1 es2 where l: "bq_Put_locked q now msg = (q1, es1, es2)" by (metis prod_cases3)
  note sp = bq_Put_locked_spec [OF inv st l]
  have q': "bq_Put q now msg = notify_sender (bq_ReadyList q = [] \<and> bq_ReadyList q1 \<noteq> [] \<or>
      expiry_earlier (bq_next_expiry q) (bq_next_expiry q1)) q1"
    by (simp add: bq_Put_def l sp(3,4) Let_def)
  show "queue_step q [msg] (bq_Put q now msg) []"
    by (rule queue_step_same [OF sp(1)]) (simp_all add: q')
  show "bq_SenderNotify (bq_Put q now msg) = bq_SenderNotify q +
      of_bool (bq_ReadyList q = [] \<and> bq_ReadyList (bq_Put q now msg) \<noteq> [] \<or>
               expiry_earlier (bq_next_expiry q) (bq_next_expiry (bq_Put q now msg)))"
    by (simp add: q' sp(2) bq_next_expiry_def)
qed

text \<open>Runs of the queue: the router thread puts messages, the connector thread gets batches
  and remembers the completion time \<open>known\<close> that the last call returned.  \<open>ins\<close> are the messages
  put with batching, \<open>byp\<close> those that bypass it, \<open>outs\<close> the batches handed out.\<close>

inductive queue_run ::
  "TBrokerMsgQueue \<Rightarrow> TBrokerMsgQueue \<Rightarrow> TMsg list \<Rightarrow> TMsg list \<Rightarrow> TMsg list list \<Rightarrow> int option \<Rightarrow> bool"
  for q0 :: TBrokerMsgQueue where
  start: "queue_run q0 q0 [] [] [] None"
| put: "queue_run q0 q ins byp outs known \<Longrightarrow> GetState msg = New \<Longrightarrow>
    queue_run q0 (bq_Put q now msg) (ins @ [msg]) byp outs known"
| put_now: "queue_run q0 q ins byp outs known \<Longrightarrow> bs \<noteq> [] \<Longrightarrow> (\<forall>b \<in> set bs. batch_ok b) \<Longrightarrow>
    (\<forall>m \<in> set (concat bs). GetState m \<noteq> Processed) \<Longrightarrow>
    queue_run q0 (bq_PutNow_lists q now bs) ins (byp @ concat bs) outs known"
| get: "queue_run q0 q ins byp outs known \<Longrightarrow> bq_Get q now = Some (q', known', bs) \<Longrightarrow>
    queue_run q0 q' ins byp (outs @ bs) known'"
| nonblocking_get: "queue_run q0 q ins byp outs known \<Longrightarrow> bq_NonblockingGet q now = (q', known', bs) \<Longrightarrow>
    queue_run q0 q' ins byp (outs @ bs) known'"

lemma bq_Get_spec:
  assumes "bq_inv q" and "bq_Get q now = Some (q', deadline, out)"
  shows "bq_inv q'" and "key_seq t rt (concat out) @ bq_seq q' t rt = bq_seq q t rt"
    and "bq_ReadyList q' = []" and "deadline = bq_next_expiry q'"
    and "bq_SenderNotify q' = bq_SenderNotify q - 1" and "0 < bq_SenderNotify q"
proof -
  let ?q = "q\<lparr>bq_SenderNotify := bq_SenderNotify q - 1\<rparr>"
  have g: "bq_NonblockingGet ?q now = (q', deadline, out)" and pos: "0 < bq_SenderNotify q"
    using assms(2) by (auto simp: bq_Get_def split: if_splits)
  have inv: "bq_inv ?q" using assms(1) by (simp add: bq_inv_def)
  note sp = bq_NonblockingGet_spec [OF inv g]
  show "bq_inv q'" "bq_ReadyList q' = []" "deadline = bq_next_expiry q'" "0 < bq_SenderNotify q"
    using sp pos by simp_all
  show "key_seq t rt (concat out) @ bq_seq q' t rt = bq_seq q t rt" using sp(3) [of t rt] by (simp add: bq_seq_def)
  show "bq_SenderNotify q' = bq_SenderNotify q - 1" using sp(6) by simp
qed

lemma queue_run_inv:
  assumes "queue_run q0 q ins byp outs known" and "bq_inv q0"
  shows "bq_inv q"
  using assms
proof (induction rule: queue_run.induct)
  case (put q ins byp outs known msg now)
  then show ?case using bq_Put_spec(1) by (auto simp: queue_step_def)
next
  case (put_now q ins byp outs known bs now)
  then show ?case using bq_PutNow_lists_spec(1) by blast
next
  case (get q ins byp outs known now q' known' bs)
  then show ?case using bq_Get_spec(1) by blast
next
  case (nonblocking_get q ins byp outs known now q' known' bs)
  then show ?case using bq_NonblockingGet_spec(1) by blast
qed

text \<open>A configuration with both kinds of batching, a queue and a run that the witnesses below use:
  two messages of a topic that is batched per topic, and one of another topic.\<close>

definition ex_config :: TGlobalBatchConfig where
  "ex_config =
     \<lparr>GetPerTopicConfig = Some \<lparr>ptc_DefaultTopic = TBatchConfig_ctor,
        ptc_PerTopic = [(''a'', \<lparr>cfg_TimeLimit = 10, cfg_MsgCount = 2, cfg_ByteCount = 0\<rparr>)]\<rparr>,
      GetCombinedTopicsConfig =
        \<lparr>ctc_BatchConfig = \<lparr>cfg_TimeLimit = 5, cfg_MsgCount = 0, cfg_ByteCount = 100\<rparr>,
         ctc_TopicFilter = {''a''}, ctc_ExcludeTopicFilter = True\<rparr>,
      GetProduceRequestDataLimit = 1000, GetMessageMaxBytes = 1000\<rparr>"

definition ex_msg :: "TRoutingType \<Rightarrow> string \<Rightarrow> byte \<Rightarrow> TMsg" where
  "ex_msg rt topic v = TMsg_ctor rt 0 3 0 topic [] [v] False"

definition ex_queue :: TBrokerMsgQueue where
  "ex_queue = TBrokerMsgQueue_ctor ex_config \<lparr>mst_TopicStats = [], mst_NewCount = 3\<rparr> (\<lambda>n. 0)"

definition ex_ins :: "TMsg list" where
  "ex_ins = [ex_msg PartitionKey ''a'' 1, ex_msg AnyPartition ''b'' 2, ex_msg PartitionKey ''a'' 3]"

definition ex_put :: TBrokerMsgQueue where
  "ex_put = bq_Put (bq_Put (bq_Put ex_queue 4 (ex_ins ! 0)) 4 (ex_ins ! 1)) 5 (ex_ins ! 2)"

definition ex_got :: "TBrokerMsgQueue \<times> int option \<times> TMsg list list" where
  "ex_got = bq_NonblockingGet ex_put 20"

lemma ex_inv: "bq_inv ex_queue"
  unfolding ex_queue_def by (rule bq_inv_ctor)

lemma ex_run: "queue_run ex_queue (fst ex_got) ex_ins [] (snd (snd ex_got)) (fst (snd ex_got))"
proof -
  have n: "GetState (ex_ins ! i) = New" if "i < 3" for i
    using that by (auto simp: ex_ins_def ex_msg_def TMsg_ctor_def less_Suc_eq numeral_3_eq_3)
  have "queue_run ex_queue ex_put ((([] @ [ex_ins ! 0]) @ [ex_ins ! 1]) @ [ex_ins ! 2]) [] [] None"
    unfolding ex_put_def by (intro put start n) simp_all
  then have "queue_run ex_queue ex_put ex_ins [] [] None" by (simp add: ex_ins_def)
  from nonblocking_get [OF this, of 20] show ?thesis by (simp add: ex_got_def)
qed

text \<open>C3: Order through the broker queue.  In every run of puts and gets, for every topic and
  routing type of which no message bypasses batching, the messages handed out followed by the
  messages still in the queue are the messages put, in the order in which they were put: none
  is lost, duplicated or overtaken.\<close>

theorem queue_run_fifo:
  assumes "queue_run q0 q ins byp outs known" and "bq_inv q0" and "key_seq t rt byp = []"
  shows "key_seq t rt (concat outs) @ bq_seq q t rt = bq_seq q0 t rt @ key_seq t rt ins"
  using assms
proof (induction rule: queue_run.induct)
  case (put q ins byp outs known msg now)
  then have "bq_seq (bq_Put q now msg) t rt = bq_seq q t rt @ key_seq t rt [msg]"
    using bq_Put_spec(1) [OF queue_run_inv [OF put(1) put(4)] put(2)] by (auto simp: queue_step_def)
  with put show ?case by simp
next
  case (put_now q ins byp outs known bs now)
  then have "bq_seq (bq_PutNow_lists q now bs) t rt = bq_seq q t rt"
    using bq_PutNow_lists_spec(3) [OF queue_run_inv [OF put_now(1) put_now(6)] put_now(2-4)] by simp
  with put_now show ?case by simp
next
  case (get q ins byp outs known now q' known' bs)
  then have "key_seq t rt (concat bs) @ bq_seq q' t rt = bq_seq q t rt"
    using bq_Get_spec(2) [OF queue_run_inv [OF get(1) get(4)] get(2)] by blast
  with get show ?case by simp
next
  case (nonblocking_get q ins byp outs known now q' known' bs)
  then have "key_seq t rt (concat bs) @ bq_seq q' t rt = bq_seq q t rt"
    using bq_NonblockingGet_spec(3) [OF queue_run_inv [OF nonblocking_get(1) nonblocking_get(4)]] by blast
  with nonblocking_get show ?case by simp
qed simp

theorem queue_run_fifo_witness:
  "key_seq ''a'' PartitionKey (concat (snd (snd ex_got))) @ bq_seq (fst ex_got) ''a'' PartitionKey =
     [ex_ins ! 0, ex_ins ! 2]"
proof -
  have "bq_seq ex_queue ''a'' PartitionKey @ key_seq ''a'' PartitionKey ex_ins = [ex_ins ! 0, ex_ins ! 2]"
    by code_simp
  with queue_run_fifo [OF ex_run ex_inv, of "''a''" PartitionKey] show ?thesis by simp
qed

text \<open>The multiset of messages in the queue, without their state, from the per-key sequences.\<close>

abbreviation stateless :: "TMsg multiset \<Rightarrow> TMsg multiset" where
  "stateless M \<equiv> image_mset (SetState New) M"

lemma filter_stateless:
  "filter_mset (\<lambda>m. (GetTopic m, GetRoutingType m) = (t, rt)) (stateless (mset ms)) = mset (key_seq t rt ms)"
  by (induction ms) (auto simp: key_seq_Cons)

lemma filter_stateless_msgs:
  assumes "\<And>t. filter_mset (\<lambda>m. GetTopic m = t) M = mset (h t)"
  shows "filter_mset (\<lambda>m. (GetTopic m, GetRoutingType m) = (t, rt)) (stateless M) = mset (key_seq t rt (h t))"
proof -
  have "filter_mset (\<lambda>m. (GetTopic m, GetRoutingType m) = (t, rt)) (stateless M) =
      stateless (filter_mset (\<lambda>m. GetRoutingType m = rt) (filter_mset (\<lambda>m. GetTopic m = t) M))"
    by (simp add: filter_mset_image_mset filter_filter_mset conj_commute)
  also have "\<dots> = mset (key_seq t rt (h t))"
    using assms [of t] of_topic_all [of "h t" t]
    by (simp add: key_seq_def of_rt_def) (metis (mono_tags, lifting) filter_mset_eq_conv of_topic_all set_mset_mset)
  finally show ?thesis .
qed

lemma bq_seq_msgs:
  assumes "bq_inv q"
  shows "filter_mset (\<lambda>m. (GetTopic m, GetRoutingType m) = (t, rt)) (stateless (bq_msgs q)) = mset (bq_seq q t rt)"
proof -
  note i = bq_invD [OF assms]
  show ?thesis
    using filter_stateless_msgs [OF ptb_held_msgs [OF i(4)], of t rt]
      filter_stateless_msgs [OF combined.held_msgs [OF i(5)], of t rt]
    by (simp only: bq_msgs_def bq_seq_def image_mset_union filter_union_mset mset_append filter_stateless
        add.assoc)
qed

lemma queue_msgsI:
  assumes "bq_inv q" and "bq_inv q'"
    and "\<And>t rt. mset (key_seq t rt out) + mset (bq_seq q' t rt) = mset (bq_seq q t rt) + mset (key_seq t rt inc)"
  shows "stateless (mset out + bq_msgs q') = stateless (bq_msgs q + mset inc)"
proof (rule multiset_eq_by_key [of "\<lambda>m. (GetTopic m, GetRoutingType m)"])
  fix k :: "string \<times> TRoutingType"
  obtain t rt where k: "k = (t, rt)" by fastforce
  show "filter_mset (\<lambda>m. (GetTopic m, GetRoutingType m) = k) (stateless (mset out + bq_msgs q')) =
        filter_mset (\<lambda>m. (GetTopic m, GetRoutingType m) = k) (stateless (bq_msgs q + mset inc))"
    unfolding k image_mset_union filter_union_mset filter_stateless bq_seq_msgs [OF assms(1)]
      bq_seq_msgs [OF assms(2)] by (rule assms(3))
qed

text \<open>C5: Conservation.  In every run, bypassing messages included, the messages handed out
  together with those still in the queue are exactly those put into it (up to their
  state).\<close>

theorem queue_run_conserves:
  assumes "queue_run q0 q ins byp outs known" and "bq_inv q0"
  shows "stateless (mset (concat outs) + bq_msgs q) = stateless (bq_msgs q0 + mset (ins @ byp))"
proof (rule queue_msgsI [OF assms(2) queue_run_inv [OF assms]])
  show "mset (key_seq t rt (concat outs)) + mset (bq_seq q t rt) =
        mset (bq_seq q0 t rt) + mset (key_seq t rt (ins @ byp))" for t rt
    using assms
  proof (induction rule: queue_run.induct)
    case (put q ins byp outs known msg now)
    then have "bq_seq (bq_Put q now msg) t rt = bq_seq q t rt @ key_seq t rt [msg]"
      using bq_Put_spec(1) [OF queue_run_inv [OF put(1) put(4)] put(2)] by (auto simp: queue_step_def)
    moreover have "key_seq t rt ((ins @ [msg]) @ byp) = key_seq t rt ins @ key_seq t rt [msg] @ key_seq t rt byp"
      by (simp only: key_seq_simps append_assoc)
    ultimately show ?case using put.IH [OF put.prems] by (simp only: mset_append key_seq_simps) (simp add: ac_simps)
  next
    case (put_now q ins byp outs known bs now)
    then have "mset (bq_seq (bq_PutNow_lists q now bs) t rt) =
        mset (bq_seq q t rt) + mset (key_seq t rt (concat bs))"
      using bq_PutNow_lists_spec(8) [OF queue_run_inv [OF put_now(1) put_now(6)] put_now(2-4)] by blast
    with put_now show ?case by (simp add: ac_simps)
  next
    case (get q ins byp outs known now q' known' bs)
    then have "key_seq t rt (concat bs) @ bq_seq q' t rt = bq_seq q t rt"
      using bq_Get_spec(2) [OF queue_run_inv [OF get(1) get(4)] get(2)] by blast
    with get show ?case by (simp flip: mset_append)
  next
    case (nonblocking_get q ins byp outs known now q' known' bs)
    then have "key_seq t rt (concat bs) @ bq_seq q' t rt = bq_seq q t rt"
      using bq_NonblockingGet_spec(3) [OF queue_run_inv [OF nonblocking_get(1) nonblocking_get(4)]] by blast
    with nonblocking_get show ?case by (simp flip: mset_append)
  qed simp
qed

theorem queue_run_conserves_witness:
  "stateless (mset (concat (snd (snd ex_got))) + bq_msgs (fst ex_got)) = mset ex_ins"
proof -
  have "stateless (bq_msgs ex_queue + mset (ex_ins @ [])) = mset ex_ins" by code_simp
  with queue_run_conserves [OF ex_run ex_inv] show ?thesis by simp
qed

text \<open>C6: The message state tracker stays exact over every run: if it counts the messages in
  the queue, those that will be put and any others, then it counts those in the queue, those
  handed out and the others afterwards.\<close>

theorem queue_run_tracks:
  assumes "queue_run q0 q ins byp outs known" and "bq_inv q0"
    and "tracks (bq_MsgStateTracker q0) (M + mset (ins @ byp) + bq_msgs q0)"
  shows "tracks (bq_MsgStateTracker q) (M + mset (concat outs) + bq_msgs q)"
  using assms
proof (induction arbitrary: M rule: queue_run.induct)
  case (put q ins byp outs known msg now)
  have "tracks (bq_MsgStateTracker q) (add_mset msg M + mset (concat outs) + bq_msgs q)"
    using put.prems by (intro put.IH) (auto simp: ac_simps)
  then show ?case
    using queue_step_tracks [OF bq_Put_spec(1) [OF queue_run_inv [OF put(1) put(4)] put(2), of now],
        of "M + mset (concat outs)"] by (simp add: add.assoc)
next
  case (put_now q ins byp outs known bs now)
  have "tracks (bq_MsgStateTracker q) (mset (concat bs) + M + mset (concat outs) + bq_msgs q)"
    using put_now.prems by (intro put_now.IH) (auto simp: ac_simps)
  then show ?case
    using bq_PutNow_lists_spec(4) [OF queue_run_inv [OF put_now(1) put_now(6)] put_now(2-4), of "M + mset (concat outs)"]
    by (simp add: add.assoc)
next
  case (get q ins byp outs known now q' known' bs)
  have t: "tracks (bq_MsgStateTracker q) (M + mset (concat outs) + bq_msgs q)"
    using get.prems by (intro get.IH) auto
  let ?q = "q\<lparr>bq_SenderNotify := bq_SenderNotify q - 1\<rparr>"
  have g: "bq_NonblockingGet ?q now = (q', known', bs)" using get(2) by (auto simp: bq_Get_def split: if_splits)
  have "bq_inv ?q" using queue_run_inv [OF get(1) get(4)] by (simp add: bq_inv_def)
  from bq_NonblockingGet_spec(5) [OF this g, of "M + mset (concat outs)"] t show ?case
    by (simp add: bq_msgs_def ac_simps)
next
  case (nonblocking_get q ins byp outs known now q' known' bs)
  have "tracks (bq_MsgStateTracker q) (M + mset (concat outs) + bq_msgs q)"
    using nonblocking_get.prems by (intro nonblocking_get.IH) auto
  with bq_NonblockingGet_spec(5) [OF queue_run_inv [OF nonblocking_get(1) nonblocking_get(4)] nonblocking_get(2),
      of "M + mset (concat outs)"]
  show ?case by (simp add: ac_simps)
qed simp

theorem queue_run_tracks_witness:
  "tracks (bq_MsgStateTracker (fst ex_got)) (mset (concat (snd (snd ex_got))) + bq_msgs (fst ex_got))"
proof -
  have "bq_msgs ex_queue = {#}" by code_simp
  moreover have "tracks \<lparr>mst_TopicStats = [], mst_NewCount = 3\<rparr> (mset ex_ins)"
    by (simp add: tracks_def stat_def TTopicStats_ctor_def ex_ins_def ex_msg_def TMsg_ctor_def)
  ultimately have "tracks (bq_MsgStateTracker ex_queue) ({#} + mset (ex_ins @ []) + bq_msgs ex_queue)"
    by (simp add: ex_queue_def TBrokerMsgQueue_ctor_def)
  from queue_run_tracks [OF ex_run ex_inv this] show ?thesis by simp
qed

definition wake_ok :: "TBrokerMsgQueue \<Rightarrow> int option \<Rightarrow> bool" where
  "wake_ok q known \<longleftrightarrow> 0 < bq_SenderNotify q \<or>
     bq_ReadyList q = [] \<and> (\<forall>x. bq_next_expiry q = Some x \<longrightarrow> (\<exists>y. known = Some y \<and> y \<le> x))"

lemma wake_ok_Put:
  assumes inv: "bq_inv q" and st: "GetState msg = New" and w: "wake_ok q known"
  shows "wake_ok (bq_Put q now msg) known"
proof (cases "bq_SenderNotify (bq_Put q now msg) = 0")
  case True
  let ?q = "bq_Put q now msg"
  from True bq_Put_spec(2) [OF inv st, of now]
  have s: "bq_SenderNotify q = 0" "\<not> (bq_ReadyList q = [] \<and> bq_ReadyList ?q \<noteq> [])"
    "\<not> expiry_earlier (bq_next_expiry q) (bq_next_expiry ?q)"
    by simp_all
  then have r: "bq_ReadyList q = []" "\<And>x. bq_next_expiry q = Some x \<Longrightarrow> \<exists>y. known = Some y \<and> y \<le> x"
    using w by (auto simp: wake_ok_def)
  moreover have "\<exists>y. bq_next_expiry q = Some y \<and> y \<le> x" if "bq_next_expiry ?q = Some x" for x
    using s(3) that by (cases "bq_next_expiry q") (auto simp: expiry_earlier_def)
  ultimately show ?thesis using s(2) unfolding wake_ok_def by (meson order_trans)
qed (simp add: wake_ok_def)



text \<open>C13: \<open>Put\<close> notifies the connector thread exactly when the documentation of the queue says
  so: when the ready list becomes nonempty, or when the soonest batch completion time becomes
  defined or moves to an earlier value.\<close>

theorem Put_notifies:
  assumes "bq_inv q" and "GetState msg = New"
  shows "bq_SenderNotify (bq_Put q now msg) = bq_SenderNotify q +
    of_bool (bq_ReadyList q = [] \<and> bq_ReadyList (bq_Put q now msg) \<noteq> [] \<or>
             expiry_earlier (bq_next_expiry q) (bq_next_expiry (bq_Put q now msg)))"
  using assms by (rule bq_Put_spec(2))

theorem Put_notifies_witness: "bq_SenderNotify (bq_Put ex_queue 4 (ex_ins ! 0)) = 1"
proof -
  have "GetState (ex_ins ! 0) = New" by code_simp
  moreover have "bq_SenderNotify ex_queue = 0 \<and>
      expiry_earlier (bq_next_expiry ex_queue) (bq_next_expiry (bq_Put ex_queue 4 (ex_ins ! 0)))"
    by code_simp
  ultimately show ?thesis using Put_notifies [OF ex_inv, of "ex_ins ! 0" 4] by simp
qed

text \<open>C14: At shutdown or when the dispatcher restarts, \<open>GetAllOnShutdown\<close> and \<open>Reset\<close> hand out every
  message of the queue, batched or not, in order, as batches of one topic in state
  \<open>SendWait\<close>, and leave the queue empty.\<close>

theorem Reset_returns_all:
  assumes "bq_inv q" and "bq_Reset q = (q', out)"
  shows "key_seq t rt (concat out) = bq_seq q t rt \<and> stateless (mset (concat out)) = stateless (bq_msgs q) \<and>
    bq_msgs q' = {#} \<and> bq_SenderNotify q' = 0 \<and> ready_ok out \<and> bq_inv q'"
proof -
  let ?q = "q\<lparr>bq_SenderNotify := 0\<rparr>"
  have inv: "bq_inv ?q" using assms(1) by (simp add: bq_inv_def)
  have eq: "bq_GetAllMsgs ?q = (q', out)" using assms(2) by (simp add: bq_Reset_def)
  note sp = bq_GetAllMsgs_spec [OF inv eq]
  have seq: "key_seq t rt (concat out) = bq_seq q t rt" for t rt
    using sp(2) [of t rt] by (simp add: bq_seq_def)
  have "bq_seq q' t rt = []" for t rt
    using arg_cong [OF sp(3), of stateless] bq_seq_msgs [OF sp(1), of t rt] by simp
  then have "stateless (mset (concat out) + bq_msgs q') = stateless (bq_msgs q + mset [])"
    by (intro queue_msgsI [OF assms(1) sp(1)]) (simp add: seq)
  moreover have "bq_SenderNotify q' = 0"
    using eq by (auto simp: bq_GetAllMsgs_def enter_send_wait_lists_eq splice_ready_def Let_def
        split: prod.splits option.splits if_splits)
  ultimately show ?thesis using seq sp by simp
qed

theorem Reset_returns_all_witness:
  "stateless (mset (concat (snd (bq_Reset ex_put)))) = mset ex_ins \<and> bq_msgs (fst (bq_Reset ex_put)) = {#}"
proof -
  have n: "GetState (ex_ins ! i) = New" if "i < 3" for i
    using that by (auto simp: ex_ins_def ex_msg_def TMsg_ctor_def less_Suc_eq numeral_3_eq_3)
  have "bq_inv (bq_Put q now m)" if "bq_inv q" "GetState m = New" for q now m
    using bq_Put_spec(1) [OF that] by (simp add: queue_step_def)
  then have "bq_inv ex_put" unfolding ex_put_def using ex_inv n by simp
  moreover have "stateless (bq_msgs ex_put) = mset ex_ins" by code_simp
  ultimately show ?thesis using Reset_returns_all [OF _ prod.collapse [symmetric], of ex_put] by simp
qed

end
