(* ===== verification/Metadata.thy ===== *)
theory Metadata
  imports Dory_Prelude "HOL-Library.Product_Lexorder"
begin

text \<open>
  Kafka metadata, \<open>src/dory/metadata.h\<close> and \<open>src/dory/metadata.cc\<close>: the brokers, the topics with
  their partitions, and for each topic and broker the array of partitions that messages may be
  sent to.  \<open>TBuilder\<close> assembles a metadata object call by call; \<open>Build\<close> regroups the brokers.

  Two library calls have an unspecified result, which is a parameter: \<open>std::shuffle\<close> permutes the
  in-service partitions of a topic (\<open>shuffle\<close>), and \<open>std::sort\<close> puts the brokers in service first but
  leaves the order among brokers of the same kind open (\<open>reorder\<close>, from the brokers' flags to the
  new order of the indexes).  The other two sorts compare distinct keys, so their result is
  determined.
\<close>

section \<open>Data\<close>

record TBroker =
  br_Id :: int
  br_Hostname :: string
  br_Port :: int
  br_InService :: bool

record TPartition =
  pa_Id :: int
  pa_BrokerIndex :: nat
  pa_ErrorCode :: int

record TPartitionChoices =
  pc_TopicBrokerVecIndex :: nat
  pc_TopicBrokerVecNumItems :: nat

record TTopic =
  tp_OkPartitions :: "TPartition list"
  tp_OutOfServicePartitions :: "TPartition list"
  tp_AllPartitions :: "TPartition list"
  tp_PartitionChoiceMap :: "(nat \<times> TPartitionChoices) list"

datatype TMetaBuilderState = MInitial | AddingBrokers | AddingTopics | AddingOneTopic

record TMetadata =
  md_Brokers :: "TBroker list"
  md_InServiceBrokerCount :: nat
  md_TopicBrokerVec :: "int list"
  md_Topics :: "TTopic list"
  md_TopicNameToIndex :: "(string \<times> nat) list"

record TMetaBuilder =
  mb_State :: TMetaBuilderState
  mb_BrokerMap :: "(int \<times> nat) list"
  mb_CurrentTopicName :: string
  mb_CurrentTopicIndex :: nat
  mb_CurrentTopicPartitions :: "int set"
  mb_Brokers :: "TBroker list"
  mb_InServiceBrokerCount :: nat
  mb_TopicBrokerVec :: "int list"
  mb_Topics :: "TTopic list"
  mb_TopicNameToIndex :: "(string \<times> nat) list"
  mb_counters :: TCounters

definition new_TBroker :: "int \<Rightarrow> string \<Rightarrow> int \<Rightarrow> TBroker" where
  "new_TBroker kafka_id hostname port =
     \<lparr>br_Id = kafka_id, br_Hostname = hostname, br_Port = port, br_InService = False\<rparr>"

definition MarkInService :: "TBroker \<Rightarrow> TBroker" where
  "MarkInService b = b\<lparr>br_InService := True\<rparr>"

definition new_TTopic :: TTopic where
  "new_TTopic = \<lparr>tp_OkPartitions = [], tp_OutOfServicePartitions = [], tp_AllPartitions = [],
     tp_PartitionChoiceMap = []\<rparr>"

definition new_TMetaBuilder :: "TCounters \<Rightarrow> TMetaBuilder" where
  "new_TMetaBuilder c = \<lparr>mb_State = MInitial, mb_BrokerMap = [], mb_CurrentTopicName = '''',
     mb_CurrentTopicIndex = 0, mb_CurrentTopicPartitions = {}, mb_Brokers = [],
     mb_InServiceBrokerCount = 0, mb_TopicBrokerVec = [], mb_Topics = [], mb_TopicNameToIndex = [],
     mb_counters = c\<rparr>"

text \<open>\<open>std::unordered_map::insert\<close>, which leaves an existing entry alone.\<close>

definition map_insert :: "'k \<Rightarrow> 'v \<Rightarrow> ('k \<times> 'v) list \<Rightarrow> ('k \<times> 'v) list" where
  "map_insert k v m = (if k \<in> fst ` set m then m else m @ [(k, v)])"

section \<open>The builder\<close>

definition mb_count :: "string \<Rightarrow> TMetaBuilder \<Rightarrow> TMetaBuilder" where
  "mb_count name b = b\<lparr>mb_counters := Increment name (mb_counters b)\<rparr>"

definition mb_OpenBrokerList :: "TMetaBuilder \<Rightarrow> TMetaBuilder" where
  "mb_OpenBrokerList b = b\<lparr>mb_State := AddingBrokers\<rparr>"

definition mb_AddBroker :: "int \<Rightarrow> string \<Rightarrow> int \<Rightarrow> TMetaBuilder \<Rightarrow> TMetaBuilder" where
  "mb_AddBroker kafka_id hostname port b =
     (if kafka_id \<notin> fst ` set (mb_BrokerMap b)
      then b\<lparr>mb_BrokerMap := map_insert kafka_id (length (mb_Brokers b)) (mb_BrokerMap b),
             mb_Brokers := mb_Brokers b @ [new_TBroker kafka_id hostname port]\<rparr>
      else mb_count ''MetadataDuplicateBrokerId'' b)"

definition mb_CloseBrokerList :: "TMetaBuilder \<Rightarrow> TMetaBuilder" where
  "mb_CloseBrokerList b = b\<lparr>mb_State := AddingTopics\<rparr>"

definition mb_OpenTopic :: "string \<Rightarrow> TMetaBuilder \<Rightarrow> bool \<times> TMetaBuilder" where
  "mb_OpenTopic name b =
     (if name \<notin> fst ` set (mb_TopicNameToIndex b)
      then (True, b\<lparr>mb_TopicNameToIndex := map_insert name (length (mb_Topics b)) (mb_TopicNameToIndex b),
                    mb_CurrentTopicIndex := length (mb_Topics b),
                    mb_Topics := mb_Topics b @ [new_TTopic],
                    mb_CurrentTopicPartitions := {},
                    mb_State := AddingOneTopic,
                    mb_CurrentTopicName := name\<rparr>)
      else (False, mb_count ''MetadataDuplicateTopic'' b))"

definition mb_AddPartitionToTopic :: "int \<Rightarrow> int \<Rightarrow> bool \<Rightarrow> int \<Rightarrow> TMetaBuilder \<Rightarrow> TMetaBuilder" where
  "mb_AddPartitionToTopic partition_id broker_id can_send error_code b =
     (case map_of (mb_BrokerMap b) broker_id of
        None \<Rightarrow> mb_count ''MetadataPartitionHasUnknownBroker'' b
      | Some broker_index \<Rightarrow>
          if broker_index \<ge> length (mb_Brokers b) then b
          else if partition_id \<in> mb_CurrentTopicPartitions b
          then mb_count ''MetadataDuplicatePartition'' b
          else
            let b = b\<lparr>mb_CurrentTopicPartitions := insert partition_id (mb_CurrentTopicPartitions b)\<rparr>;
                i = mb_CurrentTopicIndex b
            in if i \<ge> length (mb_Topics b) then b
               else
                 let t = mb_Topics b ! i;
                     p = \<lparr>pa_Id = partition_id, pa_BrokerIndex = broker_index, pa_ErrorCode = error_code\<rparr>;
                     t = (if can_send
                          then t\<lparr>tp_OkPartitions := tp_OkPartitions t @ [p]\<rparr>
                          else t\<lparr>tp_OutOfServicePartitions := tp_OutOfServicePartitions t @ [p]\<rparr>)
                 in b\<lparr>mb_Topics := (mb_Topics b)[i := t]\<rparr>)"

text \<open>
  The loop of \<open>CloseTopic\<close> over the sorted in-service partitions: one round per group of partitions
  on the same broker.  The flag is false when the loop has left the function because of a broker
  index out of range.
\<close>

function mb_group_loop ::
  "TPartition list \<Rightarrow> TBroker list \<Rightarrow> int list \<Rightarrow> (nat \<times> TPartitionChoices) list \<Rightarrow>
   bool \<times> TBroker list \<times> int list \<times> (nat \<times> TPartitionChoices) list" where
  "mb_group_loop [] brokers vec choices = (True, brokers, vec, choices)"
| "mb_group_loop (p # ps) brokers vec choices =
     (let broker_index = pa_BrokerIndex p;
          chunk = takeWhile (\<lambda>q. pa_BrokerIndex q = broker_index) (p # ps);
          rest = dropWhile (\<lambda>q. pa_BrokerIndex q = broker_index) (p # ps)
      in if broker_index \<ge> length brokers then (False, brokers, vec, choices)
         else mb_group_loop rest
                (brokers[broker_index := MarkInService (brokers ! broker_index)])
                (vec @ map pa_Id chunk)
                (map_insert broker_index
                   \<lparr>pc_TopicBrokerVecIndex = length vec, pc_TopicBrokerVecNumItems = length chunk\<rparr>
                   choices))"
  by pat_completeness auto
termination
  by (relation "measure (\<lambda>(ps, _). length ps)") (auto simp: le_imp_less_Suc length_dropWhile_le)

definition mb_CloseTopic :: "(TPartition list \<Rightarrow> TPartition list) \<Rightarrow> TMetaBuilder \<Rightarrow> TMetaBuilder" where
  "mb_CloseTopic shuffle b =
     (let i = mb_CurrentTopicIndex b
      in if i \<ge> length (mb_Topics b) then b
         else
           let t = mb_Topics b ! i;
               ok = sort_key (\<lambda>p. (pa_BrokerIndex p, pa_Id p)) (tp_OkPartitions t);
               (complete, brokers, vec, choices) =
                 mb_group_loop ok (mb_Brokers b) (mb_TopicBrokerVec b) (tp_PartitionChoiceMap t);
               t = t\<lparr>tp_OkPartitions := ok, tp_PartitionChoiceMap := choices\<rparr>;
               b = b\<lparr>mb_Brokers := brokers, mb_TopicBrokerVec := vec\<rparr>
           in if \<not> complete then b\<lparr>mb_Topics := (mb_Topics b)[i := t]\<rparr>
              else
                let t = t\<lparr>tp_AllPartitions := sort_key pa_Id (ok @ tp_OutOfServicePartitions t),
                         tp_OkPartitions := shuffle ok\<rparr>
                in b\<lparr>mb_Topics := (mb_Topics b)[i := t],
                     mb_CurrentTopicName := '''', mb_State := AddingTopics\<rparr>)"

definition old_indexes_to_new :: "nat list \<Rightarrow> nat list" where
  "old_indexes_to_new order =
     fold (\<lambda>i v. v[order ! i := i]) [0..<length order] (replicate (length order) 0)"

definition reindex_partition :: "nat list \<Rightarrow> TPartition \<Rightarrow> TPartition" where
  "reindex_partition o2n p = p\<lparr>pa_BrokerIndex := o2n ! pa_BrokerIndex p\<rparr>"

definition reindex_topic :: "nat list \<Rightarrow> TTopic \<Rightarrow> TTopic" where
  "reindex_topic o2n t =
     t\<lparr>tp_OkPartitions := map (reindex_partition o2n) (tp_OkPartitions t),
       tp_OutOfServicePartitions := map (reindex_partition o2n) (tp_OutOfServicePartitions t),
       tp_AllPartitions := map (reindex_partition o2n) (tp_AllPartitions t),
       tp_PartitionChoiceMap :=
         fold (\<lambda>(i, c) m. map_insert (o2n ! i) c m) (tp_PartitionChoiceMap t) []\<rparr>"

definition mb_GroupInServiceBrokers :: "(bool list \<Rightarrow> nat list) \<Rightarrow> TMetaBuilder \<Rightarrow> TMetaBuilder" where
  "mb_GroupInServiceBrokers reorder b =
     (let order = reorder (map br_InService (mb_Brokers b));
          brokers = map (\<lambda>i. mb_Brokers b ! i) order
      in b\<lparr>mb_Brokers := brokers,
           mb_InServiceBrokerCount := length (takeWhile br_InService brokers),
           mb_Topics := map (reindex_topic (old_indexes_to_new order)) (mb_Topics b)\<rparr>)"

definition mb_Build :: "(bool list \<Rightarrow> nat list) \<Rightarrow> TMetaBuilder \<Rightarrow> TMetadata \<times> TMetaBuilder" where
  "mb_Build reorder b =
     (let b = mb_GroupInServiceBrokers reorder b
      in (\<lparr>md_Brokers = mb_Brokers b, md_InServiceBrokerCount = mb_InServiceBrokerCount b,
           md_TopicBrokerVec = mb_TopicBrokerVec b, md_Topics = mb_Topics b,
           md_TopicNameToIndex = mb_TopicNameToIndex b\<rparr>,
          new_TMetaBuilder (mb_counters b)))"

section \<open>Lookups\<close>

definition FindTopicIndex :: "TMetadata \<Rightarrow> string \<Rightarrow> int" where
  "FindTopicIndex m topic =
     (case map_of (md_TopicNameToIndex m) topic of
        None \<Rightarrow> -1
      | Some i \<Rightarrow> if i \<ge> length (md_Topics m) then -1 else i32 (int i))"

text \<open>The returned array; the null pointer, for which \<open>num_choices\<close> is 0, is the empty list.\<close>

definition FindPartitionChoices :: "TMetadata \<Rightarrow> string \<Rightarrow> nat \<Rightarrow> int list" where
  "FindPartitionChoices m topic broker_index =
     (let topic_index = FindTopicIndex m topic
      in if topic_index < 0 then []
         else
           let t = md_Topics m ! nat topic_index
           in if broker_index \<ge> length (md_Brokers m) then []
              else case map_of (tp_PartitionChoiceMap t) broker_index of
                None \<Rightarrow> []
              | Some choices \<Rightarrow>
                  let i = pc_TopicBrokerVecIndex choices;
                      n = pc_TopicBrokerVecNumItems choices
                  in if i \<ge> length (md_TopicBrokerVec m) then []
                     else if n > length (md_TopicBrokerVec m) - i then []
                     else if n = 0 then []
                     else take n (drop i (md_TopicBrokerVec m)))"

section \<open>The grouping loop\<close>

text \<open>The chunks of the choice maps cover \<open>TopicBrokerVec\<close> from index \<open>a\<close> to index \<open>z\<close>, one behind the
  other.\<close>

fun tiles :: "nat \<Rightarrow> TPartitionChoices list \<Rightarrow> nat \<Rightarrow> bool" where
  "tiles a [] z \<longleftrightarrow> a = z"
| "tiles a (c # cs) z \<longleftrightarrow>
     pc_TopicBrokerVecIndex c = a \<and> tiles (a + pc_TopicBrokerVecNumItems c) cs z"

definition chunk_of :: "int list \<Rightarrow> TPartitionChoices \<Rightarrow> int list" where
  "chunk_of vec c = take (pc_TopicBrokerVecNumItems c) (drop (pc_TopicBrokerVecIndex c) vec)"

lemma tiles_append: "tiles a (xs @ ys) z \<longleftrightarrow> (\<exists>m. tiles a xs m \<and> tiles m ys z)"
  by (induction xs arbitrary: a) auto

lemma tiles_le: "tiles a cs z \<Longrightarrow> a \<le> z"
  by (induction cs arbitrary: a) force+

lemma tiles_member:
  "tiles a cs z \<Longrightarrow> c \<in> set cs \<Longrightarrow>
   a \<le> pc_TopicBrokerVecIndex c \<and> pc_TopicBrokerVecIndex c + pc_TopicBrokerVecNumItems c \<le> z"
  by (induction cs arbitrary: a) (fastforce dest: tiles_le)+

lemma chunk_of_append:
  "pc_TopicBrokerVecIndex c + pc_TopicBrokerVecNumItems c \<le> length vec \<Longrightarrow>
   chunk_of (vec @ ws) c = chunk_of vec c"
  by (simp add: chunk_of_def)

definition mark_all :: "nat set \<Rightarrow> TBroker list \<Rightarrow> TBroker list" where
  "mark_all S brokers =
     map (\<lambda>i. if i \<in> S then MarkInService (brokers ! i) else brokers ! i) [0..<length brokers]"

lemma MarkInService_simps [simp]:
  "br_Id (MarkInService b) = br_Id b" "br_Hostname (MarkInService b) = br_Hostname b"
  "br_Port (MarkInService b) = br_Port b" "br_InService (MarkInService b)"
  "MarkInService (MarkInService b) = MarkInService b"
  by (simp_all add: MarkInService_def)

lemma length_mark_all [simp]: "length (mark_all S brokers) = length brokers"
  by (simp add: mark_all_def)

lemma nth_mark_all [simp]:
  "i < length brokers \<Longrightarrow>
   mark_all S brokers ! i = (if i \<in> S then MarkInService (brokers ! i) else brokers ! i)"
  by (simp add: mark_all_def)

lemma mark_all_update:
  "i < length brokers \<Longrightarrow>
   mark_all S (brokers[i := MarkInService (brokers ! i)]) = mark_all (insert i S) brokers"
  by (rule nth_equalityI) (auto simp: nth_list_update)

lemma mark_all_empty [simp]: "mark_all {} brokers = brokers"
  by (rule nth_equalityI) auto

lemma mark_all_attributes [simp]:
  "map br_Id (mark_all S brokers) = map br_Id brokers"
  by (rule nth_equalityI) auto

lemma sorted_group:
  assumes "sorted (map f (p # ps))"
  shows "takeWhile (\<lambda>q. f q = f p) ps = filter (\<lambda>q. f q = f p) ps"
    and "dropWhile (\<lambda>q. f q = f p) ps = filter (\<lambda>q. f q \<noteq> f p) ps"
proof -
  have "takeWhile (\<lambda>q. f q = f p) ps = filter (\<lambda>q. f q = f p) ps \<and>
        dropWhile (\<lambda>q. f q = f p) ps = filter (\<lambda>q. f q \<noteq> f p) ps"
    using assms
  proof (induction ps)
    case (Cons a ps)
    show ?case
    proof (cases "f a = f p")
      case False
      with Cons.prems have "\<forall>q \<in> set ps. f q \<noteq> f p" by force
      with False show ?thesis by (auto simp: filter_empty_conv)
    qed (use Cons in simp)
  qed simp
  then show "takeWhile (\<lambda>q. f q = f p) ps = filter (\<lambda>q. f q = f p) ps"
    and "dropWhile (\<lambda>q. f q = f p) ps = filter (\<lambda>q. f q \<noteq> f p) ps" by blast+
qed

definition grouped :: "TPartition list \<Rightarrow> nat \<Rightarrow> int list \<Rightarrow> (nat \<times> TPartitionChoices) list \<Rightarrow> bool" where
  "grouped ps a vec new \<longleftrightarrow>
     distinct (map fst new) \<and> fst ` set new = pa_BrokerIndex ` set ps \<and>
     tiles a (vals new) (a + length ps) \<and>
     (\<forall>(b, c) \<in> set new. 0 < pc_TopicBrokerVecNumItems c \<and>
        chunk_of vec c = map pa_Id (filter (\<lambda>p. pa_BrokerIndex p = b) ps))"

lemma grouped_Cons:
  assumes new: "grouped ys (a + length xs) vec new"
    and "filter (\<lambda>q. pa_BrokerIndex q = b) qs = xs" "filter (\<lambda>q. pa_BrokerIndex q \<noteq> b) qs = ys"
    and "chunk_of vec c = map pa_Id xs" "pc_TopicBrokerVecIndex c = a"
    and "pc_TopicBrokerVecNumItems c = length xs" "xs \<noteq> []"
  shows "grouped qs a vec ((b, c) # new)"
proof -
  have idx: "pa_BrokerIndex ` set qs = insert b (pa_BrokerIndex ` set ys)"
  proof -
    have "set xs = {q \<in> set qs. pa_BrokerIndex q = b}" "set ys = {q \<in> set qs. pa_BrokerIndex q \<noteq> b}"
      using assms(2,3) by auto
    moreover obtain x where "x \<in> set xs" using assms(7) by (cases xs) auto
    ultimately show ?thesis by auto
  qed
  have len: "length qs = length xs + length ys"
    unfolding assms(2,3) [symmetric] by (simp add: sum_length_filter_compl)
  have filters: "filter (\<lambda>q. pa_BrokerIndex q = b') qs = filter (\<lambda>q. pa_BrokerIndex q = b') ys"
    if "b' \<noteq> b" for b'
    unfolding assms(3) [symmetric] using that by (auto intro: filter_cong)
  have "b \<notin> pa_BrokerIndex ` set ys" using assms(3) by auto
  then have keys: "distinct (map fst ((b, c) # new))" "fst ` set ((b, c) # new) = pa_BrokerIndex ` set qs"
    using new idx by (auto simp: grouped_def)
  have tiled: "tiles a (vals ((b, c) # new)) (a + length qs)"
    using new assms(5,6) len by (simp add: grouped_def add.assoc)
  have "0 < pc_TopicBrokerVecNumItems c' \<and>
      chunk_of vec c' = map pa_Id (filter (\<lambda>p. pa_BrokerIndex p = b') qs)"
    if "(b', c') \<in> set ((b, c) # new)" for b' c'
  proof (cases "(b', c') = (b, c)")
    case True
    then show ?thesis using assms by simp
  next
    case False
    with that have "(b', c') \<in> set new" by auto
    moreover from this have "b' \<noteq> b" using keys(1) by force
    ultimately show ?thesis using new filters by (auto simp: grouped_def)
  qed
  with keys tiled show ?thesis by (auto simp: grouped_def)
qed

lemma group_loop_spec:
  assumes "sorted (map pa_BrokerIndex ps)" "\<forall>p \<in> set ps. pa_BrokerIndex p < length brokers"
    "fst ` set choices \<inter> pa_BrokerIndex ` set ps = {}"
  shows "\<exists>new. mb_group_loop ps brokers vec choices =
             (True, mark_all (pa_BrokerIndex ` set ps) brokers, vec @ map pa_Id ps, choices @ new) \<and>
           grouped ps (length vec) (vec @ map pa_Id ps) new"
  using assms
proof (induction ps brokers vec choices rule: mb_group_loop.induct)
  case (2 p ps brokers vec choices)
  define b where "b = pa_BrokerIndex p"
  define xs where "xs = p # filter (\<lambda>q. pa_BrokerIndex q = b) ps"
  define ys where "ys = filter (\<lambda>q. pa_BrokerIndex q \<noteq> b) ps"
  define c where "c = \<lparr>pc_TopicBrokerVecIndex = length vec, pc_TopicBrokerVecNumItems = length xs\<rparr>"
  note grp = sorted_group [OF "2.prems"(1)]
  have split: "p # ps = xs @ ys"
    using takeWhile_dropWhile_id [of "\<lambda>q. pa_BrokerIndex q = b" ps] grp
    by (simp add: xs_def ys_def b_def)
  have b: "b < length brokers" "b \<notin> fst ` set choices" using "2.prems" by (auto simp: b_def)
  have step: "mb_group_loop (p # ps) brokers vec choices =
      mb_group_loop ys (brokers[b := MarkInService (brokers ! b)]) (vec @ map pa_Id xs)
        (choices @ [(b, c)])"
    using b grp by (simp add: map_insert_def Let_def xs_def ys_def c_def flip: b_def)
  have idx: "pa_BrokerIndex ` set (p # ps) = insert b (pa_BrokerIndex ` set ys)"
    by (auto simp: ys_def b_def)
  have "\<exists>new. mb_group_loop ys (brokers[b := MarkInService (brokers ! b)]) (vec @ map pa_Id xs)
        (choices @ [(b, c)]) = (True, mark_all (pa_BrokerIndex ` set ys) (brokers[b := MarkInService (brokers ! b)]),
        (vec @ map pa_Id xs) @ map pa_Id ys, (choices @ [(b, c)]) @ new) \<and>
      grouped ys (length (vec @ map pa_Id xs)) ((vec @ map pa_Id xs) @ map pa_Id ys) new"
  proof -
    have "sorted (map pa_BrokerIndex ys)" "\<forall>q \<in> set ys. pa_BrokerIndex q < length brokers"
      "fst ` set (choices @ [(b, c)]) \<inter> pa_BrokerIndex ` set ys = {}"
      using "2.prems" by (auto simp: ys_def sorted_filter)
    then show ?thesis
      using "2.IH" [OF refl refl refl] b grp
      by (simp add: map_insert_def xs_def ys_def c_def flip: b_def)
  qed
  then obtain new where new: "mb_group_loop (p # ps) brokers vec choices =
        (True, mark_all (pa_BrokerIndex ` set (p # ps)) brokers, vec @ map pa_Id (p # ps),
         choices @ (b, c) # new)"
      "grouped ys (length vec + length xs) (vec @ map pa_Id (p # ps)) new"
    unfolding step idx unfolding split using b by (auto simp: mark_all_update)
  have "chunk_of (vec @ map pa_Id (p # ps)) c = map pa_Id xs"
    unfolding split by (simp add: chunk_of_def c_def)
  then have "grouped (p # ps) (length vec) (vec @ map pa_Id (p # ps)) ((b, c) # new)"
    using grouped_Cons [OF new(2)] by (simp add: xs_def ys_def c_def b_def)
  with new(1) show ?case by blast
qed (simp add: grouped_def)

end
