(* ===== verification/Metadata_Build.thy ===== *)
theory Metadata_Build
  imports Metadata
begin

text \<open>
  Correctness of the metadata builder.  \<open>mb_run\<close> are the histories of calls that respect the
  builder's asserted states.  Over all of them the builder implements an abstract specification,
  finite maps of brokers and of topics to partitions, and its representation (the partition choice
  maps, the vector of partition IDs that they refer to, the in-service flags) is well-formed.
\<close>

section \<open>Well-formed representations\<close>

definition choice_ids :: "TTopic \<Rightarrow> nat \<Rightarrow> int list" where
  "choice_ids t b = sort (map pa_Id (filter (\<lambda>p. pa_BrokerIndex p = b) (tp_OkPartitions t)))"

abbreviation parts :: "TTopic \<Rightarrow> TPartition list" where
  "parts t \<equiv> tp_OkPartitions t @ tp_OutOfServicePartitions t"

definition parts_wf :: "nat \<Rightarrow> TTopic \<Rightarrow> bool" where
  "parts_wf nb t \<longleftrightarrow> distinct (map pa_Id (parts t)) \<and> (\<forall>p \<in> set (parts t). pa_BrokerIndex p < nb)"

definition choices_wf :: "int list \<Rightarrow> TTopic \<Rightarrow> bool" where
  "choices_wf vec t \<longleftrightarrow>
     distinct (map fst (tp_PartitionChoiceMap t)) \<and>
     fst ` set (tp_PartitionChoiceMap t) = pa_BrokerIndex ` set (tp_OkPartitions t) \<and>
     (\<forall>(b, c) \<in> set (tp_PartitionChoiceMap t).
        0 < pc_TopicBrokerVecNumItems c \<and>
        pc_TopicBrokerVecIndex c + pc_TopicBrokerVecNumItems c \<le> length vec \<and>
        chunk_of vec c = choice_ids t b)"

definition all_wf :: "TTopic \<Rightarrow> bool" where
  "all_wf t \<longleftrightarrow> mset (tp_AllPartitions t) = mset (parts t) \<and> sorted (map pa_Id (tp_AllPartitions t))"

definition topic_wf :: "nat \<Rightarrow> int list \<Rightarrow> TTopic \<Rightarrow> bool" where
  "topic_wf nb vec t \<longleftrightarrow> parts_wf nb t \<and> all_wf t \<and> choices_wf vec t"

definition topic_open :: "nat \<Rightarrow> TTopic \<Rightarrow> bool" where
  "topic_open nb t \<longleftrightarrow> parts_wf nb t \<and> tp_AllPartitions t = [] \<and> tp_PartitionChoiceMap t = []"

definition all_chunks :: "TTopic list \<Rightarrow> TPartitionChoices list" where
  "all_chunks ts = concat (map (\<lambda>t. vals (tp_PartitionChoiceMap t)) ts)"

definition md_wf :: "TBroker list \<Rightarrow> int list \<Rightarrow> TTopic list \<Rightarrow> bool" where
  "md_wf brokers vec ts \<longleftrightarrow>
     distinct (map br_Id brokers) \<and>
     (\<forall>t \<in> set ts. topic_wf (length brokers) vec t) \<and>
     tiles 0 (all_chunks ts) (length vec) \<and>
     (\<forall>i < length brokers. br_InService (brokers ! i) \<longleftrightarrow>
        (\<exists>t \<in> set ts. i \<in> pa_BrokerIndex ` set (tp_OkPartitions t)))"

definition names_wf :: "(string \<times> nat) list \<Rightarrow> nat \<Rightarrow> bool" where
  "names_wf names n \<longleftrightarrow> distinct (map fst names) \<and> map snd names = [0..<n]"

definition mb_wf :: "TMetaBuilder \<Rightarrow> bool" where
  "mb_wf b \<longleftrightarrow>
     mb_BrokerMap b = zip (map br_Id (mb_Brokers b)) [0..<length (mb_Brokers b)] \<and>
     names_wf (mb_TopicNameToIndex b) (length (mb_Topics b)) \<and>
     (case mb_State b of
        AddingOneTopic \<Rightarrow>
          \<exists>ts t ns. mb_Topics b = ts @ [t] \<and> md_wf (mb_Brokers b) (mb_TopicBrokerVec b) ts \<and>
            topic_open (length (mb_Brokers b)) t \<and> mb_CurrentTopicIndex b = length ts \<and>
            mb_CurrentTopicPartitions b = pa_Id ` set (parts t) \<and>
            mb_TopicNameToIndex b = ns @ [(mb_CurrentTopicName b, length ts)]
      | AddingTopics \<Rightarrow> md_wf (mb_Brokers b) (mb_TopicBrokerVec b) (mb_Topics b)
      | _ \<Rightarrow> mb_Topics b = [] \<and> md_wf (mb_Brokers b) (mb_TopicBrokerVec b) [])"

section \<open>Closing a topic\<close>

lemma sorted_by_broker:
  assumes "sorted (map (\<lambda>p. (pa_BrokerIndex p, pa_Id p)) xs)"
  shows "sorted (map pa_BrokerIndex xs)"
    and "sorted (map pa_Id (filter (\<lambda>p. pa_BrokerIndex p = b) xs))"
proof -
  have *: "sorted_wrt (\<lambda>p q. pa_BrokerIndex p < pa_BrokerIndex q \<or>
      pa_BrokerIndex p = pa_BrokerIndex q \<and> pa_Id p \<le> pa_Id q) xs"
    using assms unfolding sorted_wrt_map by (rule sorted_wrt_mono_rel [rotated]) auto
  then show "sorted (map pa_BrokerIndex xs)"
    unfolding sorted_wrt_map by (rule sorted_wrt_mono_rel [rotated]) auto
  have "sorted_wrt (\<lambda>p q. pa_BrokerIndex p < pa_BrokerIndex q \<or>
      pa_BrokerIndex p = pa_BrokerIndex q \<and> pa_Id p \<le> pa_Id q) (filter (\<lambda>p. pa_BrokerIndex p = b) xs)"
    using * by (rule sorted_wrt_filter)
  then show "sorted (map pa_Id (filter (\<lambda>p. pa_BrokerIndex p = b) xs))"
    unfolding sorted_wrt_map by (rule sorted_wrt_mono_rel [rotated]) auto
qed

lemma choice_ids_sorted:
  assumes "sorted (map (\<lambda>p. (pa_BrokerIndex p, pa_Id p)) xs)" "mset xs = mset (tp_OkPartitions t)"
  shows "map pa_Id (filter (\<lambda>p. pa_BrokerIndex p = b) xs) = choice_ids t b"
proof -
  have "mset (map pa_Id (filter (\<lambda>p. pa_BrokerIndex p = b) xs)) =
      mset (map pa_Id (filter (\<lambda>p. pa_BrokerIndex p = b) (tp_OkPartitions t)))"
    using assms(2) by simp
  from properties_for_sort [OF this] sorted_by_broker(2) [OF assms(1)] show ?thesis
    by (simp add: choice_ids_def)
qed

definition is_shuffle :: "(TPartition list \<Rightarrow> TPartition list) \<Rightarrow> bool" where
  "is_shuffle sh \<longleftrightarrow> (\<forall>xs. mset (sh xs) = mset xs)"

lemma topic_wf_more:
  assumes "topic_wf nb vec t" shows "topic_wf nb (vec @ ws) t"
  using assms by (fastforce simp: topic_wf_def choices_wf_def chunk_of_append)

text \<open>The topic that \<open>CloseTopic\<close> leaves behind.\<close>

definition closed_topic ::
  "(TPartition list \<Rightarrow> TPartition list) \<Rightarrow> (nat \<times> TPartitionChoices) list \<Rightarrow> TTopic \<Rightarrow> TTopic" where
  "closed_topic sh new t =
     (let ok = sort_key (\<lambda>p. (pa_BrokerIndex p, pa_Id p)) (tp_OkPartitions t)
      in t\<lparr>tp_OkPartitions := sh ok, tp_PartitionChoiceMap := new,
           tp_AllPartitions := sort_key pa_Id (ok @ tp_OutOfServicePartitions t)\<rparr>)"

lemma closed_topic_parts:
  assumes "is_shuffle sh"
  shows "mset (tp_OkPartitions (closed_topic sh new t)) = mset (tp_OkPartitions t)"
    and "set (tp_OkPartitions (closed_topic sh new t)) = set (tp_OkPartitions t)"
    and "tp_OutOfServicePartitions (closed_topic sh new t) = tp_OutOfServicePartitions t"
proof -
  show *: "mset (tp_OkPartitions (closed_topic sh new t)) = mset (tp_OkPartitions t)"
    using assms by (simp add: closed_topic_def is_shuffle_def Let_def)
  from mset_eq_setD [OF this] show "set (tp_OkPartitions (closed_topic sh new t)) = set (tp_OkPartitions t)" .
qed (simp add: closed_topic_def Let_def)

lemma parts_wf_mset:
  assumes "parts_wf nb t" "mset (parts t') = mset (parts t)"
  shows "parts_wf nb t'"
proof -
  have "mset (map pa_Id (parts t')) = mset (map pa_Id (parts t))"
    using assms(2) unfolding mset_map by metis
  moreover have "set (parts t') = set (parts t)" using assms(2) by (rule mset_eq_setD)
  ultimately show ?thesis using assms(1) mset_eq_imp_distinct_iff unfolding parts_wf_def by metis
qed

lemma choice_ids_mset:
  "mset (tp_OkPartitions t') = mset (tp_OkPartitions t) \<Longrightarrow> choice_ids t' b = choice_ids t b"
  unfolding choice_ids_def by (rule properties_for_sort) simp_all

lemma CloseTopic_open:
  assumes "is_shuffle sh" "mb_Topics b = ts @ [t]" "mb_CurrentTopicIndex b = length ts"
    and "topic_open (length (mb_Brokers b)) t"
  obtains new ids where
    "mb_CloseTopic sh b = b\<lparr>mb_Brokers := mark_all (pa_BrokerIndex ` set (tp_OkPartitions t)) (mb_Brokers b),
        mb_TopicBrokerVec := mb_TopicBrokerVec b @ ids,
        mb_Topics := ts @ [closed_topic sh new t], mb_CurrentTopicName := [], mb_State := AddingTopics\<rparr>"
    "topic_wf (length (mb_Brokers b)) (mb_TopicBrokerVec b @ ids) (closed_topic sh new t)"
    "tiles (length (mb_TopicBrokerVec b)) (vals new) (length (mb_TopicBrokerVec b @ ids))"
proof -
  define ok where "ok = sort_key (\<lambda>p. (pa_BrokerIndex p, pa_Id p)) (tp_OkPartitions t)"
  define vec where "vec = mb_TopicBrokerVec b @ map pa_Id ok"
  have ok: "sorted (map (\<lambda>p. (pa_BrokerIndex p, pa_Id p)) ok)" "mset ok = mset (tp_OkPartitions t)"
    "set ok = set (tp_OkPartitions t)"
    by (simp_all add: ok_def)
  have p: "parts_wf (length (mb_Brokers b)) t" "tp_PartitionChoiceMap t = []"
    using assms(4) by (simp_all add: topic_open_def)
  then have "\<forall>q \<in> set ok. pa_BrokerIndex q < length (mb_Brokers b)"
    using ok(3) by (auto simp: parts_wf_def)
  from group_loop_spec [OF sorted_by_broker(1) [OF ok(1)] this, of "[]" "mb_TopicBrokerVec b"]
  obtain new where new: "mb_group_loop ok (mb_Brokers b) (mb_TopicBrokerVec b) [] =
      (True, mark_all (pa_BrokerIndex ` set (tp_OkPartitions t)) (mb_Brokers b), vec, new)"
      "grouped ok (length (mb_TopicBrokerVec b)) vec new"
    unfolding ok(3) vec_def by auto
  note q = closed_topic_parts [OF assms(1), of new t]
  have "mset (parts (closed_topic sh new t)) = mset (parts t)" using q by simp
  with p(1) have "parts_wf (length (mb_Brokers b)) (closed_topic sh new t)" by (rule parts_wf_mset)
  moreover have "all_wf (closed_topic sh new t)"
    using q ok(2) by (simp add: all_wf_def) (simp add: closed_topic_def Let_def)
  moreover have "choices_wf vec (closed_topic sh new t)"
  proof -
    have "pc_TopicBrokerVecIndex c + pc_TopicBrokerVecNumItems c \<le> length vec" if "(i, c) \<in> set new" for i c
      using new(2) that tiles_member [of "length (mb_TopicBrokerVec b)" "vals new" "length vec" c]
      by (force simp: grouped_def vec_def)
    moreover have "map pa_Id (filter (\<lambda>p. pa_BrokerIndex p = i) ok) = choice_ids (closed_topic sh new t) i" for i
      using ok(1) by (rule choice_ids_sorted) (simp add: q(1) ok(2))
    moreover have "tp_PartitionChoiceMap (closed_topic sh new t) = new"
      by (simp add: closed_topic_def Let_def)
    ultimately show ?thesis using new(2) q(2) ok(3) by (auto simp: choices_wf_def grouped_def)
  qed
  ultimately have "topic_wf (length (mb_Brokers b)) vec (closed_topic sh new t)"
    by (simp add: topic_wf_def)
  moreover have "mb_CloseTopic sh b = b\<lparr>mb_Brokers := mark_all (pa_BrokerIndex ` set (tp_OkPartitions t)) (mb_Brokers b),
        mb_TopicBrokerVec := vec, mb_Topics := ts @ [closed_topic sh new t],
        mb_CurrentTopicName := [], mb_State := AddingTopics\<rparr>"
    using assms(2,3) p(2) new(1) by (simp add: mb_CloseTopic_def Let_def closed_topic_def flip: ok_def)
  ultimately show ?thesis
    using that [of new "map pa_Id ok"] new(2) by (simp add: vec_def grouped_def)
qed

lemma md_wf_append:
  assumes "md_wf brokers vec ts" "topic_wf (length brokers) (vec @ ids) t"
    and "tiles (length vec) (vals (tp_PartitionChoiceMap t)) (length (vec @ ids))"
  shows "md_wf (mark_all (pa_BrokerIndex ` set (tp_OkPartitions t)) brokers) (vec @ ids) (ts @ [t])"
proof -
  have "tiles 0 (all_chunks (ts @ [t])) (length (vec @ ids))"
    using assms by (auto simp: md_wf_def all_chunks_def tiles_append)
  then show ?thesis using assms(1,2) by (auto simp: md_wf_def topic_wf_more)
qed

section \<open>The specification\<close>

text \<open>What is known of a partition: the broker with its leader, whether messages can be sent to
  it, and its error code.\<close>

type_synonym partition_info = "int \<times> bool \<times> int"

record TMetaSpec =
  sp_brokers :: "int \<rightharpoonup> string \<times> int"
  sp_topics :: "string \<rightharpoonup> (int \<rightharpoonup> partition_info)"
  sp_current :: "string option"

datatype TMetaCall = COpenBrokerList | CAddBroker int string int | CCloseBrokerList
  | COpenTopic string | CAddPartition int int bool int | CCloseTopic

definition spec_init :: TMetaSpec where
  "spec_init = \<lparr>sp_brokers = Map.empty, sp_topics = Map.empty, sp_current = None\<rparr>"

text \<open>The first broker with an ID, the first topic with a name and the first partition with an ID
  count; partitions on unknown brokers are left out.\<close>

fun spec_call :: "TMetaCall \<Rightarrow> TMetaSpec \<Rightarrow> TMetaSpec" where
  "spec_call (CAddBroker i host port) s =
     (if i \<in> dom (sp_brokers s) then s else s\<lparr>sp_brokers := (sp_brokers s)(i \<mapsto> (host, port))\<rparr>)"
| "spec_call (COpenTopic name) s =
     (if name \<in> dom (sp_topics s) then s
      else s\<lparr>sp_topics := (sp_topics s)(name \<mapsto> Map.empty), sp_current := Some name\<rparr>)"
| "spec_call (CAddPartition pid bid ok err) s =
     (case sp_current s of
        None \<Rightarrow> s
      | Some name \<Rightarrow>
          let ps = (case sp_topics s name of None \<Rightarrow> Map.empty | Some ps \<Rightarrow> ps)
          in if bid \<notin> dom (sp_brokers s) \<or> pid \<in> dom ps then s
             else s\<lparr>sp_topics := (sp_topics s)(name \<mapsto> ps(pid \<mapsto> (bid, ok, err)))\<rparr>)"
| "spec_call CCloseTopic s = s\<lparr>sp_current := None\<rparr>"
| "spec_call _ s = s"

definition spec_run :: "TMetaCall list \<Rightarrow> TMetaSpec" where
  "spec_run calls = fold spec_call calls spec_init"

text \<open>The histories of calls on a new builder that respect the states asserted in the code.\<close>

inductive mb_run :: "TCounters \<Rightarrow> TMetaCall list \<Rightarrow> TMetaBuilder \<Rightarrow> bool" for c where
  run_start: "mb_run c [] (new_TMetaBuilder c)"
| run_open_brokers: "mb_run c cs b \<Longrightarrow> mb_State b = MInitial \<Longrightarrow>
    mb_run c (cs @ [COpenBrokerList]) (mb_OpenBrokerList b)"
| run_add_broker: "mb_run c cs b \<Longrightarrow> mb_State b = AddingBrokers \<Longrightarrow>
    mb_run c (cs @ [CAddBroker i host port]) (mb_AddBroker i host port b)"
| run_close_brokers: "mb_run c cs b \<Longrightarrow> mb_State b = AddingBrokers \<Longrightarrow>
    mb_run c (cs @ [CCloseBrokerList]) (mb_CloseBrokerList b)"
| run_open_topic: "mb_run c cs b \<Longrightarrow> mb_State b = AddingTopics \<Longrightarrow>
    mb_run c (cs @ [COpenTopic name]) (snd (mb_OpenTopic name b))"
| run_add_partition: "mb_run c cs b \<Longrightarrow> mb_State b = AddingOneTopic \<Longrightarrow>
    mb_run c (cs @ [CAddPartition pid bid ok err]) (mb_AddPartitionToTopic pid bid ok err b)"
| run_close_topic: "mb_run c cs b \<Longrightarrow> mb_State b = AddingOneTopic \<Longrightarrow> is_shuffle sh \<Longrightarrow>
    mb_run c (cs @ [CCloseTopic]) (mb_CloseTopic sh b)"

section \<open>The builder implements the specification\<close>

definition part_view :: "TBroker list \<Rightarrow> bool \<Rightarrow> TPartition \<Rightarrow> int \<times> partition_info" where
  "part_view brokers ok p = (pa_Id p, (br_Id (brokers ! pa_BrokerIndex p), ok, pa_ErrorCode p))"

definition topic_alist :: "TBroker list \<Rightarrow> TTopic \<Rightarrow> (int \<times> partition_info) list" where
  "topic_alist brokers t = map (part_view brokers True) (tp_OkPartitions t) @
     map (part_view brokers False) (tp_OutOfServicePartitions t)"

definition broker_view :: "TBroker list \<Rightarrow> int \<rightharpoonup> string \<times> int" where
  "broker_view brokers = map_of (map (\<lambda>b. (br_Id b, (br_Hostname b, br_Port b))) brokers)"

definition topics_view ::
  "TBroker list \<Rightarrow> (string \<times> nat) list \<Rightarrow> TTopic list \<Rightarrow> string \<rightharpoonup> (int \<rightharpoonup> partition_info)" where
  "topics_view brokers names ts =
     (\<lambda>n. map_option (\<lambda>i. map_of (topic_alist brokers (ts ! i))) (map_of names n))"

definition mb_abs :: "TMetaBuilder \<Rightarrow> TMetaSpec" where
  "mb_abs b = \<lparr>sp_brokers = broker_view (mb_Brokers b),
     sp_topics = topics_view (mb_Brokers b) (mb_TopicNameToIndex b) (mb_Topics b),
     sp_current = (if mb_State b = AddingOneTopic then Some (mb_CurrentTopicName b) else None)\<rparr>"

lemma topic_alist_keys: "map fst (topic_alist brokers t) = map pa_Id (parts t)"
  by (simp add: topic_alist_def part_view_def)

lemma topic_view_cong:
  assumes "parts_wf (length brokers) t" "map br_Id brokers' = map br_Id brokers"
    and "mset (tp_OkPartitions t') = mset (tp_OkPartitions t)"
    and "mset (tp_OutOfServicePartitions t') = mset (tp_OutOfServicePartitions t)"
  shows "map_of (topic_alist brokers' t') = map_of (topic_alist brokers t)"
proof -
  have "length brokers' = length brokers" using assms(2) by (metis length_map)
  then have "br_Id (brokers' ! i) = br_Id (brokers ! i)" if "i < length brokers" for i
    using assms(2) that by (metis nth_map)
  then have "part_view brokers' ok p = part_view brokers ok p" if "p \<in> set (parts t)" for ok p
    using assms(1) that by (auto simp: part_view_def parts_wf_def)
  moreover have "set (tp_OkPartitions t') = set (tp_OkPartitions t)"
    "set (tp_OutOfServicePartitions t') = set (tp_OutOfServicePartitions t)"
    using assms(3,4) by (auto dest: mset_eq_setD)
  ultimately have "set (topic_alist brokers' t') = set (topic_alist brokers t)"
    by (auto simp: topic_alist_def)
  moreover have "parts_wf (length brokers) t'"
    using assms(1) by (rule parts_wf_mset) (simp add: assms(3,4))
  ultimately show ?thesis
    using assms(1) by (intro map_of_inject_set [THEN iffD2]) (auto simp: topic_alist_keys parts_wf_def)
qed

lemma broker_view_update [simp]: "broker_view (mark_all S brokers) = broker_view brokers"
proof -
  have "map (\<lambda>b. (br_Id b, (br_Hostname b, br_Port b))) (mark_all S brokers) =
      map (\<lambda>b. (br_Id b, (br_Hostname b, br_Port b))) brokers"
    by (rule nth_equalityI) auto
  then show ?thesis by (simp add: broker_view_def)
qed

lemma dom_broker_view: "dom (broker_view brokers) = br_Id ` set brokers"
  by (force simp: broker_view_def dom_map_of_conv_image_fst)

lemma map_of_index:
  "map_of (zip xs [0..<length xs]) x = Some i \<Longrightarrow> i < length xs \<and> xs ! i = x"
  by (auto dest!: map_of_SomeD simp: set_zip)

lemma map_of_index_None: "map_of (zip xs [0..<length xs]) x = None \<longleftrightarrow> x \<notin> set xs"
  by (simp add: map_of_zip_is_None)

lemma names_wf_index: "names_wf names n \<Longrightarrow> map_of names x = Some i \<Longrightarrow> i < n"
  unfolding names_wf_def by (metis map_of_SomeD imageI image_set snd_conv set_upt atLeastLessThan_iff)

lemma topics_view_snoc:
  assumes "names_wf names (length ts)" "name \<notin> fst ` set names"
  shows "topics_view brokers (names @ [(name, length ts)]) (ts @ [t]) =
    (topics_view brokers names ts)(name \<mapsto> map_of (topic_alist brokers t))"
proof
  fix x
  show "topics_view brokers (names @ [(name, length ts)]) (ts @ [t]) x =
    ((topics_view brokers names ts)(name \<mapsto> map_of (topic_alist brokers t))) x"
  proof (cases "x = name")
    case True
    moreover have "map_of names name = None" using assms(2) by (simp add: map_of_eq_None_iff)
    ultimately show ?thesis by (simp add: topics_view_def map_add_def)
  next
    case False
    then show ?thesis using names_wf_index [OF assms(1), of x]
      by (cases "map_of names x") (auto simp: topics_view_def map_add_def nth_append)
  qed
qed

lemma AddBroker_ok:
  assumes "mb_wf b" "mb_State b = AddingBrokers"
  shows "mb_wf (mb_AddBroker i host port b) \<and>
    mb_abs (mb_AddBroker i host port b) = spec_call (CAddBroker i host port) (mb_abs b)"
proof -
  let ?n = "length (mb_Brokers b)"
  have wf: "mb_BrokerMap b = zip (map br_Id (mb_Brokers b)) [0..<?n]" "mb_Topics b = []"
    "mb_TopicNameToIndex b = []" "md_wf (mb_Brokers b) (mb_TopicBrokerVec b) []"
    using assms by (auto simp: mb_wf_def names_wf_def)
  have keys: "i \<in> fst ` set (mb_BrokerMap b) \<longleftrightarrow> i \<in> br_Id ` set (mb_Brokers b)"
    unfolding wf(1) by (metis map_of_eq_None_iff map_of_index_None length_map image_set)
  show ?thesis
  proof (cases "i \<in> br_Id ` set (mb_Brokers b)")
    case True
    then show ?thesis using assms keys
      by (simp add: mb_AddBroker_def mb_count_def mb_wf_def mb_abs_def dom_broker_view) force
  next
    case False
    then have "md_wf (mb_Brokers b @ [new_TBroker i host port]) (mb_TopicBrokerVec b) []"
      using wf(4) by (auto simp: md_wf_def new_TBroker_def nth_append less_Suc_eq)
    moreover have "broker_view (mb_Brokers b @ [new_TBroker i host port]) =
        (broker_view (mb_Brokers b))(i \<mapsto> (host, port))"
      using False dom_broker_view [of "mb_Brokers b"]
      by (fastforce simp: broker_view_def new_TBroker_def map_add_def split: option.splits)
    ultimately show ?thesis
      using False keys wf assms
      by (simp add: mb_AddBroker_def mb_wf_def mb_abs_def dom_broker_view map_insert_def new_TBroker_def
          topics_view_def)
  qed
qed

lemma OpenTopic_ok:
  assumes "mb_wf b" "mb_State b = AddingTopics"
  shows "mb_wf (snd (mb_OpenTopic name b)) \<and>
    mb_abs (snd (mb_OpenTopic name b)) = spec_call (COpenTopic name) (mb_abs b)"
proof -
  let ?ns = "mb_TopicNameToIndex b" and ?ts = "mb_Topics b" and ?b = "mb_Brokers b"
  have wf: "names_wf ?ns (length ?ts)" "md_wf ?b (mb_TopicBrokerVec b) ?ts"
    using assms by (auto simp: mb_wf_def)
  have dom: "name \<in> dom (topics_view ?b ?ns ?ts) \<longleftrightarrow> name \<in> fst ` set ?ns"
    by (auto simp: topics_view_def dom_def) (metis map_of_eq_None_iff not_None_eq fst_conv image_eqI)+
  show ?thesis
  proof (cases "name \<in> fst ` set ?ns")
    case True
    then show ?thesis using assms dom
      by (simp add: mb_OpenTopic_def mb_count_def mb_wf_def mb_abs_def)
  next
    case False
    then have "names_wf (?ns @ [(name, length ?ts)]) (Suc (length ?ts))"
      using wf(1) by (auto simp: names_wf_def)
    moreover have "topics_view ?b (?ns @ [(name, length ?ts)]) (?ts @ [new_TTopic]) =
        (topics_view ?b ?ns ?ts)(name \<mapsto> Map.empty)"
      using topics_view_snoc [OF wf(1) False, of ?b new_TTopic]
      by (simp add: topic_alist_def new_TTopic_def)
    ultimately show ?thesis
      using False dom wf assms
      by (simp add: mb_OpenTopic_def mb_wf_def mb_abs_def map_insert_def topic_open_def parts_wf_def
          new_TTopic_def)
  qed
qed

lemma mb_wf_open_cases:
  assumes "mb_wf b" "mb_State b = AddingOneTopic"
  obtains ts t ns where
    "mb_BrokerMap b = zip (map br_Id (mb_Brokers b)) [0..<length (mb_Brokers b)]"
    "mb_Topics b = ts @ [t]" "md_wf (mb_Brokers b) (mb_TopicBrokerVec b) ts"
    "topic_open (length (mb_Brokers b)) t" "mb_CurrentTopicIndex b = length ts"
    "mb_CurrentTopicPartitions b = pa_Id ` set (parts t)"
    "mb_TopicNameToIndex b = ns @ [(mb_CurrentTopicName b, length ts)]"
    "names_wf ns (length ts)" "mb_CurrentTopicName b \<notin> fst ` set ns"
  using assms by (auto simp: mb_wf_def names_wf_def)

lemma mb_wf_openI:
  assumes "mb_BrokerMap b = zip (map br_Id (mb_Brokers b)) [0..<length (mb_Brokers b)]"
    "mb_Topics b = ts @ [t]" "md_wf (mb_Brokers b) (mb_TopicBrokerVec b) ts"
    "topic_open (length (mb_Brokers b)) t" "mb_CurrentTopicIndex b = length ts"
    "mb_CurrentTopicPartitions b = pa_Id ` set (parts t)"
    "mb_TopicNameToIndex b = ns @ [(mb_CurrentTopicName b, length ts)]"
    "names_wf ns (length ts)" "mb_CurrentTopicName b \<notin> fst ` set ns" "mb_State b = AddingOneTopic"
  shows "mb_wf b"
  using assms by (auto simp: mb_wf_def names_wf_def)

definition add_part :: "bool \<Rightarrow> TPartition \<Rightarrow> TTopic \<Rightarrow> TTopic" where
  "add_part ok p t =
     (if ok then t\<lparr>tp_OkPartitions := tp_OkPartitions t @ [p]\<rparr>
      else t\<lparr>tp_OutOfServicePartitions := tp_OutOfServicePartitions t @ [p]\<rparr>)"

lemma add_part_open:
  assumes "topic_open nb t" "pa_Id p \<notin> pa_Id ` set (parts t)" "pa_BrokerIndex p < nb"
  shows "topic_open nb (add_part ok p t)"
    and "pa_Id ` set (parts (add_part ok p t)) = insert (pa_Id p) (pa_Id ` set (parts t))"
  using assms by (auto simp: topic_open_def parts_wf_def add_part_def)

lemma add_part_view:
  assumes "pa_Id p \<notin> pa_Id ` set (parts t)"
  shows "map_of (topic_alist brokers (add_part ok p t)) =
    (map_of (topic_alist brokers t))(pa_Id p \<mapsto> (br_Id (brokers ! pa_BrokerIndex p), ok, pa_ErrorCode p))"
proof -
  have "pa_Id p \<notin> fst ` set (map (part_view brokers True) (tp_OkPartitions t))"
    "pa_Id p \<notin> fst ` set (map (part_view brokers False) (tp_OutOfServicePartitions t))"
    using assms by (auto simp: part_view_def image_iff)
  then have "map_of (map (part_view brokers True) (tp_OkPartitions t)) (pa_Id p) = None"
    "map_of (map (part_view brokers False) (tp_OutOfServicePartitions t)) (pa_Id p) = None"
    unfolding map_of_eq_None_iff .
  then show ?thesis
    by (auto simp: add_part_def topic_alist_def part_view_def map_add_def fun_eq_iff
        split: option.splits)
qed

lemma mb_count_ok [simp]: "mb_wf (mb_count n b) = mb_wf b" "mb_abs (mb_count n b) = mb_abs b"
  by (cases "mb_State b"; simp add: mb_count_def mb_wf_def mb_abs_def)+

lemma AddPartition_ok:
  assumes "mb_wf b" "mb_State b = AddingOneTopic"
  shows "mb_wf (mb_AddPartitionToTopic pid bid ok err b) \<and>
    mb_abs (mb_AddPartitionToTopic pid bid ok err b) = spec_call (CAddPartition pid bid ok err) (mb_abs b)"
  using assms
proof (rule mb_wf_open_cases)
  fix ts t ns
  assume m: "mb_BrokerMap b = zip (map br_Id (mb_Brokers b)) [0..<length (mb_Brokers b)]"
    and ts: "mb_Topics b = ts @ [t]" "md_wf (mb_Brokers b) (mb_TopicBrokerVec b) ts"
    and t: "topic_open (length (mb_Brokers b)) t" "mb_CurrentTopicIndex b = length ts"
    and ids: "mb_CurrentTopicPartitions b = pa_Id ` set (parts t)"
    and ns: "mb_TopicNameToIndex b = ns @ [(mb_CurrentTopicName b, length ts)]"
      "names_wf ns (length ts)" "mb_CurrentTopicName b \<notin> fst ` set ns"
  let ?br = "mb_Brokers b" and ?name = "mb_CurrentTopicName b"
  have view: "topics_view ?br (mb_TopicNameToIndex b) (ts @ [t']) =
      (topics_view ?br ns ts)(?name \<mapsto> map_of (topic_alist ?br t'))" for t'
    unfolding ns(1) using ns(2,3) by (rule topics_view_snoc)
  have dom: "pid \<in> dom (map_of (topic_alist ?br t)) \<longleftrightarrow> pid \<in> pa_Id ` set (parts t)"
    unfolding dom_map_of_conv_image_fst by (metis image_set topic_alist_keys)
  show ?thesis
  proof (cases "map_of (mb_BrokerMap b) bid")
    case None
    then have "bid \<notin> dom (broker_view ?br)"
      unfolding m dom_broker_view using map_of_index_None [of "map br_Id ?br" bid] by simp
    then have "spec_call (CAddPartition pid bid ok err) (mb_abs b) = mb_abs b"
      using assms(2) view [of t] ts(1) by (simp add: mb_abs_def)
    moreover have "mb_AddPartitionToTopic pid bid ok err b = mb_count ''MetadataPartitionHasUnknownBroker'' b"
      using None by (simp add: mb_AddPartitionToTopic_def)
    ultimately show ?thesis using assms(1) by simp
  next
    case (Some i)
    then have i: "i < length ?br" "br_Id (?br ! i) = bid"
      using map_of_index [of "map br_Id ?br" bid i] unfolding m by auto
    then have known: "bid \<in> dom (broker_view ?br)" unfolding dom_broker_view by auto
    show ?thesis
    proof (cases "pid \<in> pa_Id ` set (parts t)")
      case True
      then have "spec_call (CAddPartition pid bid ok err) (mb_abs b) = mb_abs b"
        using dom assms(2) view [of t] ts(1) by (simp add: mb_abs_def)
      moreover have "mb_AddPartitionToTopic pid bid ok err b = mb_count ''MetadataDuplicatePartition'' b"
        using Some i True ids by (simp add: mb_AddPartitionToTopic_def)
      ultimately show ?thesis using assms(1) by simp
    next
      case False
      define p where "p = \<lparr>pa_Id = pid, pa_BrokerIndex = i, pa_ErrorCode = err\<rparr>"
      define b' where "b' = b\<lparr>mb_CurrentTopicPartitions := insert pid (mb_CurrentTopicPartitions b),
        mb_Topics := ts @ [add_part ok p t]\<rparr>"
      have eq: "mb_AddPartitionToTopic pid bid ok err b = b'"
        using False Some i ids ts t
        by (simp add: mb_AddPartitionToTopic_def Let_def add_part_def p_def b'_def)
      have p: "pa_Id p \<notin> pa_Id ` set (parts t)" "pa_BrokerIndex p < length ?br"
        using False i by (simp_all add: p_def)
      have op: "topic_open (length ?br) (add_part ok p t)"
        "insert pid (pa_Id ` set (parts t)) = pa_Id ` set (parts (add_part ok p t))"
        using add_part_open [OF t(1) p, of ok] by (simp_all add: p_def)
      have "mb_wf b'"
        by (rule mb_wf_openI [where ts=ts and t="add_part ok p t" and ns=ns])
          (simp_all add: b'_def m ts t ns ids assms op(1) op(2) [simplified])
      moreover have "mb_abs b' = spec_call (CAddPartition pid bid ok err) (mb_abs b)"
        using False known dom assms(2) i(2)
        by (simp add: mb_abs_def b'_def view ts add_part_view [OF p(1)]) (simp add: p_def)
      ultimately show ?thesis unfolding eq by blast
    qed
  qed
qed

lemma topics_view_cong:
  assumes "names_wf names (length ts)" "\<forall>t \<in> set ts. parts_wf (length brokers) t"
    and "map br_Id brokers' = map br_Id brokers"
  shows "topics_view brokers' names ts = topics_view brokers names ts"
proof
  fix x
  show "topics_view brokers' names ts x = topics_view brokers names ts x"
    using names_wf_index [OF assms(1), of x] assms(2) topic_view_cong [OF _ assms(3) refl refl]
    by (cases "map_of names x") (simp_all add: topics_view_def)
qed

lemma CloseTopic_ok:
  assumes "mb_wf b" "mb_State b = AddingOneTopic" "is_shuffle sh"
  shows "mb_wf (mb_CloseTopic sh b) \<and> mb_State (mb_CloseTopic sh b) = AddingTopics \<and>
    mb_abs (mb_CloseTopic sh b) = spec_call CCloseTopic (mb_abs b)"
  using assms(1,2)
proof (rule mb_wf_open_cases)
  fix ts t ns
  assume m: "mb_BrokerMap b = zip (map br_Id (mb_Brokers b)) [0..<length (mb_Brokers b)]"
    and ts: "mb_Topics b = ts @ [t]" "md_wf (mb_Brokers b) (mb_TopicBrokerVec b) ts"
    and t: "topic_open (length (mb_Brokers b)) t" "mb_CurrentTopicIndex b = length ts"
    and ns: "mb_TopicNameToIndex b = ns @ [(mb_CurrentTopicName b, length ts)]"
      "names_wf ns (length ts)" "mb_CurrentTopicName b \<notin> fst ` set ns"
  let ?br = "mark_all (pa_BrokerIndex ` set (tp_OkPartitions t)) (mb_Brokers b)"
  from CloseTopic_open [OF assms(3) ts(1) t(2,1)] obtain new ids where
    close: "mb_CloseTopic sh b = b\<lparr>mb_Brokers := ?br, mb_TopicBrokerVec := mb_TopicBrokerVec b @ ids,
        mb_Topics := ts @ [closed_topic sh new t], mb_CurrentTopicName := [], mb_State := AddingTopics\<rparr>"
    and new: "topic_wf (length (mb_Brokers b)) (mb_TopicBrokerVec b @ ids) (closed_topic sh new t)"
    "tiles (length (mb_TopicBrokerVec b)) (vals new) (length (mb_TopicBrokerVec b @ ids))" .
  have "md_wf ?br (mb_TopicBrokerVec b @ ids) (ts @ [closed_topic sh new t])"
    using md_wf_append [OF ts(2) new(1)] new(2) closed_topic_parts(2) [OF assms(3), of new t]
    by (simp add: closed_topic_def [of sh new t] Let_def)
  then have "mb_wf (mb_CloseTopic sh b)"
    unfolding close using m ns by (auto simp: mb_wf_def names_wf_def)
  moreover have "topics_view ?br (mb_TopicNameToIndex b) (ts @ [closed_topic sh new t]) =
      topics_view (mb_Brokers b) (mb_TopicNameToIndex b) (ts @ [t])"
  proof -
    have "topics_view ?br ns ts = topics_view (mb_Brokers b) ns ts"
      using ns(2) ts(2) by (intro topics_view_cong) (auto simp: md_wf_def topic_wf_def)
    moreover have "map_of (topic_alist ?br (closed_topic sh new t)) = map_of (topic_alist (mb_Brokers b) t)"
      using t(1) closed_topic_parts [OF assms(3)] by (intro topic_view_cong) (auto simp: topic_open_def)
    ultimately show ?thesis unfolding ns(1) topics_view_snoc [OF ns(2,3)] by simp
  qed
  ultimately show ?thesis using ts by (simp add: close mb_abs_def)
qed

lemma mb_run_ok: "mb_run c cs b \<Longrightarrow> mb_wf b \<and> mb_abs b = spec_run cs"
proof (induction rule: mb_run.induct)
  case run_start
  then show ?case
    by (simp add: mb_wf_def mb_abs_def new_TMetaBuilder_def names_wf_def md_wf_def all_chunks_def
        spec_run_def spec_init_def broker_view_def topics_view_def fun_eq_iff)
next
  case (run_open_brokers cs b)
  then show ?case
    by (clarsimp simp: mb_OpenBrokerList_def mb_wf_def mb_abs_def spec_run_def)
next
  case (run_add_broker cs b i host port)
  then show ?case using AddBroker_ok [of b] by (simp add: spec_run_def del: spec_call.simps)
next
  case (run_close_brokers cs b)
  then show ?case
    by (clarsimp simp: mb_CloseBrokerList_def mb_wf_def mb_abs_def spec_run_def)
next
  case (run_open_topic cs b name)
  then show ?case using OpenTopic_ok [of b] by (simp add: spec_run_def del: spec_call.simps)
next
  case (run_add_partition cs b pid bid ok err)
  then show ?case using AddPartition_ok [of b] by (simp add: spec_run_def del: spec_call.simps)
next
  case (run_close_topic cs b sh)
  then show ?case using CloseTopic_ok [of b] by (simp add: spec_run_def del: spec_call.simps)
qed

section \<open>Regrouping the brokers\<close>

text \<open>What \<open>std::sort\<close> promises for the comparison in \<open>GroupInServiceBrokers\<close>.\<close>

definition is_reorder :: "(bool list \<Rightarrow> nat list) \<Rightarrow> bool" where
  "is_reorder ro \<longleftrightarrow>
     (\<forall>fl. mset (ro fl) = mset [0..<length fl] \<and> sorted_wrt (\<lambda>i j. fl ! j \<longrightarrow> fl ! i) (ro fl))"

lemma reorder_permutes:
  assumes "mset order = mset [0..<n]"
  shows "length order = n" "distinct order" "set order = {..<n}"
  using mset_eq_length [OF assms] mset_eq_imp_distinct_iff [OF assms] mset_eq_setD [OF assms]
  by (simp_all add: atLeast0LessThan)

lemma old_indexes_prefix:
  assumes "distinct order" "\<forall>i \<in> set order. i < length v" "k \<le> length order" "i < k"
  shows "fold (\<lambda>i v. v[order ! i := i]) [0..<k] v ! (order ! i) = i \<and>
    length (fold (\<lambda>i v. v[order ! i := i]) [0..<k] v) = length v"
  using assms(3,4)
proof (induction k)
  case (Suc k)
  have len: "length (fold (\<lambda>i v. v[order ! i := i]) [0..<m] v) = length v" for m
    by (induction m) auto
  have "order ! i < length v" "order ! k < length v" using assms(2) Suc.prems by auto
  then show ?case
    using Suc len assms(1) by (cases "i = k") (auto simp: nth_list_update nth_eq_iff_index_eq)
qed simp

lemma old_indexes_to_new:
  assumes "mset order = mset [0..<n]" "j < n"
  shows "old_indexes_to_new order ! j < n" "order ! (old_indexes_to_new order ! j) = j"
proof -
  note p = reorder_permutes [OF assms(1)]
  from assms(2) p obtain i where i: "i < n" "j = order ! i" by (metis in_set_conv_nth lessThan_iff)
  then have "old_indexes_to_new order ! j = i"
    using old_indexes_prefix [of order "replicate n 0" n i] p by (simp add: old_indexes_to_new_def)
  with i show "old_indexes_to_new order ! j < n" "order ! (old_indexes_to_new order ! j) = j" by simp_all
qed

lemma old_indexes_inj:
  assumes "mset order = mset [0..<n]"
  shows "inj_on (\<lambda>i. old_indexes_to_new order ! i) {..<n}"
  using old_indexes_to_new(2) [OF assms] by (metis (mono_tags, lifting) inj_onI lessThan_iff)

lemma fold_map_insert:
  assumes "distinct (map fst m)" "inj_on f (fst ` set m)" "f ` fst ` set m \<inter> fst ` set acc = {}"
  shows "fold (\<lambda>(i, c) m. map_insert (f i) c m) m acc = acc @ map (\<lambda>(i, c). (f i, c)) m"
  using assms
proof (induction m arbitrary: acc)
  case (Cons x m)
  obtain i c where x: "x = (i, c)" by force
  with Cons.prems have new: "map_insert (f i) c acc = acc @ [(f i, c)]" by (auto simp: map_insert_def)
  have "f i \<notin> f ` fst ` set m" using Cons.prems x by (auto simp: inj_on_def)
  then have "fold (\<lambda>(i, c) m. map_insert (f i) c m) m (acc @ [(f i, c)]) =
      (acc @ [(f i, c)]) @ map (\<lambda>(i, c). (f i, c)) m"
    using Cons.prems x by (intro Cons.IH) (auto simp: inj_on_def)
  then show ?case by (simp add: x new)
qed simp

lemma parts_wf_reindex:
  assumes "mset order = mset [0..<n]" "parts_wf n t"
  shows "parts_wf n (reindex_topic (old_indexes_to_new order) t)"
  using assms(2) old_indexes_to_new(1) [OF assms(1)]
  by (auto simp: parts_wf_def reindex_topic_def reindex_partition_def comp_def)

lemma reindex_choices:
  assumes "mset order = mset [0..<n]" "parts_wf n t" "choices_wf vec t"
  shows "tp_PartitionChoiceMap (reindex_topic (old_indexes_to_new order) t) =
    map (\<lambda>(i, c). (old_indexes_to_new order ! i, c)) (tp_PartitionChoiceMap t)"
proof -
  have "fst ` set (tp_PartitionChoiceMap t) \<subseteq> {..<n}"
    using assms(2,3) by (auto simp: parts_wf_def choices_wf_def)
  then have "inj_on (\<lambda>i. old_indexes_to_new order ! i) (fst ` set (tp_PartitionChoiceMap t))"
    using old_indexes_inj [OF assms(1)] by (rule inj_on_subset [rotated])
  then show ?thesis
    using fold_map_insert [of "tp_PartitionChoiceMap t" "\<lambda>i. old_indexes_to_new order ! i" "[]"] assms(3)
    by (simp add: reindex_topic_def choices_wf_def)
qed

lemma choice_ids_reindex:
  assumes "mset order = mset [0..<n]" "parts_wf n t" "b < n"
  shows "choice_ids (reindex_topic (old_indexes_to_new order) t) (old_indexes_to_new order ! b) =
    choice_ids t b"
proof -
  let ?o = "old_indexes_to_new order"
  have "\<forall>p \<in> set (tp_OkPartitions t). (?o ! pa_BrokerIndex p = ?o ! b) = (pa_BrokerIndex p = b)"
    using assms inj_onD [OF old_indexes_inj [OF assms(1)]] by (fastforce simp: parts_wf_def)
  then have "filter (\<lambda>p. ?o ! pa_BrokerIndex p = ?o ! b) (tp_OkPartitions t) =
      filter (\<lambda>p. pa_BrokerIndex p = b) (tp_OkPartitions t)"
    by (intro filter_cong) auto
  then show ?thesis
    by (simp add: choice_ids_def reindex_topic_def reindex_partition_def filter_map comp_def)
qed

lemma topic_wf_reindex:
  assumes "mset order = mset [0..<n]" "topic_wf n vec t"
  shows "topic_wf n vec (reindex_topic (old_indexes_to_new order) t)"
proof -
  let ?o = "old_indexes_to_new order"
  have p: "parts_wf n t" "choices_wf vec t" "all_wf t" using assms(2) by (simp_all add: topic_wf_def)
  have small: "i < n" if "(i, c) \<in> set (tp_PartitionChoiceMap t)" for i c
    using that p by (force simp: parts_wf_def choices_wf_def)
  have "all_wf (reindex_topic ?o t)"
    using p(3) by (auto simp: all_wf_def reindex_topic_def reindex_partition_def comp_def
        simp flip: image_mset_union)
  moreover have "choices_wf vec (reindex_topic ?o t)"
  proof -
    have "inj_on (\<lambda>i. ?o ! i) (fst ` set (tp_PartitionChoiceMap t))"
      using small by (intro inj_on_subset [OF old_indexes_inj [OF assms(1)]]) auto
    then have "distinct (map (\<lambda>i. ?o ! i) (map fst (tp_PartitionChoiceMap t)))"
      using p(2) by (simp add: distinct_map choices_wf_def comp_inj_on)
    then have "distinct (map fst (tp_PartitionChoiceMap (reindex_topic ?o t)))"
      by (simp add: reindex_choices [OF assms(1) p(1,2)] comp_def case_prod_beta)
    moreover have "fst ` set (tp_PartitionChoiceMap (reindex_topic ?o t)) =
        pa_BrokerIndex ` set (tp_OkPartitions (reindex_topic ?o t))"
    proof -
      have "(\<lambda>i. ?o ! i) ` fst ` set (tp_PartitionChoiceMap t) = (\<lambda>i. ?o ! i) ` pa_BrokerIndex ` set (tp_OkPartitions t)"
        using p(2) by (simp add: choices_wf_def)
      then show ?thesis
        unfolding reindex_choices [OF assms(1) p(1,2)]
        by (simp add: reindex_topic_def reindex_partition_def image_image case_prod_beta)
    qed
    ultimately show ?thesis
      using p(2) small choice_ids_reindex [OF assms(1) p(1)]
      by (fastforce simp: choices_wf_def reindex_choices [OF assms(1) p(1,2)])
  qed
  ultimately show ?thesis using parts_wf_reindex [OF assms(1) p(1)] by (simp add: topic_wf_def)
qed

lemma old_indexes_of_order:
  assumes "mset order = mset [0..<n]" "i < n"
  shows "old_indexes_to_new order ! (order ! i) = i"
proof -
  note p = reorder_permutes [OF assms(1)]
  have "order ! i < n" using nth_mem [of i order] p assms(2) by simp
  from old_indexes_to_new [OF assms(1) this] p assms(2) show ?thesis
    by (simp add: nth_eq_iff_index_eq)
qed

lemma in_service_reindex:
  assumes "mset order = mset [0..<n]" "parts_wf n t" "i < n"
  shows "i \<in> pa_BrokerIndex ` set (tp_OkPartitions (reindex_topic (old_indexes_to_new order) t)) \<longleftrightarrow>
    order ! i \<in> pa_BrokerIndex ` set (tp_OkPartitions t)"
proof -
  let ?o = "old_indexes_to_new order"
  have img: "pa_BrokerIndex ` set (tp_OkPartitions (reindex_topic ?o t)) =
      (\<lambda>j. ?o ! j) ` pa_BrokerIndex ` set (tp_OkPartitions t)"
    by (simp add: reindex_topic_def reindex_partition_def image_image)
  show ?thesis
  proof
    assume "i \<in> pa_BrokerIndex ` set (tp_OkPartitions (reindex_topic ?o t))"
    then obtain j where j: "j \<in> pa_BrokerIndex ` set (tp_OkPartitions t)" "i = ?o ! j"
      unfolding img by blast
    then have "j < n" using assms(2) by (auto simp: parts_wf_def)
    with j old_indexes_to_new(2) [OF assms(1)]
    show "order ! i \<in> pa_BrokerIndex ` set (tp_OkPartitions t)" by simp
  next
    assume "order ! i \<in> pa_BrokerIndex ` set (tp_OkPartitions t)"
    then show "i \<in> pa_BrokerIndex ` set (tp_OkPartitions (reindex_topic ?o t))"
      unfolding img using old_indexes_of_order [OF assms(1,3)] by (metis (no_types) imageI)
  qed
qed

lemma mset_permuted:
  assumes "mset order = mset [0..<length xs]"
  shows "mset (map (\<lambda>i. xs ! i) order) = mset xs"
proof -
  have "mset (map (\<lambda>i. xs ! i) order) = image_mset (\<lambda>i. xs ! i) (mset [0..<length xs])"
    unfolding mset_map assms ..
  also have "\<dots> = mset xs" unfolding mset_map [symmetric] map_nth ..
  finally show ?thesis .
qed

lemma md_wf_regroup:
  assumes "md_wf brokers vec ts" "mset order = mset [0..<length brokers]"
  shows "md_wf (map (\<lambda>i. brokers ! i) order) vec (map (reindex_topic (old_indexes_to_new order)) ts)"
proof -
  let ?br = "map (\<lambda>i. brokers ! i) order" and ?o = "old_indexes_to_new order"
  note p = reorder_permutes [OF assms(2)]
  have wf: "topic_wf (length brokers) vec t" if "t \<in> set ts" for t
    using assms(1) that by (simp add: md_wf_def)
  have "mset ?br = mset brokers" using assms(2) by (rule mset_permuted)
  then have "mset (map br_Id ?br) = mset (map br_Id brokers)" by (simp only: mset_map)
  from mset_eq_imp_distinct_iff [OF this] have "distinct (map br_Id ?br)"
    using assms(1) by (simp only: md_wf_def)
  moreover have "all_chunks (map (reindex_topic ?o) ts) = all_chunks ts"
  proof -
    have "vals (tp_PartitionChoiceMap (reindex_topic ?o t)) = vals (tp_PartitionChoiceMap t)"
      if "t \<in> set ts" for t
      using wf [OF that] reindex_choices [OF assms(2), of t vec]
      by (simp add: topic_wf_def comp_def case_prod_beta)
    then show ?thesis by (simp add: all_chunks_def comp_def cong: map_cong)
  qed
  moreover have "br_InService (?br ! i) \<longleftrightarrow>
      (\<exists>t \<in> set ts. i \<in> pa_BrokerIndex ` set (tp_OkPartitions (reindex_topic ?o t)))"
    if "i < length brokers" for i
  proof -
    have "order ! i < length brokers" using nth_mem [of i order] p that by simp
    then show ?thesis
      using assms(1) that p(1) in_service_reindex [OF assms(2) _ that] wf
      by (simp add: md_wf_def topic_wf_def)
  qed
  ultimately show ?thesis
    using assms(1) wf topic_wf_reindex [OF assms(2)] p(1) by (simp add: md_wf_def)
qed

lemma views_regroup:
  assumes "md_wf brokers vec ts" "mset order = mset [0..<length brokers]" "names_wf names (length ts)"
  shows "broker_view (map (\<lambda>i. brokers ! i) order) = broker_view brokers"
    and "topics_view (map (\<lambda>i. brokers ! i) order) names
           (map (reindex_topic (old_indexes_to_new order)) ts) = topics_view brokers names ts"
proof -
  let ?br = "map (\<lambda>i. brokers ! i) order" and ?o = "old_indexes_to_new order"
  note p = reorder_permutes [OF assms(2)]
  have ids: "distinct (map br_Id ?br)" "distinct (map br_Id brokers)"
    using assms(1) md_wf_regroup [OF assms(1,2)] by (simp_all add: md_wf_def)
  have "mset ?br = mset brokers" using assms(2) by (rule mset_permuted)
  then have "set ?br = set brokers" by (rule mset_eq_setD)
  then have "set (map (\<lambda>b. (br_Id b, (br_Hostname b, br_Port b))) ?br) =
      set (map (\<lambda>b. (br_Id b, (br_Hostname b, br_Port b))) brokers)"
    by (simp only: set_map)
  then show "broker_view ?br = broker_view brokers"
    unfolding broker_view_def using ids
    by (intro map_of_inject_set [THEN iffD2]) (simp_all add: comp_def)
  have "part_view ?br ok (reindex_partition ?o q) = part_view brokers ok q"
    if "t \<in> set ts" "q \<in> set (parts t)" for t ok q
  proof -
    have "pa_BrokerIndex q < length brokers"
      using that assms(1) by (auto simp: md_wf_def topic_wf_def parts_wf_def)
    then show ?thesis
      using old_indexes_to_new [OF assms(2)] p(1) by (simp add: part_view_def reindex_partition_def)
  qed
  then have "topic_alist ?br (reindex_topic ?o t) = topic_alist brokers t" if "t \<in> set ts" for t
    using that by (simp add: topic_alist_def reindex_topic_def)
  then have "topics_view ?br names (map (reindex_topic ?o) ts) x = topics_view brokers names ts x" for x
    using names_wf_index [OF assms(3), of x] by (cases "map_of names x") (simp_all add: topics_view_def)
  then show "topics_view ?br names (map (reindex_topic ?o) ts) = topics_view brokers names ts" ..
qed

section \<open>Metadata that the builder makes\<close>

definition md_abs :: "TMetadata \<Rightarrow> (int \<rightharpoonup> string \<times> int) \<times> (string \<rightharpoonup> (int \<rightharpoonup> partition_info))" where
  "md_abs m = (broker_view (md_Brokers m),
     topics_view (md_Brokers m) (md_TopicNameToIndex m) (md_Topics m))"

definition md_ok :: "TMetadata \<Rightarrow> bool" where
  "md_ok m \<longleftrightarrow>
     md_wf (md_Brokers m) (md_TopicBrokerVec m) (md_Topics m) \<and>
     names_wf (md_TopicNameToIndex m) (length (md_Topics m)) \<and>
     takeWhile br_InService (md_Brokers m) = filter br_InService (md_Brokers m) \<and>
     md_InServiceBrokerCount m = length (filter br_InService (md_Brokers m))"

definition is_built :: "TMetaCall list \<Rightarrow> TMetadata \<Rightarrow> bool" where
  "is_built cs m \<longleftrightarrow> (\<exists>c b ro. mb_run c cs b \<and> mb_State b \<in> {MInitial, AddingTopics} \<and>
     is_reorder ro \<and> m = fst (mb_Build ro b))"

lemma takeWhile_filter:
  "sorted_wrt (\<lambda>x y. P y \<longrightarrow> P x) xs \<Longrightarrow> takeWhile P xs = filter P xs"
  by (induction xs) (auto simp: filter_empty_conv)

lemma Build_ok:
  assumes "mb_wf b" "mb_State b \<in> {MInitial, AddingTopics}" "is_reorder ro"
  shows "md_ok (fst (mb_Build ro b))"
    and "md_abs (fst (mb_Build ro b)) = (sp_brokers (mb_abs b), sp_topics (mb_abs b))"
proof -
  let ?order = "ro (map br_InService (mb_Brokers b))"
  have wf: "md_wf (mb_Brokers b) (mb_TopicBrokerVec b) (mb_Topics b)"
    "names_wf (mb_TopicNameToIndex b) (length (mb_Topics b))"
    using assms(1,2) by (auto simp: mb_wf_def)
  have order: "mset ?order = mset [0..<length (mb_Brokers b)]"
    "sorted_wrt (\<lambda>i j. map br_InService (mb_Brokers b) ! j \<longrightarrow> map br_InService (mb_Brokers b) ! i) ?order"
    using assms(3) unfolding is_reorder_def by (metis length_map)+
  have small: "i < length (mb_Brokers b)" if "i \<in> set ?order" for i
    using reorder_permutes(3) [OF order(1)] that by simp
  have "sorted_wrt (\<lambda>x y. br_InService y \<longrightarrow> br_InService x) (map (\<lambda>i. mb_Brokers b ! i) ?order)"
    unfolding sorted_wrt_map
    by (rule sorted_wrt_mono_rel [OF _ order(2)]) (simp add: small)
  then have "takeWhile br_InService (map (\<lambda>i. mb_Brokers b ! i) ?order) =
      filter br_InService (map (\<lambda>i. mb_Brokers b ! i) ?order)"
    by (rule takeWhile_filter)
  then show "md_ok (fst (mb_Build ro b))"
    using md_wf_regroup [OF wf(1) order(1)] wf(2)
    by (simp add: md_ok_def mb_Build_def mb_GroupInServiceBrokers_def Let_def)
  show "md_abs (fst (mb_Build ro b)) = (sp_brokers (mb_abs b), sp_topics (mb_abs b))"
    using views_regroup [OF wf(1) order(1) wf(2)]
    by (simp add: md_abs_def mb_abs_def mb_Build_def mb_GroupInServiceBrokers_def Let_def)
qed

lemma is_built_ok:
  assumes "is_built cs m"
  shows "md_ok m" "md_abs m = (sp_brokers (spec_run cs), sp_topics (spec_run cs))"
  using assms mb_run_ok Build_ok unfolding is_built_def by metis+

text \<open>
  C20. The metadata that the builder makes is, for every history of calls and whatever order
  \<open>std::sort\<close> and \<open>std::shuffle\<close> choose, what the calls describe: the first broker for each ID, the
  first topic for each name, and in a topic the first partition for each ID whose broker is known,
  each with its leader, usability and error code.  The builder is new again afterwards.
\<close>

theorem Build_implements:
  assumes "mb_run c cs b" "mb_State b \<in> {MInitial, AddingTopics}" "is_reorder ro"
  shows "md_abs (fst (mb_Build ro b)) = (sp_brokers (spec_run cs), sp_topics (spec_run cs)) \<and>
    snd (mb_Build ro b) = new_TMetaBuilder (mb_counters b)"
  using mb_run_ok [OF assms(1)] Build_ok(2) [OF _ assms(2,3)]
  by (simp add: mb_Build_def mb_GroupInServiceBrokers_def Let_def)

text \<open>A run of the builder with two brokers, a duplicate topic and a partition on an unknown broker.\<close>

definition ex_reorder :: "bool list \<Rightarrow> nat list" where
  "ex_reorder fl = filter (\<lambda>i. fl ! i) [0..<length fl] @ filter (\<lambda>i. \<not> fl ! i) [0..<length fl]"

lemma ex_reorder_ok: "is_reorder ex_reorder"
proof -
  have all: "sorted_wrt R xs" if "\<forall>i \<in> set xs. \<forall>j \<in> set xs. R i j" for R and xs :: "nat list"
    using that by (induction xs) auto
  have "sorted_wrt (\<lambda>i j. fl ! j \<longrightarrow> fl ! i) (ex_reorder fl)" for fl
    by (auto simp: ex_reorder_def sorted_wrt_append intro!: all)
  moreover have "mset (ex_reorder fl) = mset [0..<length fl]" for fl
    unfolding ex_reorder_def mset_append mset_filter multiset_partition [symmetric] ..
  ultimately show ?thesis by (simp add: is_reorder_def)
qed

definition ex_calls :: "TMetaCall list" where
  "ex_calls = [COpenBrokerList, CAddBroker 7 ''a'' 9092, CAddBroker 5 ''b'' 9093, CCloseBrokerList,
     COpenTopic ''t'', CAddPartition 3 5 True 0, CAddPartition 1 5 True 9, CAddPartition 2 6 True 0,
     CAddPartition 0 7 False 5, CCloseTopic, COpenTopic ''t'']"

definition ex_builder :: TMetaBuilder where
  "ex_builder = snd (mb_OpenTopic ''t'' (mb_CloseTopic rev (mb_AddPartitionToTopic 0 7 False 5
     (mb_AddPartitionToTopic 2 6 True 0 (mb_AddPartitionToTopic 1 5 True 9 (mb_AddPartitionToTopic 3 5 True 0
     (snd (mb_OpenTopic ''t'' (mb_CloseBrokerList (mb_AddBroker 5 ''b'' 9093 (mb_AddBroker 7 ''a'' 9092
     (mb_OpenBrokerList (new_TMetaBuilder (\<lambda>_. 0))))))))))))))"

lemma ex_builder_run: "mb_run (\<lambda>_. 0) ex_calls ex_builder"
proof -
  have shuffle: "is_shuffle rev" by (simp add: is_shuffle_def)
  have calls: "ex_calls = (((((((((([] @ [COpenBrokerList]) @ [CAddBroker 7 ''a'' 9092]) @
      [CAddBroker 5 ''b'' 9093]) @ [CCloseBrokerList]) @ [COpenTopic ''t'']) @ [CAddPartition 3 5 True 0]) @
      [CAddPartition 1 5 True 9]) @ [CAddPartition 2 6 True 0]) @ [CAddPartition 0 7 False 5]) @
      [CCloseTopic]) @ [COpenTopic ''t'']"
    by (simp add: ex_calls_def)
  show ?thesis
    unfolding calls ex_builder_def by (intro mb_run.intros shuffle; code_simp)
qed

theorem Build_implements_witness:
  "mb_run (\<lambda>_. 0) ex_calls ex_builder \<and> mb_State ex_builder \<in> {MInitial, AddingTopics} \<and>
   is_reorder ex_reorder \<and>
   snd (md_abs (fst (mb_Build ex_reorder ex_builder))) ''t'' = sp_topics (spec_run ex_calls) ''t'' \<and>
   map_option (\<lambda>ps. map ps [0, 1, 2, 3]) (sp_topics (spec_run ex_calls) ''t'') =
     Some [Some (7, False, 5), Some (5, True, 9), None, Some (5, True, 0)]"
proof -
  have state: "mb_State ex_builder \<in> {MInitial, AddingTopics}" by code_simp
  have "map_option (\<lambda>ps. map ps [0, 1, 2, 3]) (sp_topics (spec_run ex_calls) ''t'') =
     Some [Some (7, False, 5), Some (5, True, 9), None, Some (5, True, 0)]"
    by (simp add: ex_calls_def spec_run_def spec_init_def Let_def)
  with Build_implements [OF ex_builder_run state ex_reorder_ok] ex_builder_run state ex_reorder_ok show ?thesis by simp
qed

section \<open>Partition choices\<close>

lemma names_wf_nth:
  assumes "names_wf names n" "map_of names x = Some i"
  shows "i < n" "names ! i = (x, i)"
proof -
  show i: "i < n" using assms by (rule names_wf_index)
  from assms(2) obtain j where j: "j < length names" "names ! j = (x, i)"
    by (metis map_of_SomeD in_set_conv_nth)
  moreover have "snd (names ! j) = j"
    using assms(1) j(1) unfolding names_wf_def by (metis length_map length_upt diff_zero nth_map nth_upt add_0)
  ultimately show "names ! i = (x, i)" by simp
qed

lemma topic_view_choices:
  assumes "parts_wf (length brokers) t" "distinct (map br_Id brokers)" "i < length brokers"
  shows "{pid. \<exists>err. map_of (topic_alist brokers t) pid = Some (br_Id (brokers ! i), True, err)} =
    pa_Id ` {p \<in> set (tp_OkPartitions t). pa_BrokerIndex p = i}"
proof -
  have same: "br_Id (brokers ! pa_BrokerIndex p) = br_Id (brokers ! i) \<longleftrightarrow> pa_BrokerIndex p = i"
    if "p \<in> set (tp_OkPartitions t)" for p
  proof -
    have "pa_BrokerIndex p < length brokers" using that assms(1) by (simp add: parts_wf_def)
    then show ?thesis using assms(2,3) by (metis distinct_conv_nth length_map nth_map)
  qed
  have keys: "distinct (map fst (topic_alist brokers t))"
    using assms(1) by (simp only: topic_alist_keys parts_wf_def)
  have "map_of (topic_alist brokers t) pid = Some (br_Id (brokers ! i), True, err) \<longleftrightarrow>
      (\<exists>p \<in> set (tp_OkPartitions t). pa_Id p = pid \<and> pa_BrokerIndex p = i \<and> pa_ErrorCode p = err)" for pid err
    unfolding map_of_eq_Some_iff_distinct [OF keys]
    using same by (fastforce simp: topic_alist_def part_view_def)
  then show ?thesis by auto
qed

lemma choice_ids_set:
  assumes "parts_wf n t"
  shows "choice_ids t i = sorted_list_of_set (pa_Id ` {p \<in> set (tp_OkPartitions t). pa_BrokerIndex p = i})"
proof -
  let ?xs = "map pa_Id (filter (\<lambda>p. pa_BrokerIndex p = i) (tp_OkPartitions t))"
  have "distinct ?xs" using assms by (simp add: parts_wf_def distinct_map_filter)
  then have "sort ?xs = sorted_list_of_set (set ?xs)"
    by (simp only: sorted_list_of_set_sort_remdups distinct_remdups_id)
  then show ?thesis by (simp add: choice_ids_def)
qed

lemma FindTopicIndex_ok:
  assumes "md_ok m" "length (md_Topics m) < 2 ^ 31"
  shows "FindTopicIndex m topic = (case map_of (md_TopicNameToIndex m) topic of None \<Rightarrow> -1 | Some i \<Rightarrow> int i)"
  using assms names_wf_index [of "md_TopicNameToIndex m" "length (md_Topics m)" topic]
  by (auto simp: FindTopicIndex_def md_ok_def i32_id split: option.splits)

text \<open>
  C21. For metadata that the builder has made, \<open>FindPartitionChoices\<close> gives for a topic and a broker
  exactly the partitions of the topic that the calls put on the broker and that messages can be sent
  to, in ascending order of their IDs, and the null pointer for a topic that is not known.
\<close>

theorem FindPartitionChoices_exact:
  assumes "is_built cs m" "length (md_Topics m) < 2 ^ 31" "i < length (md_Brokers m)"
  shows "FindPartitionChoices m topic i =
    (case sp_topics (spec_run cs) topic of
       None \<Rightarrow> []
     | Some ps \<Rightarrow> sorted_list_of_set {pid. \<exists>err. ps pid = Some (br_Id (md_Brokers m ! i), True, err)})"
proof -
  have ok: "md_ok m" "sp_topics (spec_run cs) = topics_view (md_Brokers m) (md_TopicNameToIndex m) (md_Topics m)"
    using is_built_ok [OF assms(1)] by (simp_all add: md_abs_def)
  show ?thesis
  proof (cases "map_of (md_TopicNameToIndex m) topic")
    case None
    then show ?thesis
      using FindTopicIndex_ok [OF ok(1) assms(2), of topic] ok(2)
      by (simp add: FindPartitionChoices_def topics_view_def)
  next
    case (Some k)
    define t where "t = md_Topics m ! k"
    have "k < length (md_Topics m)" using Some ok(1) names_wf_index unfolding md_ok_def by blast
    then have wf: "topic_wf (length (md_Brokers m)) (md_TopicBrokerVec m) t"
      using ok(1) by (simp add: md_ok_def md_wf_def t_def)
    have "FindPartitionChoices m topic i = choice_ids t i"
    proof (cases "map_of (tp_PartitionChoiceMap t) i")
      case None
      then have "i \<notin> fst ` set (tp_PartitionChoiceMap t)" by (simp add: map_of_eq_None_iff)
      then have "filter (\<lambda>p. pa_BrokerIndex p = i) (tp_OkPartitions t) = []"
        using wf by (auto simp: topic_wf_def choices_wf_def filter_empty_conv)
      then show ?thesis using None Some FindTopicIndex_ok [OF ok(1) assms(2), of topic] assms(3)
        by (simp add: FindPartitionChoices_def Let_def choice_ids_def flip: t_def)
    next
      case found: (Some c)
      then have "(i, c) \<in> set (tp_PartitionChoiceMap t)" by (rule map_of_SomeD)
      then have "0 < pc_TopicBrokerVecNumItems c" "chunk_of (md_TopicBrokerVec m) c = choice_ids t i"
        "pc_TopicBrokerVecIndex c + pc_TopicBrokerVecNumItems c \<le> length (md_TopicBrokerVec m)"
        using wf by (auto simp: topic_wf_def choices_wf_def)
      then show ?thesis using found Some FindTopicIndex_ok [OF ok(1) assms(2), of topic] assms(3)
        by (simp add: FindPartitionChoices_def Let_def chunk_of_def flip: t_def) linarith
    qed
    moreover have "parts_wf (length (md_Brokers m)) t" "distinct (map br_Id (md_Brokers m))"
      using wf ok(1) by (simp_all add: topic_wf_def md_ok_def md_wf_def)
    note choice_ids_set [OF this(1), of i] topic_view_choices [OF this assms(3)]
    moreover have "sp_topics (spec_run cs) topic = Some (map_of (topic_alist (md_Brokers m) t))"
      using Some ok(2) by (simp add: topics_view_def t_def)
    ultimately show ?thesis by simp
  qed
qed

theorem FindPartitionChoices_exact_witness:
  "is_built ex_calls (fst (mb_Build ex_reorder ex_builder)) \<and>
   FindPartitionChoices (fst (mb_Build ex_reorder ex_builder)) ''t'' 0 =
     sorted_list_of_set {pid. \<exists>err. the (sp_topics (spec_run ex_calls) ''t'') pid = Some (5, True, err)} \<and>
   FindPartitionChoices (fst (mb_Build ex_reorder ex_builder)) ''t'' 0 = [1, 3]"
proof -
  let ?m = "fst (mb_Build ex_reorder ex_builder)"
  have state: "mb_State ex_builder \<in> {MInitial, AddingTopics}" by code_simp
  then have built: "is_built ex_calls ?m" using ex_builder_run ex_reorder_ok unfolding is_built_def by blast
  have "length (md_Topics ?m) = 1" "length (md_Brokers ?m) = 2" "br_Id (md_Brokers ?m ! 0) = 5"
    "sp_topics (spec_run ex_calls) ''t'' \<noteq> None" "FindPartitionChoices ?m ''t'' 0 = [1, 3]"
    by code_simp+
  with FindPartitionChoices_exact [OF built, of 0 "''t''"] built show ?thesis by auto
qed

end
