(* ===== verification/Field_Access.thy ===== *)
theory Field_Access
  imports Dory_Prelude
begin

text \<open>
  Access to byte buffers: the big-endian field access functions of
  \<open>src/base/field_access.h\<close>, and the size field of
  \<open>src/dory/kafka_proto/request_response.cc\<close>.

  Memory is a list of bytes and a pointer is an offset into it, an integer that may lie
  outside of it: pointer arithmetic and comparison of pointers are those of a flat address
  space.  What is not defined in C++ is an explicit outcome \<open>Undefined\<close>: a read or a write
  outside of the buffer, and a signed 32-bit overflow.  An exception is the outcome
  \<open>Thrown\<close>.  So a theorem that an operation returns \<open>Inr\<close> also says that it neither throws
  nor leaves its buffer.
\<close>

named_theorems wire_simps \<open>evaluation of reads and writes on known buffers\<close>

section \<open>Outcomes\<close>

datatype 'e fault = Undefined | Thrown 'e

definition bindF :: "'e fault + 'a \<Rightarrow> ('a \<Rightarrow> 'e fault + 'b) \<Rightarrow> 'e fault + 'b" where
  "bindF m f = (case m of Inl e \<Rightarrow> Inl e | Inr x \<Rightarrow> f x)"

lemma bindF_simps [simp]:
  "bindF (Inl e) f = Inl e"
  "bindF (Inr x) f = f x"
  by (simp_all add: bindF_def)

lemma bindF_cong [fundef_cong]:
  "m = m' \<Longrightarrow> (\<And>x. m' = Inr x \<Longrightarrow> f x = g x) \<Longrightarrow> bindF m f = bindF m' g"
  by (simp add: bindF_def split: sum.splits)

lemma bindF_eq_Inr:
  "bindF m f = Inr y \<longleftrightarrow> (\<exists>x. m = Inr x \<and> f x = Inr y)"
  by (cases m) auto

lemma bindF_eq_Undefined:
  "bindF m f = Inl Undefined \<longleftrightarrow>
     m = Inl Undefined \<or> (\<exists>x. m = Inr x \<and> f x = Inl Undefined)"
  by (cases m) auto

lemma bindF_assoc: "bindF (bindF m f) g = bindF m (\<lambda>x. bindF (f x) g)"
  by (cases m) auto

text \<open>Signed 32-bit addition and multiplication: overflow is undefined.\<close>

definition fits32 :: "int \<Rightarrow> bool" where
  "fits32 x = (- (2 ^ 31) \<le> x \<and> x < 2 ^ 31)"

definition chk32 :: "int \<Rightarrow> 'e fault + int" where
  "chk32 x = (if fits32 x then Inr x else Inl Undefined)"

section \<open>Big-endian byte strings\<close>

fun be_bytes :: "nat \<Rightarrow> int \<Rightarrow> byte list" where
  "be_bytes 0 v = []"
| "be_bytes (Suc n) v = be_bytes n (v div 256) @ [word_of_int v]"

definition be_value :: "byte list \<Rightarrow> int" where
  "be_value bs = foldl (\<lambda>a b. a * 256 + uint b) 0 bs"

lemma length_be_bytes [simp]: "length (be_bytes n v) = n"
  by (induction n arbitrary: v) auto

lemma be_bytes_eq_Nil [simp]: "be_bytes n v = [] \<longleftrightarrow> n = 0"
  by (cases n) auto

lemma be_value_snoc: "be_value (bs @ [b]) = be_value bs * 256 + uint b"
  by (simp add: be_value_def)

declare be_bytes.simps [simp del]

lemma be_value_be_bytes: "be_value (be_bytes n v) = v mod 256 ^ n"
proof (induction n arbitrary: v)
  case 0
  show ?case by (simp add: be_value_def be_bytes.simps)
next
  case (Suc n)
  have "be_value (be_bytes (Suc n) v) = (v div 256 mod 256 ^ n) * 256 + v mod 256"
    by (simp add: be_bytes.simps be_value_snoc Suc uint_word_of_int)
  also have "\<dots> = v mod (256 * 256 ^ n)"
    by (simp add: zmod_zmult2_eq)
  finally show ?case by simp
qed

lemma signed_take_bit_mod:
  fixes v :: int
  shows "signed_take_bit n (v mod 2 ^ Suc n) = signed_take_bit n v"
  by (simp add: signed_take_bit_eq_iff_take_bit_eq take_bit_eq_mod)

lemma i16_be_value: "i16 (be_value (be_bytes 2 v)) = i16 v"
  using signed_take_bit_mod [of 15 v] by (simp add: i16_def be_value_be_bytes)

lemma i32_be_value: "i32 (be_value (be_bytes 4 v)) = i32 v"
  using signed_take_bit_mod [of 31 v] by (simp add: i32_def be_value_be_bytes)

lemma i64_be_value: "i64 (be_value (be_bytes 8 v)) = i64 v"
  using signed_take_bit_mod [of 63 v] by (simp add: i64_def be_value_be_bytes)

section \<open>Buffers\<close>

text \<open>\<open>std::vector<uint8_t>::resize\<close>, which fills with zero bytes.\<close>

definition resize :: "nat \<Rightarrow> byte list \<Rightarrow> byte list" where
  "resize n buf = take n buf @ replicate (n - length buf) 0"

definition mem_write :: "nat \<Rightarrow> byte list \<Rightarrow> byte list \<Rightarrow> 'e fault + byte list" where
  "mem_write off bs buf =
     (if off + length bs \<le> length buf
      then Inr (take off buf @ bs @ drop (off + length bs) buf)
      else Inl Undefined)"

definition mem_read :: "byte list \<Rightarrow> int \<Rightarrow> nat \<Rightarrow> 'e fault + byte list" where
  "mem_read mem p n =
     (if 0 \<le> p \<and> p + int n \<le> int (length mem)
      then Inr (take n (drop (nat p) mem))
      else Inl Undefined)"

text \<open>The bytes between two pointers, as \<open>std::string (begin, end)\<close> copies them.\<close>

definition mem_range :: "byte list \<Rightarrow> int \<Rightarrow> int \<Rightarrow> 'e fault + byte list" where
  "mem_range mem b e = (if e < b then Inl Undefined else mem_read mem b (nat (e - b)))"

definition ReadUint8 :: "byte list \<Rightarrow> int \<Rightarrow> 'e fault + int" where
  "ReadUint8 mem p = bindF (mem_read mem p 1) (\<lambda>bs. Inr (be_value bs))"

definition ReadInt16FromHeader :: "byte list \<Rightarrow> int \<Rightarrow> 'e fault + int" where
  "ReadInt16FromHeader mem p = bindF (mem_read mem p 2) (\<lambda>bs. Inr (i16 (be_value bs)))"

definition ReadUint32FromHeader :: "byte list \<Rightarrow> int \<Rightarrow> 'e fault + int" where
  "ReadUint32FromHeader mem p = bindF (mem_read mem p 4) (\<lambda>bs. Inr (be_value bs))"

definition ReadInt32FromHeader :: "byte list \<Rightarrow> int \<Rightarrow> 'e fault + int" where
  "ReadInt32FromHeader mem p = bindF (mem_read mem p 4) (\<lambda>bs. Inr (i32 (be_value bs)))"

definition ReadInt64FromHeader :: "byte list \<Rightarrow> int \<Rightarrow> 'e fault + int" where
  "ReadInt64FromHeader mem p = bindF (mem_read mem p 8) (\<lambda>bs. Inr (i64 (be_value bs)))"

definition WriteInt8ToHeader :: "nat \<Rightarrow> int \<Rightarrow> byte list \<Rightarrow> 'e fault + byte list" where
  "WriteInt8ToHeader off v buf = mem_write off (be_bytes 1 v) buf"

definition WriteInt16ToHeader :: "nat \<Rightarrow> int \<Rightarrow> byte list \<Rightarrow> 'e fault + byte list" where
  "WriteInt16ToHeader off v buf = mem_write off (be_bytes 2 v) buf"

definition WriteInt32ToHeader :: "nat \<Rightarrow> int \<Rightarrow> byte list \<Rightarrow> 'e fault + byte list" where
  "WriteInt32ToHeader off v buf = mem_write off (be_bytes 4 v) buf"

definition WriteInt64ToHeader :: "nat \<Rightarrow> int \<Rightarrow> byte list \<Rightarrow> 'e fault + byte list" where
  "WriteInt64ToHeader off v buf = mem_write off (be_bytes 8 v) buf"

lemmas write_defs =
  WriteInt8ToHeader_def WriteInt16ToHeader_def WriteInt32ToHeader_def WriteInt64ToHeader_def

lemmas read_defs =
  ReadUint8_def ReadInt16FromHeader_def ReadUint32FromHeader_def ReadInt32FromHeader_def
  ReadInt64FromHeader_def

section \<open>Buffers as sequences of fields\<close>

text \<open>A buffer laid out as consecutive fields: writing a field of the right size replaces it,
  reading one returns it.\<close>

lemma mem_write_field:
  assumes "off = length a" "length bs = length b"
  shows "mem_write off bs (a @ b @ c) = Inr (a @ bs @ c)"
  using assms by (simp add: mem_write_def)

definition flat :: "byte list list \<Rightarrow> byte list" where
  "flat fs = concat fs"

lemma length_flat: "length (flat fs) = sum_list (map length fs)"
  by (simp add: flat_def length_concat)

lemma split_fields: "length b = sum_list ns \<Longrightarrow> \<exists>fs. map length fs = ns \<and> flat fs = b"
proof (induction ns arbitrary: b)
  case Nil
  then show ?case by (simp add: flat_def)
next
  case (Cons n ns)
  from Cons.prems have "length (drop n b) = sum_list ns" by simp
  with Cons.IH obtain fs where fs: "map length fs = ns" "flat fs = drop n b" by blast
  show ?case
    by (rule exI [of _ "take n b # fs"]) (use Cons.prems fs in \<open>auto simp: flat_def\<close>)
qed

lemma flat_split:
  "i < length fs \<Longrightarrow> flat fs = flat (take i fs) @ fs ! i @ flat (drop (Suc i) fs)"
  unfolding flat_def by (metis concat.simps(2) concat_append id_take_nth_drop)

lemma mem_write_flat:
  assumes "i < length fs" "off = sum_list (map length (take i fs))" "length bs = length (fs ! i)"
  shows "mem_write off bs (flat fs) = Inr (flat (fs[i := bs]))"
proof -
  have "flat (fs[i := bs]) = flat (take i fs) @ bs @ flat (drop (Suc i) fs)"
    using assms(1) by (simp add: upd_conv_take_nth_drop flat_def)
  then show ?thesis
    using assms flat_split [OF assms(1)] by (simp add: mem_write_field length_flat)
qed

lemma mem_read_flat:
  assumes "i < length fs" "p = int (sum_list (map length (take i fs)))" "n = length (fs ! i)"
  shows "mem_read (flat fs) p n = Inr (fs ! i)"
  using assms flat_split [OF assms(1)]
  by (simp add: mem_read_def length_flat [symmetric])

lemma mem_read_flat_rest:
  assumes "p = int (sum_list (map length (take i fs)))" "n = sum_list (map length (drop i fs))"
  shows "mem_read (flat fs) p n = Inr (flat (drop i fs))"
proof -
  have "flat fs = flat (take i fs) @ flat (drop i fs)"
    unfolding flat_def by (metis append_take_drop_id concat_append)
  then show ?thesis
    using assms by (simp add: mem_read_def length_flat [symmetric])
qed

lemma mem_read_field:
  assumes "p = int (length a)" "n = length b"
  shows "mem_read (a @ b @ c) p n = Inr b"
  using assms by (simp add: mem_read_def)

lemma mem_range_field:
  assumes "p = int (length a)" "q = p + int (length b)"
  shows "mem_range (a @ b @ c) p q = Inr b"
  using assms by (simp add: mem_range_def mem_read_field)

lemma ReadUint8_field:
  assumes "p = int (length a)"
  shows "ReadUint8 (a @ be_bytes 1 v @ c) p = Inr (v mod 256)"
  using assms by (simp add: read_defs mem_read_field be_value_be_bytes)

lemma ReadInt16_field:
  assumes "p = int (length a)"
  shows "ReadInt16FromHeader (a @ be_bytes 2 v @ c) p = Inr (i16 v)"
  using assms by (simp add: read_defs mem_read_field i16_be_value)

lemma ReadUint32_field:
  assumes "p = int (length a)"
  shows "ReadUint32FromHeader (a @ be_bytes 4 v @ c) p = Inr (v mod 2 ^ 32)"
  using assms by (simp add: read_defs mem_read_field be_value_be_bytes)

lemma ReadInt32_field:
  assumes "p = int (length a)"
  shows "ReadInt32FromHeader (a @ be_bytes 4 v @ c) p = Inr (i32 v)"
  using assms by (simp add: read_defs mem_read_field i32_be_value)

lemma ReadInt64_field:
  assumes "p = int (length a)"
  shows "ReadInt64FromHeader (a @ be_bytes 8 v @ c) p = Inr (i64 v)"
  using assms by (simp add: read_defs mem_read_field i64_be_value)

lemma Read_flat:
  assumes "i < length fs" "p = int (sum_list (map length (take i fs)))"
  shows
    "length (fs ! i) = 1 \<Longrightarrow> ReadUint8 (flat fs) p = Inr (be_value (fs ! i))"
    "length (fs ! i) = 2 \<Longrightarrow> ReadInt16FromHeader (flat fs) p = Inr (i16 (be_value (fs ! i)))"
    "length (fs ! i) = 4 \<Longrightarrow> ReadUint32FromHeader (flat fs) p = Inr (be_value (fs ! i))"
    "length (fs ! i) = 4 \<Longrightarrow> ReadInt32FromHeader (flat fs) p = Inr (i32 (be_value (fs ! i)))"
    "length (fs ! i) = 8 \<Longrightarrow> ReadInt64FromHeader (flat fs) p = Inr (i64 (be_value (fs ! i)))"
  using assms by (simp_all add: read_defs mem_read_flat)

lemma mem_range_flat:
  assumes "i < length fs" "p = int (sum_list (map length (take i fs)))"
    "q = p + int (length (fs ! i))"
  shows "mem_range (flat fs) p q = Inr (fs ! i)"
  using assms by (simp add: mem_range_def mem_read_flat)

lemma of_mod:
  "i16 (x mod 65536) = i16 x" "i32 (x mod 4294967296) = i32 x"
  "i64 (x mod 18446744073709551616) = i64 x"
  using signed_take_bit_mod [of 15 x] signed_take_bit_mod [of 31 x] signed_take_bit_mod [of 63 x]
  by (simp_all add: i16_def i32_def i64_def)

lemmas be_value_simps = be_value_be_bytes of_mod

text \<open>The value of a field that lies inside of the buffer.\<close>

definition int32_at :: "byte list \<Rightarrow> int \<Rightarrow> int" where
  "int32_at mem p = i32 (be_value (take 4 (drop (nat p) mem)))"

definition int16_at :: "byte list \<Rightarrow> int \<Rightarrow> int" where
  "int16_at mem p = i16 (be_value (take 2 (drop (nat p) mem)))"

lemma Read_inside:
  "0 \<le> p \<Longrightarrow> p + 4 \<le> int (length mem) \<Longrightarrow> ReadInt32FromHeader mem p = Inr (int32_at mem p)"
  "0 \<le> p \<Longrightarrow> p + 2 \<le> int (length mem) \<Longrightarrow> ReadInt16FromHeader mem p = Inr (int16_at mem p)"
  by (simp_all add: read_defs mem_read_def int32_at_def int16_at_def)

lemma int32_at_range: "- (2 ^ 31) \<le> int32_at mem p" "int32_at mem p < 2 ^ 31"
  using signed_take_bit_int_greater_eq_minus_exp [of 31] signed_take_bit_int_less_exp [of 31]
  by (auto simp: int32_at_def i32_def)

lemma int16_at_range: "- (2 ^ 15) \<le> int16_at mem p" "int16_at mem p < 2 ^ 15"
  using signed_take_bit_int_greater_eq_minus_exp [of 15] signed_take_bit_int_less_exp [of 15]
  by (auto simp: int16_at_def i16_def)

lemma mem_read_Inr_length: "mem_read mem p n = Inr bs \<Longrightarrow> length bs = n"
  by (auto simp: mem_read_def split: if_splits)

lemma concat_replicates: "concat (map (\<lambda>n. replicate n x) ns) = replicate (sum_list ns) x"
  by (induction ns) (simp_all add: replicate_add)

lemma resize_append: "resize (length buf + n) buf = buf @ replicate n 0"
  by (simp add: resize_def)

lemma resize_truncate: "n \<le> length buf \<Longrightarrow> resize n buf = take n buf"
  by (simp add: resize_def)

section \<open>The size field of a request or response\<close>

definition REQUEST_OR_RESPONSE_SIZE_SIZE :: nat where
  "REQUEST_OR_RESPONSE_SIZE_SIZE = 4"

text \<open>\<open>GetRequestOrResponseSize\<close>; \<open>bad_size\<close> is the exception \<open>TBadRequestOrResponseSize\<close>.\<close>

definition GetRequestOrResponseSize :: "'e \<Rightarrow> byte list \<Rightarrow> int \<Rightarrow> 'e fault + int" where
  "GetRequestOrResponseSize bad_size mem data_begin =
     bindF (ReadInt32FromHeader mem data_begin)
       (\<lambda>size_field. if size_field < 0 then Inl (Thrown bad_size)
          else Inr (size_field + int REQUEST_OR_RESPONSE_SIZE_SIZE))"

text \<open>A size field that was written is read back with the size of the field itself added.\<close>

lemma GetRequestOrResponseSize_written:
  assumes "0 \<le> v" "v < 2 ^ 31"
  shows "GetRequestOrResponseSize e (be_bytes 4 v @ rest) 0 = Inr (v + 4)"
  using assms by (simp add: GetRequestOrResponseSize_def i32_id REQUEST_OR_RESPONSE_SIZE_SIZE_def
      ReadInt32_field [of 0 "[]", simplified])

section \<open>Exceptions of the produce protocol\<close>

text \<open>The exception classes of the produce protocol (message set reader, request reader, response
  reader, and the mock server's request builder), and \<open>std::range_error\<close>.\<close>

datatype TProtoError =
    TRangeError
  | TBadRequestOrResponseSize
  | TMsgSetTruncated | TBadMsgSize | TBadMsgKeySize | TBadMsgValueSize | TUnknownCompressionType
  | TBadRequestSize | TRequestTruncated | TBadApiKey | TBadApiVersion | TBadClientIdLen
  | TBadTopicCount | TBadTopicNameLen | TBadPartitionCount
  | TShortResponse | TResponseTruncated
  | TInvalidAttributes | TCompressedMsgInvalidAttributes | TCompressedMsgSetNotAlone
  | TCompressedMsgSetMustHaveEmptyKey | TUncompressFailed

end
