(* ===== verification/Msg_Set_Writer.thy ===== *)
theory Msg_Set_Writer
  imports Field_Access
begin

text \<open>
  The writer of Kafka message sets, \<open>src/dory/kafka_proto/produce/v0/msg_set_writer.cc\<close>.

  The writer appends to a byte vector that its caller owns and also writes to.  The vector
  is an argument and a result of every operation, the writer's members are a record.  The
  CRC of \<open>src/base/crc.h\<close> comes from the Boost library: it is a parameter \<open>crc\<close>.

  \<open>msw_in_set\<close> and \<open>msw_in_msg\<close> relate the writer's offsets to the buffer in its two active
  states.  Every operation is shown to take one to the other, which gives the result of a
  whole sequence of calls: the bytes of the items, one after the other.
\<close>

section \<open>Constants and compression types\<close>

datatype TCompressionType = CompressNone | Gzip | Snappy | Lz4

definition PRC_MSG_OFFSET_SIZE :: nat where "PRC_MSG_OFFSET_SIZE = 8"
definition PRC_MSG_SIZE_SIZE :: nat where "PRC_MSG_SIZE_SIZE = 4"
definition PRC_CRC_SIZE :: nat where "PRC_CRC_SIZE = 4"
definition PRC_MAGIC_BYTE_SIZE :: nat where "PRC_MAGIC_BYTE_SIZE = 1"
definition PRC_ATTRIBUTES_SIZE :: nat where "PRC_ATTRIBUTES_SIZE = 1"
definition PRC_KEY_LEN_SIZE :: nat where "PRC_KEY_LEN_SIZE = 4"
definition PRC_VALUE_LEN_SIZE :: nat where "PRC_VALUE_LEN_SIZE = 4"

definition PRC_MIN_MSG_SIZE :: nat where
  "PRC_MIN_MSG_SIZE = PRC_CRC_SIZE + PRC_MAGIC_BYTE_SIZE + PRC_ATTRIBUTES_SIZE +
     PRC_KEY_LEN_SIZE + PRC_VALUE_LEN_SIZE"

lemmas msg_consts =
  PRC_MSG_OFFSET_SIZE_def PRC_MSG_SIZE_SIZE_def PRC_CRC_SIZE_def PRC_MAGIC_BYTE_SIZE_def
  PRC_ATTRIBUTES_SIZE_def PRC_KEY_LEN_SIZE_def PRC_VALUE_LEN_SIZE_def PRC_MIN_MSG_SIZE_def

fun XlateCompressionType :: "TCompressionType \<Rightarrow> int" where
  "XlateCompressionType CompressNone = 0"
| "XlateCompressionType Gzip = 1"
| "XlateCompressionType Snappy = 2"
| "XlateCompressionType Lz4 = 3"

section \<open>State\<close>

datatype TMsgSetWriterState = MswIdle | MswInMsgSet | MswInMsg

record TMsgSetWriter =
  msw_State :: TMsgSetWriterState
  msw_AtOffset :: nat
  msw_MsgSetSize :: nat
  msw_FirstMsgSetItemOffset :: nat
  msw_CurrentMsgSetItemOffset :: nat
  msw_MsgSetItemCount :: nat
  msw_CurrentMsgCrcOffset :: nat
  msw_CurrentMsgKeyOffset :: nat
  msw_CurrentMsgValueOffset :: nat
  msw_CurrentMsgKeySize :: nat
  msw_CurrentMsgValueSize :: nat

section \<open>Operations\<close>

definition msw_Reset :: TMsgSetWriter where
  "msw_Reset = \<lparr> msw_State = MswIdle, msw_AtOffset = 0, msw_MsgSetSize = 0,
     msw_FirstMsgSetItemOffset = 0, msw_CurrentMsgSetItemOffset = 0, msw_MsgSetItemCount = 0,
     msw_CurrentMsgCrcOffset = 0, msw_CurrentMsgKeyOffset = 0, msw_CurrentMsgValueOffset = 0,
     msw_CurrentMsgKeySize = 0, msw_CurrentMsgValueSize = 0 \<rparr>"

definition msw_OpenMsgSet :: "bool \<Rightarrow> byte list \<Rightarrow> TMsgSetWriter \<times> byte list" where
  "msw_OpenMsgSet append_to result_buf =
     (let buf = (if append_to then result_buf else [])
      in (msw_Reset \<lparr> msw_AtOffset := length buf, msw_FirstMsgSetItemOffset := length buf,
            msw_State := MswInMsgSet \<rparr>, buf))"

definition ComputeMsgMinusValueSize :: "nat \<Rightarrow> nat" where
  "ComputeMsgMinusValueSize key_size = PRC_CRC_SIZE + PRC_MAGIC_BYTE_SIZE +
     PRC_ATTRIBUTES_SIZE + PRC_KEY_LEN_SIZE + key_size + PRC_VALUE_LEN_SIZE"

definition ComputeMsgSetItemSize :: "nat \<Rightarrow> nat" where
  "ComputeMsgSetItemSize msg_size = PRC_MSG_OFFSET_SIZE + PRC_MSG_SIZE_SIZE + msg_size"

text \<open>The \<open>Write...AtOffset\<close> functions, which advance the offset; the same functions are members
  of the produce request writer.\<close>

definition WriteInt8AtOffset :: "int \<Rightarrow> nat \<times> byte list \<Rightarrow> TProtoError fault + nat \<times> byte list" where
  "WriteInt8AtOffset v = (\<lambda>(at, buf).
     bindF (WriteInt8ToHeader at v buf) (\<lambda>buf. Inr (at + 1, buf)))"

definition WriteInt16AtOffset :: "int \<Rightarrow> nat \<times> byte list \<Rightarrow> TProtoError fault + nat \<times> byte list" where
  "WriteInt16AtOffset v = (\<lambda>(at, buf).
     bindF (WriteInt16ToHeader at v buf) (\<lambda>buf. Inr (at + 2, buf)))"

definition WriteInt32AtOffset :: "int \<Rightarrow> nat \<times> byte list \<Rightarrow> TProtoError fault + nat \<times> byte list" where
  "WriteInt32AtOffset v = (\<lambda>(at, buf).
     bindF (WriteInt32ToHeader at v buf) (\<lambda>buf. Inr (at + 4, buf)))"

definition WriteInt64AtOffset :: "int \<Rightarrow> nat \<times> byte list \<Rightarrow> TProtoError fault + nat \<times> byte list" where
  "WriteInt64AtOffset v = (\<lambda>(at, buf).
     bindF (WriteInt64ToHeader at v buf) (\<lambda>buf. Inr (at + 8, buf)))"

definition WriteDataAtOffset ::
  "byte list \<Rightarrow> nat \<times> byte list \<Rightarrow> TProtoError fault + nat \<times> byte list" where
  "WriteDataAtOffset bs = (\<lambda>(at, buf).
     bindF (mem_write at bs buf) (\<lambda>buf. Inr (at + length bs, buf)))"

lemmas write_at_defs =
  WriteInt8AtOffset_def WriteInt16AtOffset_def WriteInt32AtOffset_def WriteInt64AtOffset_def
  WriteDataAtOffset_def

text \<open>The length fields of keys, values, topics and client identifiers hold -1 for length 0.\<close>

definition len_field :: "nat \<Rightarrow> int" where
  "len_field n = (if n = 0 then -1 else int n)"

definition msw_OpenMsg ::
  "TCompressionType \<Rightarrow> nat \<Rightarrow> nat \<Rightarrow> TMsgSetWriter \<times> byte list \<Rightarrow>
   TProtoError fault + TMsgSetWriter \<times> byte list" where
  "msw_OpenMsg compression_type key_size value_size = (\<lambda>(w, buf).
     let msg_minus_value_size = ComputeMsgMinusValueSize key_size;
         msg_size = msg_minus_value_size + value_size;
         msg_set_item_size = ComputeMsgSetItemSize msg_size;
         buf = resize (length buf + msg_set_item_size) buf;
         item_offset = msw_AtOffset w
     in bindF (WriteInt64AtOffset 0 (item_offset, buf)) (\<lambda>(at, buf).
        let at = at + PRC_MSG_SIZE_SIZE;
            crc_offset = at;
            at = at + PRC_CRC_SIZE
        in bindF (WriteInt8AtOffset 0 (at, buf)) (\<lambda>(at, buf).
           bindF (WriteInt8AtOffset (XlateCompressionType compression_type) (at, buf)) (\<lambda>(at, buf).
           bindF (WriteInt32AtOffset (i32 (len_field key_size)) (at, buf)) (\<lambda>(at, buf).
           let key_offset = at;
               at = at + key_size;
               at = at + PRC_VALUE_LEN_SIZE
           in Inr (w \<lparr> msw_AtOffset := at, msw_CurrentMsgSetItemOffset := item_offset,
                    msw_CurrentMsgCrcOffset := crc_offset,
                    msw_CurrentMsgKeyOffset := key_offset, msw_CurrentMsgValueOffset := at,
                    msw_CurrentMsgKeySize := key_size, msw_CurrentMsgValueSize := value_size,
                    msw_State := MswInMsg \<rparr>, buf))))))"

definition msw_AdjustValueSize ::
  "nat \<Rightarrow> TMsgSetWriter \<times> byte list \<Rightarrow> TMsgSetWriter \<times> byte list" where
  "msw_AdjustValueSize new_size = (\<lambda>(w, buf).
     let size_of_buf_minus_value = length buf - msw_CurrentMsgValueSize w
     in (w \<lparr> msw_CurrentMsgValueSize := new_size \<rparr>,
         resize (size_of_buf_minus_value + new_size) buf))"

text \<open>The reset of the members of the current message, at the end of \<open>RollbackOpenMsg\<close> and of
  \<open>CloseMsg\<close>.\<close>

definition msw_clear_msg :: "TMsgSetWriter \<Rightarrow> TMsgSetWriter" where
  "msw_clear_msg w = w \<lparr> msw_CurrentMsgSetItemOffset := 0, msw_CurrentMsgCrcOffset := 0,
     msw_CurrentMsgKeyOffset := 0, msw_CurrentMsgValueOffset := 0,
     msw_CurrentMsgKeySize := 0, msw_CurrentMsgValueSize := 0 \<rparr>"

definition msw_RollbackOpenMsg ::
  "TMsgSetWriter \<times> byte list \<Rightarrow> TMsgSetWriter \<times> byte list" where
  "msw_RollbackOpenMsg = (\<lambda>(w, buf).
     (msw_clear_msg (w \<lparr> msw_AtOffset := msw_CurrentMsgSetItemOffset w \<rparr>)
        \<lparr> msw_State := MswInMsgSet \<rparr>,
      resize (msw_CurrentMsgSetItemOffset w) buf))"

definition msw_CloseMsg ::
  "(byte list \<Rightarrow> 32 word) \<Rightarrow> TMsgSetWriter \<times> byte list \<Rightarrow>
   TProtoError fault + TMsgSetWriter \<times> byte list" where
  "msw_CloseMsg crc = (\<lambda>(w, buf).
     let msg_size = ComputeMsgMinusValueSize (msw_CurrentMsgKeySize w) + msw_CurrentMsgValueSize w
     in bindF (WriteInt32ToHeader (msw_CurrentMsgSetItemOffset w + PRC_MSG_OFFSET_SIZE)
                 (i32 (int msg_size)) buf) (\<lambda>buf.
        bindF (WriteInt32ToHeader (msw_CurrentMsgKeyOffset w + msw_CurrentMsgKeySize w)
                 (i32 (len_field (msw_CurrentMsgValueSize w))) buf) (\<lambda>buf.
        let crc_area_size = msg_size - PRC_CRC_SIZE
        in bindF (mem_read buf (int (msw_CurrentMsgCrcOffset w + PRC_CRC_SIZE)) crc_area_size) (\<lambda>area.
           bindF (WriteInt32ToHeader (msw_CurrentMsgCrcOffset w)
                    (i32 (uint (crc area))) buf) (\<lambda>buf.
           Inr (msw_clear_msg (w \<lparr> msw_AtOffset := msw_AtOffset w + msw_CurrentMsgValueSize w,
                    msw_MsgSetSize := msw_MsgSetSize w + ComputeMsgSetItemSize msg_size \<rparr>)
                  \<lparr> msw_MsgSetItemCount := msw_MsgSetItemCount w + 1,
                    msw_State := MswInMsgSet \<rparr>, buf))))))"

text \<open>\<open>AddMsg\<close>; the key and the value are the byte ranges its pointers delimit.\<close>

definition msw_AddMsg ::
  "(byte list \<Rightarrow> 32 word) \<Rightarrow> TCompressionType \<Rightarrow> byte list \<Rightarrow> byte list \<Rightarrow>
   TMsgSetWriter \<times> byte list \<Rightarrow> TProtoError fault + TMsgSetWriter \<times> byte list" where
  "msw_AddMsg crc compression_type key value wb =
     bindF (msw_OpenMsg compression_type (length key) (length value) wb) (\<lambda>(w, buf).
     bindF (if key \<noteq> [] then mem_write (msw_CurrentMsgKeyOffset w) key buf else Inr buf) (\<lambda>buf.
     bindF (if value \<noteq> [] then mem_write (msw_CurrentMsgValueOffset w) value buf else Inr buf)
       (\<lambda>buf. msw_CloseMsg crc (w, buf))))"

definition msw_CloseMsgSet :: "TMsgSetWriter \<Rightarrow> nat \<times> TMsgSetWriter" where
  "msw_CloseMsgSet w = (msw_MsgSetSize w, w \<lparr> msw_State := MswIdle \<rparr>)"

section \<open>The encoding\<close>

text \<open>The bytes of one item, written down directly: offset, size, CRC and the area that the CRC
  covers.\<close>

definition msg_crc_area :: "TCompressionType \<Rightarrow> byte list \<Rightarrow> byte list \<Rightarrow> byte list" where
  "msg_crc_area ct key value =
     be_bytes 1 0 @ be_bytes 1 (XlateCompressionType ct) @
     be_bytes 4 (i32 (len_field (length key))) @ key @
     be_bytes 4 (i32 (len_field (length value))) @ value"

definition msg_set_item ::
  "(byte list \<Rightarrow> 32 word) \<Rightarrow> TCompressionType \<Rightarrow> byte list \<Rightarrow> byte list \<Rightarrow> byte list" where
  "msg_set_item crc ct key value =
     be_bytes 8 0 @ be_bytes 4 (i32 (int (PRC_MIN_MSG_SIZE + length key + length value))) @
     be_bytes 4 (i32 (uint (crc (msg_crc_area ct key value)))) @ msg_crc_area ct key value"

lemma length_msg_crc_area:
  "length (msg_crc_area ct key value) = 10 + length key + length value"
  by (simp add: msg_crc_area_def)

lemma length_msg_set_item:
  "length (msg_set_item crc ct key value) = 26 + length key + length value"
  by (simp add: msg_set_item_def length_msg_crc_area)

section \<open>The two active states\<close>

text \<open>Between messages: the buffer is what it was at \<open>OpenMsgSet\<close> followed by the items.\<close>

definition in_set_writer :: "byte list \<Rightarrow> byte list list \<Rightarrow> TMsgSetWriter" where
  "in_set_writer start items = msw_Reset \<lparr> msw_State := MswInMsgSet,
     msw_AtOffset := length (start @ concat items),
     msw_MsgSetSize := length (concat items),
     msw_FirstMsgSetItemOffset := length start, msw_MsgSetItemCount := length items \<rparr>"

definition in_set :: "byte list \<Rightarrow> byte list list \<Rightarrow> TMsgSetWriter \<times> byte list" where
  "in_set start items = (in_set_writer start items, start @ concat items)"

text \<open>Inside a message: the fields of the open item, of which the size, the CRC and the value
  length are still zero.\<close>

abbreviation zeros :: "nat \<Rightarrow> byte list" where
  "zeros n \<equiv> replicate n 0"

definition open_fields ::
  "byte list \<Rightarrow> TCompressionType \<Rightarrow> byte list \<Rightarrow> byte list \<Rightarrow> byte list list" where
  "open_fields pre ct key value =
     [pre, be_bytes 8 0, zeros 4, zeros 4, be_bytes 1 0, be_bytes 1 (XlateCompressionType ct),
      be_bytes 4 (i32 (len_field (length key))), key, zeros 4, value]"

definition in_msg_writer ::
  "byte list \<Rightarrow> byte list list \<Rightarrow> byte list \<Rightarrow> byte list \<Rightarrow> TMsgSetWriter" where
  "in_msg_writer start items key value =
     (let pre = length (start @ concat items)
      in in_set_writer start items \<lparr> msw_State := MswInMsg,
           msw_AtOffset := pre + 26 + length key, msw_CurrentMsgSetItemOffset := pre,
           msw_CurrentMsgCrcOffset := pre + 12, msw_CurrentMsgKeyOffset := pre + 22,
           msw_CurrentMsgValueOffset := pre + 26 + length key,
           msw_CurrentMsgKeySize := length key, msw_CurrentMsgValueSize := length value \<rparr>)"

definition in_msg ::
  "byte list \<Rightarrow> byte list list \<Rightarrow> TCompressionType \<Rightarrow> byte list \<Rightarrow> byte list \<Rightarrow>
   TMsgSetWriter \<times> byte list" where
  "in_msg start items ct key value =
     (in_msg_writer start items key value, flat (open_fields (start @ concat items) ct key value))"

lemma msw_OpenMsgSet_eq: "msw_OpenMsgSet app buf = in_set (if app then buf else []) []"
  by (simp add: in_set_def in_set_writer_def msw_OpenMsgSet_def Let_def msw_Reset_def)

lemma OpenMsg_resize:
  "resize (length buf + ComputeMsgSetItemSize (ComputeMsgMinusValueSize k + v)) buf =
   flat [buf, zeros 8, zeros 4, zeros 4, zeros 1, zeros 1, zeros 4, zeros k, zeros 4, zeros v]"
  using concat_replicates [of "0 :: byte" "[8, 4, 4, 1, 1, 4, k, 4, v]"]
  by (simp add: resize_append ComputeMsgSetItemSize_def ComputeMsgMinusValueSize_def msg_consts
      add.commute flat_def)

lemma OpenMsg_eq:
  "msw_OpenMsg ct k v (in_set start items) = Inr (in_msg start items ct (zeros k) (zeros v))"
  unfolding msw_OpenMsg_def Let_def in_set_def prod.case OpenMsg_resize write_at_defs write_defs
  by (simp add: in_set_writer_def in_msg_def in_msg_writer_def msw_Reset_def Let_def msg_consts
      open_fields_def mem_write_flat [where i=1] mem_write_flat [where i=4]
      mem_write_flat [where i=5] mem_write_flat [where i=6])

text \<open>The caller writes the key and the value at the offsets the writer gives it.\<close>

lemma write_key_eq:
  assumes "length key' = length key"
  shows "mem_write (msw_CurrentMsgKeyOffset (fst (in_msg start items ct key value))) key'
           (snd (in_msg start items ct key value)) =
         Inr (snd (in_msg start items ct key' value))"
  using assms
  by (simp add: in_msg_def in_msg_writer_def Let_def open_fields_def mem_write_flat [where i=7])

lemma write_value_eq:
  assumes "length value' = length value"
  shows "mem_write (msw_CurrentMsgValueOffset (fst (in_msg start items ct key value))) value'
           (snd (in_msg start items ct key value)) =
         Inr (snd (in_msg start items ct key value'))"
  using assms
  by (simp add: in_msg_def in_msg_writer_def Let_def open_fields_def mem_write_flat [where i=9])

lemma AdjustValueSize_eq:
  "msw_AdjustValueSize n (in_msg start items ct key value) =
     in_msg start items ct key (resize n value)"
  by (simp add: msw_AdjustValueSize_def in_msg_def in_msg_writer_def Let_def open_fields_def flat_def
      resize_def)

lemma RollbackOpenMsg_eq:
  "msw_RollbackOpenMsg (in_msg start items ct key value) = in_set start items"
  by (simp add: msw_RollbackOpenMsg_def msw_clear_msg_def in_msg_def in_set_def in_msg_writer_def
      in_set_writer_def msw_Reset_def Let_def open_fields_def flat_def resize_def)

lemma CloseMsg_eq:
  "msw_CloseMsg crc (in_msg start items ct key value) =
     Inr (in_set start (items @ [msg_set_item crc ct key value]))"
  unfolding msw_CloseMsg_def Let_def in_msg_def prod.case write_defs
  by (simp add: in_msg_writer_def in_set_writer_def in_set_def msw_Reset_def Let_def msw_clear_msg_def
      msg_consts open_fields_def ComputeMsgMinusValueSize_def ComputeMsgSetItemSize_def
      mem_write_flat [where i=2] mem_write_flat [where i=3] mem_write_flat [where i=8]
      mem_read_flat_rest [where i=4])
    (simp add: flat_def msg_set_item_def msg_crc_area_def msg_consts)

text \<open>The conditional copies of \<open>AddMsg\<close>; the writer does not depend on the bytes copied.\<close>

lemma copy_key_eq:
  "(if key \<noteq> [] then mem_write (msw_CurrentMsgKeyOffset (in_msg_writer start items key v')) key
       (snd (in_msg start items ct (zeros (length key)) v))
    else Inr (snd (in_msg start items ct (zeros (length key)) v))) =
   Inr (snd (in_msg start items ct key v))"
  by (simp add: in_msg_def in_msg_writer_def Let_def open_fields_def mem_write_flat [where i=7])

lemma copy_value_eq:
  "(if val \<noteq> [] then mem_write (msw_CurrentMsgValueOffset (in_msg_writer start items key val)) val
       (snd (in_msg start items ct key (zeros (length val))))
    else Inr (snd (in_msg start items ct key (zeros (length val))))) =
   Inr (snd (in_msg start items ct key val))"
  by (simp add: in_msg_def in_msg_writer_def Let_def open_fields_def mem_write_flat [where i=9])

lemma in_msg_pair:
  "in_msg start items ct key val =
     (in_msg_writer start items key val, snd (in_msg start items ct key val))"
  by (simp add: in_msg_def)

lemma AddMsg_eq:
  "msw_AddMsg crc ct key val (in_set start items) =
     Inr (in_set start (items @ [msg_set_item crc ct key val]))"
proof -
  have w: "in_msg_writer start items (zeros (length key)) (zeros (length val)) =
      in_msg_writer start items key val"
    "in_msg_writer start items key (zeros (length val)) = in_msg_writer start items key val"
    by (simp_all add: in_msg_writer_def)
  show ?thesis
    unfolding msw_AddMsg_def OpenMsg_eq bindF_simps
    by (subst in_msg_pair)
      (simp only: prod.case w copy_key_eq bindF_simps copy_value_eq in_msg_pair [symmetric] CloseMsg_eq)
qed

lemma CloseMsgSet_eq:
  "msw_CloseMsgSet (fst (in_set start items)) =
     (length (concat items), fst (in_set start items) \<lparr> msw_State := MswIdle \<rparr>)"
  by (simp add: msw_CloseMsgSet_def in_set_def in_set_writer_def msw_Reset_def)

end
