(* ===== verification/Request_Contents.thy ===== *)
theory Request_Contents
  imports Msg Metadata_Build Msg_Set_Writer "HOL-Library.List_Lexorder" "HOL-Library.Char_ord"
begin

text \<open>
  How a connector groups its queued messages into the contents of a produce request:
  \<open>src/dory/msg_dispatch/any_partition_chooser.{h,cc}\<close>, the structures of
  \<open>src/dory/msg_dispatch/common.{h,cc}\<close>, and the part of
  \<open>src/dory/msg_dispatch/produce_request_factory.{h,cc}\<close> up to \<open>BuildRequestContents\<close>.

  \<open>std::map\<close> is an association list in ascending order of the keys; strings are ordered by the
  values of their characters.  The compression codecs are a parameter, a record of their functions.
  Access to a missing element (\<open>front\<close> of an empty list, a null metadata pointer, a division by the
  number of partitions when there are none) is the result \<open>Undefined\<close>.
\<close>

section \<open>Ordered maps\<close>

text \<open>The effect of changing \<open>m[k]\<close> by \<open>f\<close>, where \<open>operator[]\<close> inserts \<open>d\<close> for a missing key.\<close>

fun omap_upd :: "'k::linorder \<Rightarrow> 'v \<Rightarrow> ('v \<Rightarrow> 'v) \<Rightarrow> ('k \<times> 'v) list \<Rightarrow> ('k \<times> 'v) list" where
  "omap_upd k d f [] = [(k, f d)]"
| "omap_upd k d f ((k', v) # m) =
     (if k = k' then (k, f v) # m
      else if k < k' then (k, f d) # (k', v) # m
      else (k', v) # omap_upd k d f m)"

abbreviation omap_ok :: "('k::linorder \<times> 'v) list \<Rightarrow> bool" where
  "omap_ok m \<equiv> sorted_wrt (<) (map fst m)"

section \<open>Choosing a partition\<close>

record TAnyPartitionChooser =
  ch_Count :: "64 word"
  ch_Choice :: "int option"
  ch_ChoiceUsed :: bool

definition new_TAnyPartitionChooser :: TAnyPartitionChooser where
  "new_TAnyPartitionChooser = \<lparr>ch_Count = 0, ch_Choice = None, ch_ChoiceUsed = False\<rparr>"

definition ch_Choose ::
  "nat \<Rightarrow> TMetadata \<Rightarrow> string \<Rightarrow> TAnyPartitionChooser \<Rightarrow> TProtoError fault + TAnyPartitionChooser" where
  "ch_Choose broker_index md topic c =
     (let choice_vec = FindPartitionChoices md topic broker_index;
          num_choices = length choice_vec
      in if num_choices = 0 then Inl Undefined
         else Inr (c\<lparr>ch_Choice := Some (choice_vec ! (unat (ch_Count c) mod num_choices))\<rparr>))"

definition ch_GetChoice ::
  "nat \<Rightarrow> TMetadata \<Rightarrow> string \<Rightarrow> TAnyPartitionChooser \<Rightarrow> TProtoError fault + int \<times> TAnyPartitionChooser" where
  "ch_GetChoice broker_index md topic c =
     bindF (if ch_Choice c = None then ch_Choose broker_index md topic c else Inr c) (\<lambda>c.
     Inr (the (ch_Choice c), c))"

definition ch_SetChoiceUsed :: "TAnyPartitionChooser \<Rightarrow> TAnyPartitionChooser" where
  "ch_SetChoiceUsed c = c\<lparr>ch_ChoiceUsed := True\<rparr>"

definition ch_ClearChoice :: "TAnyPartitionChooser \<Rightarrow> TAnyPartitionChooser" where
  "ch_ClearChoice c =
     (let c = c\<lparr>ch_Choice := None\<rparr>
      in if ch_ChoiceUsed c then c\<lparr>ch_Count := ch_Count c + 1, ch_ChoiceUsed := False\<rparr> else c)"

section \<open>Contents of a request\<close>

record TMsgSet =
  ms_DataSize :: nat
  ms_Contents :: "TMsg list"

definition new_TMsgSet :: TMsgSet where
  "new_TMsgSet = \<lparr>ms_DataSize = 0, ms_Contents = []\<rparr>"

type_synonym TMultiPartitionGroup = "(int \<times> TMsgSet) list"
type_synonym TAllTopics = "(string \<times> TMultiPartitionGroup) list"

text \<open>A change of \<open>result[topic][partition]\<close>.\<close>

definition at_msg_set :: "string \<Rightarrow> int \<Rightarrow> (TMsgSet \<Rightarrow> TMsgSet) \<Rightarrow> TAllTopics \<Rightarrow> TAllTopics" where
  "at_msg_set topic part f = omap_upd topic [] (omap_upd part new_TMsgSet f)"

definition get_msg_set :: "string \<Rightarrow> int \<Rightarrow> TAllTopics \<Rightarrow> TMsgSet" where
  "get_msg_set topic part r =
     (case map_of r topic of None \<Rightarrow> new_TMsgSet
      | Some g \<Rightarrow> (case map_of g part of None \<Rightarrow> new_TMsgSet | Some s \<Rightarrow> s))"

definition EmptyAllTopics :: "TAllTopics \<Rightarrow> TMsg list list \<Rightarrow> TAllTopics \<times> TMsg list list" where
  "EmptyAllTopics all_topics dest =
     ([], dest @ concat (map (\<lambda>(topic, group). map (\<lambda>(part, s). ms_Contents s) group) all_topics))"

section \<open>The factory\<close>

text \<open>A compression codec, and its results: \<open>None\<close> is the exception \<open>TError\<close>.\<close>

record TCompressionCodecApi =
  cc_GetRealCompressionLevel :: "int option \<Rightarrow> int option"
  cc_ComputeCompressedResultBufSpace :: "byte list \<Rightarrow> int option \<Rightarrow> nat option"
  cc_Compress :: "byte list \<Rightarrow> nat \<Rightarrow> int option \<Rightarrow> byte list option"

record TCompressionConf_TConf =
  cz_Type :: TCompressionType
  cz_MinSize :: nat
  cz_Level :: "int option"

record TCompressionConf =
  cz_SizeThresholdPercent :: nat
  cz_DefaultTopicConfig :: TCompressionConf_TConf
  cz_TopicConfigs :: "(string \<times> TCompressionConf_TConf) list"

record TCompressionInfo =
  ci_CompressionCodec :: "TCompressionCodecApi option"
  ci_MinCompressionSize :: nat
  ci_CompressionType :: TCompressionType
  ci_CompressionLevel :: "int option"

type_synonym codec_table = "TCompressionType \<Rightarrow> TCompressionCodecApi option"

definition pf_GetRealCompressionLevel :: "codec_table \<Rightarrow> TCompressionConf_TConf \<Rightarrow> int option" where
  "pf_GetRealCompressionLevel codecs conf =
     (case codecs (cz_Type conf) of None \<Rightarrow> None
      | Some codec \<Rightarrow> cc_GetRealCompressionLevel codec (cz_Level conf))"

definition new_TCompressionInfo :: "codec_table \<Rightarrow> TCompressionConf_TConf \<Rightarrow> TCompressionInfo" where
  "new_TCompressionInfo codecs conf =
     \<lparr>ci_CompressionCodec = codecs (cz_Type conf), ci_MinCompressionSize = cz_MinSize conf,
      ci_CompressionType = cz_Type conf, ci_CompressionLevel = pf_GetRealCompressionLevel codecs conf\<rparr>"

record TTopicData =
  td_CompressionInfo :: TCompressionInfo
  td_AnyPartitionChooser :: TAnyPartitionChooser

definition new_TTopicData :: "TCompressionInfo \<Rightarrow> TTopicData" where
  "new_TTopicData info = \<lparr>td_CompressionInfo = info, td_AnyPartitionChooser = new_TAnyPartitionChooser\<rparr>"
text \<open>
  Single precision numbers that are not negative, as a mantissa below \<open>2 ^ 24\<close> and an exponent.
  \<open>f32_div a b\<close> is the quotient of two natural numbers rounded to the nearest such number, ties to an
  even mantissa; with \<open>b = 1\<close> it is the conversion of an integer.
\<close>

type_synonym f32 = "int \<times> int"

function bit_len :: "int \<Rightarrow> nat" where
  "bit_len n = (if n \<le> 0 then 0 else Suc (bit_len (n div 2)))"
  by pat_completeness auto
termination by (relation "measure nat") auto

declare bit_len.simps [simp del]

definition f32_div :: "int \<Rightarrow> int \<Rightarrow> f32" where
  "f32_div a b =
     (if a = 0 then (0, 0)
      else
        let s = 24 + bit_len b;
            q = a * 2 ^ s div b;
            sticky = (a * 2 ^ s mod b \<noteq> 0);
            k = bit_len q - 24;
            m = q div 2 ^ k;
            r = q mod 2 ^ k;
            h = 2 ^ (k - 1);
            m' = (if r > h \<or> r = h \<and> (sticky \<or> odd m) then m + 1 else m)
        in if m' = 2 ^ 24 then (2 ^ 23, int k - int s + 1) else (m', int k - int s))"

definition f32_of :: "nat \<Rightarrow> f32" where
  "f32_of n = f32_div (int n) 1"

definition f32_divide :: "f32 \<Rightarrow> f32 \<Rightarrow> f32" where
  "f32_divide x y = (let (m, e) = f32_div (fst x) (fst y) in (m, if m = 0 then 0 else e + snd x - snd y))"

definition f32_le :: "f32 \<Rightarrow> f32 \<Rightarrow> bool" where
  "f32_le x y \<longleftrightarrow> fst x = 0 \<or> (fst y \<noteq> 0 \<and> (snd x < snd y \<or> snd x = snd y \<and> fst x \<le> fst y))"

record TProduceRequestFactory =
  pf_ClientId :: "byte list"
  pf_ReplicationTimeout :: nat
  pf_BrokerIndex :: nat
  pf_ProduceRequestDataLimit :: nat
  pf_MessageMaxBytes :: nat
  pf_SingleMsgOverhead :: nat
  pf_MaxCompressionRatio :: f32
  pf_DefaultTopicCompressionInfo :: TCompressionInfo
  pf_Metadata :: "TMetadata option"
  pf_CorrIdCounter :: int
  pf_InputQueue :: "TMsg list list"
  pf_TopicDataMap :: "(string \<times> TTopicData) list"
  pf_counters :: TCounters

definition pf_count :: "string \<Rightarrow> TProduceRequestFactory \<Rightarrow> TProduceRequestFactory" where
  "pf_count name f = f\<lparr>pf_counters := Increment name (pf_counters f)\<rparr>"

definition InitTopicDataMap :: "codec_table \<Rightarrow> TCompressionConf \<Rightarrow> TProduceRequestFactory \<Rightarrow> TProduceRequestFactory" where
  "InitTopicDataMap codecs compression_conf f =
     f\<lparr>pf_TopicDataMap :=
         fold (\<lambda>(topic, conf). map_insert topic (new_TTopicData (new_TCompressionInfo codecs conf)))
           (cz_TopicConfigs compression_conf) []\<rparr>"

text \<open>The constructor, with the settings it takes from the configuration and from the protocol.\<close>

definition new_TProduceRequestFactory ::
  "codec_table \<Rightarrow> byte list \<Rightarrow> nat \<Rightarrow> nat \<Rightarrow> nat \<Rightarrow> nat \<Rightarrow> TCompressionConf \<Rightarrow> nat \<Rightarrow> TCounters \<Rightarrow> TProduceRequestFactory" where
  "new_TProduceRequestFactory codecs client_id replication_timeout data_limit max_bytes overhead
       compression_conf broker_index counters =
     InitTopicDataMap codecs compression_conf
       \<lparr>pf_ClientId = client_id, pf_ReplicationTimeout = replication_timeout,
        pf_BrokerIndex = broker_index, pf_ProduceRequestDataLimit = data_limit,
        pf_MessageMaxBytes = max_bytes, pf_SingleMsgOverhead = overhead,
        pf_MaxCompressionRatio = f32_divide (f32_of (cz_SizeThresholdPercent compression_conf)) (f32_of 100),
        pf_DefaultTopicCompressionInfo = new_TCompressionInfo codecs (cz_DefaultTopicConfig compression_conf),
        pf_Metadata = None, pf_CorrIdCounter = 0, pf_InputQueue = [], pf_TopicDataMap = [],
        pf_counters = counters\<rparr>"

definition pf_Init :: "codec_table \<Rightarrow> TCompressionConf \<Rightarrow> TMetadata \<Rightarrow> TProduceRequestFactory \<Rightarrow> TProduceRequestFactory" where
  "pf_Init codecs compression_conf md f =
     InitTopicDataMap codecs compression_conf
       (f\<lparr>pf_DefaultTopicCompressionInfo := new_TCompressionInfo codecs (cz_DefaultTopicConfig compression_conf),
          pf_Metadata := Some md, pf_CorrIdCounter := 0\<rparr>)"

definition pf_Reset :: "TProduceRequestFactory \<Rightarrow> TProduceRequestFactory" where
  "pf_Reset f = f\<lparr>pf_Metadata := None, pf_CorrIdCounter := 0, pf_TopicDataMap := []\<rparr>"

definition pf_IsEmpty :: "TProduceRequestFactory \<Rightarrow> bool" where
  "pf_IsEmpty f \<longleftrightarrow> pf_InputQueue f = []"

definition pf_Put :: "TMsg list \<Rightarrow> TProduceRequestFactory \<Rightarrow> TProduceRequestFactory" where
  "pf_Put batch f = f\<lparr>pf_InputQueue := pf_InputQueue f @ [batch]\<rparr>"

definition pf_Put_lists :: "TMsg list list \<Rightarrow> TProduceRequestFactory \<Rightarrow> TProduceRequestFactory" where
  "pf_Put_lists batch_list f = f\<lparr>pf_InputQueue := pf_InputQueue f @ batch_list\<rparr>"

definition pf_PutFront :: "TMsg list \<Rightarrow> TProduceRequestFactory \<Rightarrow> TProduceRequestFactory" where
  "pf_PutFront batch f = f\<lparr>pf_InputQueue := batch # pf_InputQueue f\<rparr>"

definition pf_PutFront_lists :: "TMsg list list \<Rightarrow> TProduceRequestFactory \<Rightarrow> TProduceRequestFactory" where
  "pf_PutFront_lists batch_list f = f\<lparr>pf_InputQueue := batch_list @ pf_InputQueue f\<rparr>"

definition pf_GetAll :: "TProduceRequestFactory \<Rightarrow> TMsg list list \<times> TProduceRequestFactory" where
  "pf_GetAll f = (pf_InputQueue f, f\<lparr>pf_InputQueue := []\<rparr>)"

section \<open>Filling a request\<close>

text \<open>\<open>GetTopicData\<close> makes sure that there is an entry, and gives a reference to it.\<close>

definition pf_GetTopicData :: "string \<Rightarrow> TProduceRequestFactory \<Rightarrow> TProduceRequestFactory" where
  "pf_GetTopicData topic f =
     f\<lparr>pf_TopicDataMap :=
         map_insert topic (new_TTopicData (pf_DefaultTopicCompressionInfo f)) (pf_TopicDataMap f)\<rparr>"

definition topic_data :: "string \<Rightarrow> TProduceRequestFactory \<Rightarrow> TTopicData" where
  "topic_data topic f =
     (case map_of (pf_TopicDataMap f) topic of
        None \<Rightarrow> new_TTopicData (pf_DefaultTopicCompressionInfo f) | Some d \<Rightarrow> d)"

definition pf_set_chooser :: "string \<Rightarrow> TAnyPartitionChooser \<Rightarrow> TProduceRequestFactory \<Rightarrow> TProduceRequestFactory" where
  "pf_set_chooser topic c f =
     f\<lparr>pf_TopicDataMap := map (\<lambda>(t, d). (t, if t = topic then d\<lparr>td_AnyPartitionChooser := c\<rparr> else d))
         (pf_TopicDataMap f)\<rparr>"

abbreviation chooser :: "string \<Rightarrow> TProduceRequestFactory \<Rightarrow> TAnyPartitionChooser" where
  "chooser topic f \<equiv> td_AnyPartitionChooser (topic_data topic f)"

abbreviation compressed :: "string \<Rightarrow> TProduceRequestFactory \<Rightarrow> bool" where
  "compressed topic f \<equiv> ci_CompressionCodec (td_CompressionInfo (topic_data topic f)) \<noteq> None"

text \<open>An \<open>AnyPartition\<close> message gets the partition that the topic's chooser gives.\<close>

definition pf_assign :: "string \<Rightarrow> TMsg \<Rightarrow> TProduceRequestFactory \<Rightarrow> TProtoError fault + TMsg \<times> TProduceRequestFactory" where
  "pf_assign topic m f =
     (if GetRoutingType m \<noteq> AnyPartition then Inr (m, f)
      else case pf_Metadata f of None \<Rightarrow> Inl Undefined
      | Some md \<Rightarrow>
          bindF (ch_GetChoice (pf_BrokerIndex f) md topic (chooser topic f)) (\<lambda>(p, c).
          Inr (SetPartition p m, pf_set_chooser topic c f)))"

definition pf_choice_used :: "string \<Rightarrow> TMsg \<Rightarrow> TProduceRequestFactory \<Rightarrow> TProduceRequestFactory" where
  "pf_choice_used topic m f =
     (if GetRoutingType m = AnyPartition
      then pf_set_chooser topic (ch_SetChoiceUsed (chooser topic f)) f else f)"

definition AddFirstMsg ::
  "TProduceRequestFactory \<Rightarrow> TProtoError fault + nat \<times> TAllTopics \<times> TProduceRequestFactory" where
  "AddFirstMsg f =
     (case pf_InputQueue f of
        (m # batch) # q \<Rightarrow>
          let f = f\<lparr>pf_InputQueue := (if batch = [] then q else batch # q)\<rparr>;
              topic = GetTopic m;
              f = pf_GetTopicData topic f
          in bindF (pf_assign topic m f) (\<lambda>(m, f).
             let f = pf_choice_used topic m f;
                 data_size = length (GetKeyAndValue m);
                 result = at_msg_set topic (GetPartition m) (\<lambda>s.
                   let s = (if compressed topic f
                            then s\<lparr>ms_DataSize := data_size + pf_SingleMsgOverhead f\<rparr> else s)
                   in s\<lparr>ms_Contents := ms_Contents s @ [m]\<rparr>) []
             in Inr (data_size, result, f))
      | _ \<Rightarrow> Inl Undefined)"

text \<open>\<open>TryConsumeFrontMsg\<close> sets the partition of the message where it is, in the first batch, and
  moves it from there when it fits.  The flag tells whether it has been consumed; the caller pops it.\<close>

definition TryConsumeFrontMsg ::
  "string \<Rightarrow> nat \<Rightarrow> TAllTopics \<Rightarrow> TProduceRequestFactory \<Rightarrow>
   TProtoError fault + bool \<times> nat \<times> TAllTopics \<times> TProduceRequestFactory" where
  "TryConsumeFrontMsg topic result_data_size result f =
     (case pf_InputQueue f of
        (m # batch) # q \<Rightarrow>
          bindF (pf_assign topic m f) (\<lambda>(m, f).
          let f = f\<lparr>pf_InputQueue := (m # batch) # q\<rparr>;
              data_size = length (GetKeyAndValue m);
              new_result_data_size = result_data_size + data_size
          in if new_result_data_size > pf_ProduceRequestDataLimit f
             then Inr (False, result_data_size, result, f)
             else
               let new_data_size =
                     ms_DataSize (get_msg_set topic (GetPartition m) result) + data_size + pf_SingleMsgOverhead f
               in if compressed topic f \<and> new_data_size > pf_MessageMaxBytes f
                  then Inr (False, result_data_size, at_msg_set topic (GetPartition m) (\<lambda>s. s) result, f)
                  else
                    Inr (True, new_result_data_size,
                      at_msg_set topic (GetPartition m) (\<lambda>s.
                        let s = (if compressed topic f then s\<lparr>ms_DataSize := new_data_size\<rparr> else s)
                        in s\<lparr>ms_Contents := ms_Contents s @ [m]\<rparr>) result,
                      pf_choice_used topic m f))
      | _ \<Rightarrow> Inl Undefined)"

text \<open>\<open>MultipleTopicBugFixup\<close> moves the first message of the first batch to a batch of its own behind
  it; the flag tells whether the first batch has been removed.\<close>

definition MultipleTopicBugFixup :: "TProduceRequestFactory \<Rightarrow> bool \<times> TProduceRequestFactory" where
  "MultipleTopicBugFixup f =
     (let f = pf_count ''BugMsgListMultipleTopics'' f
      in case pf_InputQueue f of
           (m # batch) # q \<Rightarrow>
             if batch = [] then (True, f\<lparr>pf_InputQueue := [m] # q\<rparr>)
             else (False, f\<lparr>pf_InputQueue := batch # [m] # q\<rparr>)
         | _ \<Rightarrow> (False, f))"

definition pf_pop_front :: "TProduceRequestFactory \<Rightarrow> TProduceRequestFactory" where
  "pf_pop_front f =
     (case pf_InputQueue f of
        (m # batch) # q \<Rightarrow> f\<lparr>pf_InputQueue := (if batch = [] then q else batch # q)\<rparr>
      | _ \<Rightarrow> f)"

lemma pf_keeps_queue [simp]:
  "pf_InputQueue (pf_GetTopicData topic f) = pf_InputQueue f"
  "pf_InputQueue (pf_set_chooser topic c f) = pf_InputQueue f"
  "pf_InputQueue (pf_choice_used topic m f) = pf_InputQueue f"
  by (simp_all add: pf_GetTopicData_def pf_set_chooser_def pf_choice_used_def)

text \<open>What is left of the queue.\<close>

lemma TryConsume_queue:
  assumes "TryConsumeFrontMsg topic n result f = Inr (ok, n', result', f')"
  obtains m m' batch q f1 where "pf_InputQueue f = (m # batch) # q" "pf_InputQueue f' = (m' # batch) # q"
    "pf_assign topic m f = Inr (m', f1)"
  using assms
  by (auto simp: TryConsumeFrontMsg_def Let_def bindF_eq_Inr split: list.splits if_splits)

text \<open>The loop over the messages of the first batch; the first flag tells that the request is full.\<close>

function pf_batch_loop ::
  "string \<Rightarrow> nat \<Rightarrow> TAllTopics \<Rightarrow> TProduceRequestFactory \<Rightarrow>
   TProtoError fault + bool \<times> nat \<times> TAllTopics \<times> TProduceRequestFactory" where
  "pf_batch_loop topic n result f =
     (case pf_InputQueue f of
        (m # batch) # q \<Rightarrow>
          if GetTopic m \<noteq> topic
          then let (popped, f') = MultipleTopicBugFixup f
               in if popped then Inr (False, n, result, f') else pf_batch_loop topic n result f'
          else bindF (TryConsumeFrontMsg topic n result f) (\<lambda>(consumed, n', result', f').
               if \<not> consumed then Inr (True, n', result', f')
               else if batch = [] then Inr (False, n', result', pf_pop_front f')
               else pf_batch_loop topic n' result' (pf_pop_front f'))
      | _ \<Rightarrow> Inl Undefined)"
  by pat_completeness auto
termination
proof (relation "measure (\<lambda>(topic, n, result, f). length (hd (pf_InputQueue f)))")
  fix topic n result f m batch q x xs popped f'
  assume "pf_InputQueue f = xs # q" "xs = m # batch" "x = MultipleTopicBugFixup f" "(popped, f') = x" "\<not> popped"
  then show "((topic, n, result, f'), (topic, n, result, f)) \<in> measure (\<lambda>(topic, n, result, f). length (hd (pf_InputQueue f)))"
    by (auto simp: MultipleTopicBugFixup_def pf_count_def Let_def split: if_splits)
next
  fix topic n result f m batch q xs z consumed n' result' f' y1 y2
  assume "pf_InputQueue f = xs # q" "xs = m # batch" "TryConsumeFrontMsg topic n result f = Inr z"
    "(consumed, y1) = z" "(n', y2) = y1" "(result', f') = y2" "batch \<noteq> []"
  then show "((topic, n', result', pf_pop_front f'), (topic, n, result, f)) \<in>
      measure (\<lambda>(topic, n, result, f). length (hd (pf_InputQueue f)))"
    by (auto simp: pf_pop_front_def elim!: TryConsume_queue)
qed auto

declare pf_batch_loop.simps [simp del]

text \<open>The number of messages in the queue goes down in each round of the outer loop.\<close>

lemma batch_loop_shrinks:
  "pf_batch_loop topic n result f = Inr (full, n', result', f') \<Longrightarrow>
   length (concat (pf_InputQueue f')) \<le> length (concat (pf_InputQueue f)) \<and>
   (\<not> full \<and> GetTopic (hd (hd (pf_InputQueue f))) = topic \<longrightarrow>
      length (concat (pf_InputQueue f')) < length (concat (pf_InputQueue f)))"
proof (induction topic n result f rule: pf_batch_loop.induct)
  case (1 topic n result f)
  from "1.prems" obtain m batch q where q: "pf_InputQueue f = (m # batch) # q"
    by (subst (asm) pf_batch_loop.simps) (auto split: list.splits)
  show ?case
  proof (cases "GetTopic m = topic")
    case False
    obtain popped f1 where fu: "MultipleTopicBugFixup f = (popped, f1)" by fastforce
    then have len: "length (concat (pf_InputQueue f1)) = length (concat (pf_InputQueue f))"
      using q by (auto simp: MultipleTopicBugFixup_def pf_count_def Let_def split: if_splits)
    show ?thesis
    proof (cases popped)
      case True
      then show ?thesis using "1.prems" q False fu len by (subst (asm) pf_batch_loop.simps) simp
    next
      case np: False
      then have "pf_batch_loop topic n result f1 = Inr (full, n', result', f')"
        using "1.prems" q False fu by (subst (asm) pf_batch_loop.simps) simp
      from "1.IH"(1) [OF q refl False fu [symmetric] refl np this] len False q show ?thesis by simp
    qed
  next
    case True
    with "1.prems" q obtain consumed n1 result1 f1 where tr:
      "TryConsumeFrontMsg topic n result f = Inr (consumed, n1, result1, f1)"
      by (subst (asm) pf_batch_loop.simps) (auto simp: bindF_eq_Inr)
    then obtain m' where q1: "pf_InputQueue f1 = (m' # batch) # q"
      using q by (auto elim: TryConsume_queue)
    show ?thesis
    proof (cases "consumed \<and> batch \<noteq> []")
      case False
      then show ?thesis using "1.prems" q True tr q1
        by (subst (asm) pf_batch_loop.simps) (auto simp: pf_pop_front_def split: if_splits)
    next
      case go: True
      then have rest: "pf_batch_loop topic n1 result1 (pf_pop_front f1) = Inr (full, n', result', f')"
        using "1.prems" q True tr by (subst (asm) pf_batch_loop.simps) simp
      have "length (concat (pf_InputQueue (pf_pop_front f1))) < length (concat (pf_InputQueue f))"
        using go q q1 by (simp add: pf_pop_front_def)
      moreover have "length (concat (pf_InputQueue f')) \<le> length (concat (pf_InputQueue (pf_pop_front f1)))"
        using "1.IH"(2) [OF q refl _ tr refl refl refl _ _ rest] True go by simp
      ultimately show ?thesis by simp
    qed
  qed
qed

function pf_contents_loop ::
  "nat \<Rightarrow> TAllTopics \<Rightarrow> TProduceRequestFactory \<Rightarrow> TProtoError fault + nat \<times> TAllTopics \<times> TProduceRequestFactory" where
  "pf_contents_loop n result f =
     (case pf_InputQueue f of
        [] \<Rightarrow> Inr (n, result, f)
      | [] # q \<Rightarrow> Inl Undefined
      | (m # batch) # q \<Rightarrow>
          bindF (pf_batch_loop (GetTopic m) n result (pf_GetTopicData (GetTopic m) f)) (\<lambda>(full, n', result', f').
          if full then Inr (n', result', f') else pf_contents_loop n' result' f'))"
  by pat_completeness auto
termination
proof (relation "measure (\<lambda>(n, result, f). length (concat (pf_InputQueue f)))")
  fix n result f xs q m batch x full y1 n' y2 result' f'
  assume "pf_InputQueue f = xs # q" "xs = m # batch"
    "pf_batch_loop (GetTopic m) n result (pf_GetTopicData (GetTopic m) f) = Inr x"
    "(full, y1) = x" "(n', y2) = y1" "(result', f') = y2" "\<not> full"
  then show "((n', result', f'), n, result, f) \<in> measure (\<lambda>(n, result, f). length (concat (pf_InputQueue f)))"
    by (auto dest: batch_loop_shrinks)
qed auto

declare pf_contents_loop.simps [simp del]

definition pf_clear_choice :: "string \<Rightarrow> TProduceRequestFactory \<Rightarrow> TProduceRequestFactory" where
  "pf_clear_choice topic f =
     (let f = pf_GetTopicData topic f in pf_set_chooser topic (ch_ClearChoice (chooser topic f)) f)"

text \<open>\<open>SanityCheckRequestContents\<close> drops empty message sets, and then topics without message sets.\<close>

definition sanity_topic ::
  "string \<times> TMultiPartitionGroup \<Rightarrow> TAllTopics \<times> TProduceRequestFactory \<Rightarrow> TAllTopics \<times> TProduceRequestFactory" where
  "sanity_topic = (\<lambda>(topic, g) (result, f).
     let full = filter (\<lambda>(p, s). ms_Contents s \<noteq> []) g;
         f = (pf_count ''BugMsgSetEmpty'' ^^ length (filter (\<lambda>(p, s). ms_Contents s = []) g)) f
     in if full = [] then (result, pf_count ''BugMultiPartitionGroupEmpty'' f)
        else (result @ [(topic, full)], f))"

definition SanityCheckRequestContents :: "TAllTopics \<Rightarrow> TProduceRequestFactory \<Rightarrow> TAllTopics \<times> TProduceRequestFactory" where
  "SanityCheckRequestContents contents f = fold sanity_topic contents ([], f)"

definition BuildRequestContents ::
  "TProduceRequestFactory \<Rightarrow> TProtoError fault + TAllTopics \<times> TProduceRequestFactory" where
  "BuildRequestContents f =
     bindF (AddFirstMsg f) (\<lambda>(n, result, f).
     bindF (if n < pf_ProduceRequestDataLimit f then pf_contents_loop n result f else Inr (n, result, f))
       (\<lambda>(n, result, f).
        Inr (SanityCheckRequestContents result (fold (\<lambda>(topic, g). pf_clear_choice topic) result f))))"

end
