(* ===== verification/Request_Fill.thy ===== *)
theory Request_Fill
  imports Request_Contents
begin

text \<open>
  Correctness of \<open>BuildRequestContents\<close>.  A request takes messages from the front of the queue, in
  order and without a gap; per topic and partition it keeps their order.  The messages without a
  partition of their own all go, per topic, to the partition whose turn it is.
\<close>

section \<open>Ordered maps\<close>

lemma set_omap_upd: "fst ` set (omap_upd k d f m) = insert k (fst ` set m)"
  by (induction k d f m rule: omap_upd.induct) (simp_all add: insert_commute)

lemma omap_upd_ok: "omap_ok m \<Longrightarrow> omap_ok (omap_upd k d f m)"
proof (induction m)
  case (Cons x m)
  obtain k' v where x: "x = (k', v)" by fastforce
  show ?case
  proof (cases "k < k'")
    case True
    then show ?thesis using Cons.prems x by auto
  next
    case False
    have "fst ` set (omap_upd k d f m) = insert k (fst ` set m)" by (rule set_omap_upd)
    with False Cons x show ?thesis by (auto simp flip: image_set)
  qed
qed simp

lemma map_of_omap_upd:
  assumes "omap_ok m"
  shows "map_of (omap_upd k d f m) = (map_of m)(k \<mapsto> f (case map_of m k of None \<Rightarrow> d | Some v \<Rightarrow> v))"
  using assms
proof (induction m)
  case (Cons x m)
  obtain k' v where x: "x = (k', v)" by fastforce
  have "map_of m k = None" if "k < k'"
    using Cons.prems that x by (auto simp: map_of_eq_None_iff simp flip: image_set)
  then show ?case using Cons x by (auto simp: fun_eq_iff)
qed (simp add: fun_eq_iff)

definition result_ok :: "TAllTopics \<Rightarrow> bool" where
  "result_ok r \<longleftrightarrow> omap_ok r \<and> (\<forall>(t, g) \<in> set r. omap_ok g)"

lemma result_ok_group: "result_ok r \<Longrightarrow> map_of r t = Some g \<Longrightarrow> omap_ok g"
  by (auto simp: result_ok_def dest: map_of_SomeD)

lemma omap_upd_in: "x \<in> set (omap_upd k d f m) \<Longrightarrow> x \<in> set m \<or> (\<exists>v. x = (k, f v) \<and> (v = d \<or> (k, v) \<in> set m))"
  by (induction m) (auto split: if_splits)

lemma at_msg_set_ok: "result_ok r \<Longrightarrow> result_ok (at_msg_set t p h r)"
  by (fastforce simp: result_ok_def at_msg_set_def omap_upd_ok dest: omap_upd_in)

lemma get_at_msg_set:
  assumes "result_ok r"
  shows "get_msg_set t' p' (at_msg_set t p h r) = (if t' = t \<and> p' = p then h (get_msg_set t p r) else get_msg_set t' p' r)"
proof -
  have "map_of (at_msg_set t p h r) = (map_of r)(t \<mapsto> omap_upd p new_TMsgSet h (case map_of r t of None \<Rightarrow> [] | Some v \<Rightarrow> v))"
    using assms by (simp add: at_msg_set_def map_of_omap_upd result_ok_def)
  then show ?thesis
    using result_ok_group [OF assms]
    by (auto simp: get_msg_set_def map_of_omap_upd split: option.splits)
qed

section \<open>Choosers\<close>

definition choices :: "TProduceRequestFactory \<Rightarrow> string \<Rightarrow> int list" where
  "choices f t = (case pf_Metadata f of None \<Rightarrow> [] | Some md \<Rightarrow> FindPartitionChoices md t (pf_BrokerIndex f))"

text \<open>The partition whose turn it is.\<close>

definition pick :: "TProduceRequestFactory \<Rightarrow> string \<Rightarrow> int" where
  "pick f t = choices f t ! (unat (ch_Count (chooser t f)) mod length (choices f t))"

definition pf_wf :: "TProduceRequestFactory \<Rightarrow> bool" where
  "pf_wf f \<longleftrightarrow> (\<forall>t p. ch_Choice (chooser t f) = Some p \<longrightarrow> choices f t \<noteq> [] \<and> p = pick f t)"

definition assigned :: "TProduceRequestFactory \<Rightarrow> TMsg \<Rightarrow> TMsg" where
  "assigned f m = (if GetRoutingType m = AnyPartition then SetPartition (pick f (GetTopic m)) m else m)"

lemma assigned_simps [simp]:
  "GetTopic (assigned f m) = GetTopic m" "GetRoutingType (assigned f m) = GetRoutingType m"
  "GetKeyAndValue (assigned f m) = GetKeyAndValue m" "GetKeySize (assigned f m) = GetKeySize m"
  by (simp_all add: assigned_def)

text \<open>What stays the same while a request is filled.\<close>

definition same_round :: "TProduceRequestFactory \<Rightarrow> TProduceRequestFactory \<Rightarrow> bool" where
  "same_round f f' \<longleftrightarrow>
     pf_Metadata f' = pf_Metadata f \<and> pf_BrokerIndex f' = pf_BrokerIndex f \<and>
     pf_ProduceRequestDataLimit f' = pf_ProduceRequestDataLimit f \<and>
     pf_MessageMaxBytes f' = pf_MessageMaxBytes f \<and> pf_SingleMsgOverhead f' = pf_SingleMsgOverhead f \<and>
     pf_ClientId f' = pf_ClientId f \<and> pf_ReplicationTimeout f' = pf_ReplicationTimeout f \<and>
     pf_MaxCompressionRatio f' = pf_MaxCompressionRatio f \<and> pf_CorrIdCounter f' = pf_CorrIdCounter f \<and>
     pf_DefaultTopicCompressionInfo f' = pf_DefaultTopicCompressionInfo f \<and>
     (\<forall>t. td_CompressionInfo (topic_data t f') = td_CompressionInfo (topic_data t f) \<and>
          ch_Count (chooser t f') = ch_Count (chooser t f))"

lemma same_round_refl [simp]: "same_round f f"
  by (simp add: same_round_def)

lemma same_round_trans: "same_round f f1 \<Longrightarrow> same_round f1 f2 \<Longrightarrow> same_round f f2"
  by (simp add: same_round_def)

lemma same_round_pick:
  assumes "same_round f f'"
  shows "choices f' t = choices f t" "pick f' t = pick f t" "assigned f' m = assigned f m"
    "compressed t f' \<longleftrightarrow> compressed t f"
  using assms by (simp_all add: same_round_def choices_def pick_def assigned_def cong: option.case_cong)

lemma topic_data_queue [simp]: "topic_data t (f\<lparr>pf_InputQueue := q\<rparr>) = topic_data t f"
  by (simp add: topic_data_def cong: option.case_cong)

lemma topic_data_GetTopicData [simp]: "topic_data t (pf_GetTopicData topic f) = topic_data t f"
  by (auto simp: topic_data_def pf_GetTopicData_def map_insert_def map_add_def split: option.splits)

definition known :: "string \<Rightarrow> TProduceRequestFactory \<Rightarrow> bool" where
  "known t f \<longleftrightarrow> t \<in> fst ` set (pf_TopicDataMap f)"

lemma known_simps [simp]:
  "known t (f\<lparr>pf_InputQueue := q\<rparr>) = known t f"
  "known t (pf_set_chooser topic c f) = known t f"
  "known t (pf_GetTopicData topic f) \<longleftrightarrow> t = topic \<or> known t f"
  "known t (pf_choice_used topic m f) = known t f"
  by (auto simp: known_def pf_set_chooser_def pf_GetTopicData_def map_insert_def pf_choice_used_def image_iff
      split: prod.splits) (force+)?

lemma topic_data_set_chooser:
  assumes "known topic f"
  shows "topic_data t (pf_set_chooser topic c f) =
    (if t = topic then (topic_data t f)\<lparr>td_AnyPartitionChooser := c\<rparr> else topic_data t f)"
proof -
  have *: "map_of (map (\<lambda>(t, d). (t, if t = topic then d\<lparr>td_AnyPartitionChooser := c\<rparr> else d)) xs) t =
      map_option (\<lambda>d. if t = topic then d\<lparr>td_AnyPartitionChooser := c\<rparr> else d) (map_of xs t)" for xs
    by (induction xs) auto
  have "map_of (pf_TopicDataMap f) topic \<noteq> None" using assms by (simp add: known_def map_of_eq_None_iff)
  then show ?thesis
    by (auto simp: topic_data_def pf_set_chooser_def * split: option.splits)
qed

lemma same_round_basic:
  "same_round f (f\<lparr>pf_InputQueue := q\<rparr>)" "same_round f (pf_GetTopicData topic f)"
  "known topic f \<Longrightarrow> ch_Count c = ch_Count (chooser topic f) \<Longrightarrow> same_round f (pf_set_chooser topic c f)"
  by (simp_all add: same_round_def topic_data_set_chooser)
    (simp_all add: pf_GetTopicData_def pf_set_chooser_def)

lemma pf_wf_same_round:
  assumes "pf_wf f" "same_round f f'" "\<And>t. ch_Choice (chooser t f') = ch_Choice (chooser t f)"
  shows "pf_wf f'"
  using assms same_round_pick(1,2) [OF assms(2)] by (auto simp: pf_wf_def)

text \<open>Which choosers have been used.\<close>

definition used :: "TProduceRequestFactory \<Rightarrow> string \<Rightarrow> bool" where
  "used f t = ch_ChoiceUsed (chooser t f)"

lemma GetChoice_ok:
  assumes "pf_wf f" "pf_Metadata f = Some md" "choices f t \<noteq> []"
  shows "\<exists>c. ch_GetChoice (pf_BrokerIndex f) md t (chooser t f) = Inr (pick f t, c) \<and>
    ch_Count c = ch_Count (chooser t f) \<and> ch_Choice c = Some (pick f t) \<and> ch_ChoiceUsed c = used f t"
proof -
  have v: "FindPartitionChoices md t (pf_BrokerIndex f) = choices f t" using assms(2) by (simp add: choices_def)
  show ?thesis
    using assms(1,3)
    by (cases "ch_Choice (chooser t f)")
      (auto simp: ch_GetChoice_def ch_Choose_def v Let_def pick_def pf_wf_def used_def)
qed

lemma assign_ok:
  assumes "pf_wf f" "known (GetTopic m) f"
    and "GetRoutingType m = AnyPartition \<Longrightarrow> choices f (GetTopic m) \<noteq> []"
  shows "\<exists>f'. pf_assign (GetTopic m) m f = Inr (assigned f m, f') \<and> same_round f f' \<and> pf_wf f' \<and>
    pf_InputQueue f' = pf_InputQueue f \<and> used f' = used f \<and> (\<forall>t. known t f' = known t f)"
proof (cases "GetRoutingType m = AnyPartition")
  case False
  then show ?thesis using assms(1) by (simp add: pf_assign_def assigned_def)
next
  case True
  with assms(3) have c: "choices f (GetTopic m) \<noteq> []" by simp
  then obtain md where md: "pf_Metadata f = Some md" by (auto simp: choices_def split: option.splits)
  from GetChoice_ok [OF assms(1) md c] obtain c where
    c: "ch_GetChoice (pf_BrokerIndex f) md (GetTopic m) (chooser (GetTopic m) f) = Inr (pick f (GetTopic m), c)"
    "ch_Count c = ch_Count (chooser (GetTopic m) f)" "ch_Choice c = Some (pick f (GetTopic m))"
    "ch_ChoiceUsed c = used f (GetTopic m)" by blast
  let ?f = "pf_set_chooser (GetTopic m) c f"
  have r: "same_round f ?f" using assms(2) c(2) by (rule same_round_basic)
  have "pf_wf ?f"
    using assms(1) c(3) same_round_pick(1,2) [OF r] \<open>choices f (GetTopic m) \<noteq> []\<close>
    by (auto simp: pf_wf_def topic_data_set_chooser [OF assms(2)])
  moreover have "used ?f = used f"
    using c(4) by (auto simp: used_def fun_eq_iff topic_data_set_chooser [OF assms(2)])
  ultimately show ?thesis
    using True md c(1) r by (simp add: pf_assign_def assigned_def)
qed

lemma choice_used_ok:
  assumes "pf_wf f" "known (GetTopic m) f"
  shows "same_round f (pf_choice_used (GetTopic m) m f)" "pf_wf (pf_choice_used (GetTopic m) m f)"
    "used (pf_choice_used (GetTopic m) m f) t \<longleftrightarrow> used f t \<or> GetRoutingType m = AnyPartition \<and> t = GetTopic m"
proof -
  show r: "same_round f (pf_choice_used (GetTopic m) m f)"
    using assms(2) by (auto simp: pf_choice_used_def ch_SetChoiceUsed_def intro: same_round_basic)
  show "pf_wf (pf_choice_used (GetTopic m) m f)"
    by (rule pf_wf_same_round [OF assms(1) r])
      (simp add: pf_choice_used_def topic_data_set_chooser [OF assms(2)] ch_SetChoiceUsed_def)
  show "used (pf_choice_used (GetTopic m) m f) t \<longleftrightarrow> used f t \<or> GetRoutingType m = AnyPartition \<and> t = GetTopic m"
    by (simp add: used_def pf_choice_used_def topic_data_set_chooser [OF assms(2)] ch_SetChoiceUsed_def)
qed

section \<open>The invariant\<close>

abbreviation in_set_of :: "string \<Rightarrow> int \<Rightarrow> TMsg list \<Rightarrow> TMsg list" where
  "in_set_of t p ms \<equiv> filter (\<lambda>m. GetTopic m = t \<and> GetPartition m = p) ms"

text \<open>The size of a message set with the overhead of each message.\<close>

definition set_size :: "nat \<Rightarrow> TMsg list \<Rightarrow> nat" where
  "set_size overhead ms = (\<Sum>m\<leftarrow>ms. length (GetKeyAndValue m) + overhead)"

definition no_room :: "TProduceRequestFactory \<Rightarrow> TMsg list \<Rightarrow> TMsg \<Rightarrow> bool" where
  "no_room f taken m \<longleftrightarrow>
     pf_ProduceRequestDataLimit f < GetDataSize taken + length (GetKeyAndValue m) \<or>
     compressed (GetTopic m) f \<and>
       pf_MessageMaxBytes f < set_size (pf_SingleMsgOverhead f) (in_set_of (GetTopic m) (GetPartition m) (taken @ [m]))"

definition fill_inv ::
  "TProduceRequestFactory \<Rightarrow> TMsg list \<Rightarrow> nat \<Rightarrow> TAllTopics \<Rightarrow> TProduceRequestFactory \<Rightarrow> bool" where
  "fill_inv f0 taken n result f \<longleftrightarrow>
     same_round f0 f \<and> pf_wf f \<and> result_ok result \<and> n = GetDataSize taken \<and>
     (\<forall>t p. ms_Contents (get_msg_set t p result) = in_set_of t p taken) \<and>
     (\<forall>t p. compressed t f0 \<longrightarrow>
        ms_DataSize (get_msg_set t p result) = set_size (pf_SingleMsgOverhead f0) (in_set_of t p taken)) \<and>
     (\<forall>t. used f t \<longleftrightarrow> used f0 t \<or> (\<exists>m \<in> set taken. GetTopic m = t \<and> GetRoutingType m = AnyPartition))"

lemma new_msg_set [simp]: "ms_Contents new_TMsgSet = []" "ms_DataSize new_TMsgSet = 0"
  by (simp_all add: new_TMsgSet_def)

lemma set_size_simps [simp]:
  "set_size n [] = 0" "set_size n (xs @ ys) = set_size n xs + set_size n ys"
  "set_size n (m # xs) = length (GetKeyAndValue m) + n + set_size n xs"
  by (simp_all add: set_size_def)

lemma GetDataSize_snoc [simp]: "GetDataSize (xs @ ys) = GetDataSize xs + GetDataSize ys"
  "GetDataSize (m # xs) = length (GetKeyAndValue m) + GetDataSize xs" "GetDataSize [] = 0"
  by (simp_all add: GetDataSize_def)

lemma fill_inv_queue [simp]: "fill_inv f0 taken n result (f\<lparr>pf_InputQueue := q\<rparr>) = fill_inv f0 taken n result f"
proof -
  have "same_round f0 (f\<lparr>pf_InputQueue := q\<rparr>) = same_round f0 f"
    by (simp add: same_round_def)
  moreover have "pf_wf (f\<lparr>pf_InputQueue := q\<rparr>) = pf_wf f"
    by (simp add: pf_wf_def choices_def pick_def cong: option.case_cong)
  ultimately show ?thesis by (simp add: fill_inv_def used_def)
qed

lemma fill_inv_GetTopicData [simp]:
  "fill_inv f0 taken n result (pf_GetTopicData t f) = fill_inv f0 taken n result f"
proof -
  have "same_round f0 (pf_GetTopicData t f) = same_round f0 f"
    by (simp add: same_round_def) (simp add: pf_GetTopicData_def)
  moreover have "pf_wf (pf_GetTopicData t f) = pf_wf f"
    by (simp add: pf_wf_def choices_def pick_def cong: option.case_cong)
      (simp add: pf_GetTopicData_def cong: option.case_cong)
  ultimately show ?thesis by (simp add: fill_inv_def used_def)
qed

lemma fill_inv_touch:
  "fill_inv f0 taken n result f \<Longrightarrow> fill_inv f0 taken n (at_msg_set t p (\<lambda>s. s) result) f"
  by (auto simp: fill_inv_def at_msg_set_ok get_at_msg_set)

text \<open>Adding a message that has its partition.\<close>

lemma fill_inv_add:
  assumes inv: "fill_inv f0 taken n result f" and k: "known (GetTopic m) f"
    and h: "\<And>s. ms_Contents (h s) = ms_Contents s @ [m]"
    and d: "compressed (GetTopic m) f0 \<Longrightarrow> ms_DataSize (h (get_msg_set (GetTopic m) (GetPartition m) result)) =
      ms_DataSize (get_msg_set (GetTopic m) (GetPartition m) result) + length (GetKeyAndValue m) + pf_SingleMsgOverhead f0"
  shows "fill_inv f0 (taken @ [m]) (n + length (GetKeyAndValue m))
    (at_msg_set (GetTopic m) (GetPartition m) h result) (pf_choice_used (GetTopic m) m f)"
proof -
  from inv have w: "pf_wf f" "same_round f0 f" "result_ok result" by (simp_all add: fill_inv_def)
  note c = choice_used_ok [OF w(1) k]
  have "same_round f0 (pf_choice_used (GetTopic m) m f)" using same_round_trans [OF w(2) c(1)] .
  moreover have "used (pf_choice_used (GetTopic m) m f) t \<longleftrightarrow>
      used f0 t \<or> (\<exists>m' \<in> set (taken @ [m]). GetTopic m' = t \<and> GetRoutingType m' = AnyPartition)" for t
    using inv c(3) [of t] by (auto simp: fill_inv_def)
  moreover have "ms_DataSize (get_msg_set t p (at_msg_set (GetTopic m) (GetPartition m) h result)) =
      set_size (pf_SingleMsgOverhead f0) (in_set_of t p (taken @ [m]))" if "compressed t f0" for t p
    using inv d that by (auto simp: fill_inv_def get_at_msg_set [OF w(3)])
  moreover have "ms_Contents (get_msg_set t p (at_msg_set (GetTopic m) (GetPartition m) h result)) =
      in_set_of t p (taken @ [m])" for t p
    using inv by (auto simp: fill_inv_def get_at_msg_set [OF w(3)] h)
  ultimately show ?thesis
    using inv c(2) w(3) unfolding fill_inv_def by (simp add: at_msg_set_ok)
qed

lemma TryConsume_ok:
  assumes inv: "fill_inv f0 taken n result f" and k: "known (GetTopic m) f"
    and q: "pf_InputQueue f = (m # batch) # q"
    and c: "GetRoutingType m = AnyPartition \<Longrightarrow> choices f0 (GetTopic m) \<noteq> []"
  defines "m' \<equiv> assigned f0 m"
  shows "\<exists>result' f'. TryConsumeFrontMsg (GetTopic m) n result f =
      Inr (\<not> no_room f0 taken m', GetDataSize (if no_room f0 taken m' then taken else taken @ [m']), result', f') \<and>
    fill_inv f0 (if no_room f0 taken m' then taken else taken @ [m'])
      (GetDataSize (if no_room f0 taken m' then taken else taken @ [m'])) result' f' \<and>
    pf_InputQueue f' = (m' # batch) # q \<and> (\<forall>t. known t f \<longrightarrow> known t f')"
proof -
  from inv have r: "same_round f0 f" and wf: "pf_wf f" and n: "n = GetDataSize taken" by (simp_all add: fill_inv_def)
  have "GetRoutingType m = AnyPartition \<Longrightarrow> choices f (GetTopic m) \<noteq> []"
    using c same_round_pick(1) [OF r] by simp
  from assign_ok [OF wf k this] obtain f1 where f1: "pf_assign (GetTopic m) m f = Inr (m', f1)"
    "same_round f f1" "pf_wf f1" "pf_InputQueue f1 = pf_InputQueue f" "used f1 = used f" "\<forall>t. known t f1 = known t f"
    using same_round_pick(3) [OF r] by (auto simp: m'_def)
  have "fill_inv f0 taken n result f1"
    using inv f1 same_round_trans [OF r f1(2)] by (simp add: fill_inv_def)
  then have inv1: "fill_inv f0 taken n result (f1\<lparr>pf_InputQueue := (m' # batch) # q\<rparr>)" by simp
  have r1: "same_round f0 f1" using same_round_trans [OF r f1(2)] .
  have t: "GetTopic m' = GetTopic m" by (simp add: m'_def)
  have size: "compressed (GetTopic m) f0 \<Longrightarrow> ms_DataSize (get_msg_set (GetTopic m) (GetPartition m') result) =
      set_size (pf_SingleMsgOverhead f0) (in_set_of (GetTopic m) (GetPartition m') taken)"
    using inv by (simp add: fill_inv_def)
  have cfg: "pf_ProduceRequestDataLimit f1 = pf_ProduceRequestDataLimit f0" "pf_MessageMaxBytes f1 = pf_MessageMaxBytes f0"
    "pf_SingleMsgOverhead f1 = pf_SingleMsgOverhead f0" "compressed (GetTopic m) f1 \<longleftrightarrow> compressed (GetTopic m) f0"
    using r1 same_round_pick(4) [OF r1] by (simp_all add: same_round_def)
  let ?f1 = "f1\<lparr>pf_InputQueue := (m' # batch) # q\<rparr>"
  let ?big = "pf_ProduceRequestDataLimit f0 < n + length (GetKeyAndValue m')"
  let ?d = "ms_DataSize (get_msg_set (GetTopic m) (GetPartition m') result) + length (GetKeyAndValue m') + pf_SingleMsgOverhead f0"
  have room: "no_room f0 taken m' \<longleftrightarrow> ?big \<or> compressed (GetTopic m) f0 \<and> pf_MessageMaxBytes f0 < ?d"
    using size by (auto simp: no_room_def n t ac_simps)
  have try_eq: "TryConsumeFrontMsg (GetTopic m) n result f =
      (if ?big then Inr (False, n, result, ?f1)
       else if compressed (GetTopic m) f0 \<and> pf_MessageMaxBytes f0 < ?d
       then Inr (False, n, at_msg_set (GetTopic m) (GetPartition m') (\<lambda>s. s) result, ?f1)
       else Inr (True, n + length (GetKeyAndValue m'),
         at_msg_set (GetTopic m) (GetPartition m') (\<lambda>s.
           let s = (if compressed (GetTopic m) f0 then s\<lparr>ms_DataSize := ?d\<rparr> else s)
           in s\<lparr>ms_Contents := ms_Contents s @ [m']\<rparr>) result, pf_choice_used (GetTopic m) m' ?f1))"
    using q f1(1) cfg by (simp add: TryConsumeFrontMsg_def Let_def cong: if_cong)
  show ?thesis
  proof (cases "no_room f0 taken m'")
    case True
    have "fill_inv f0 taken n (at_msg_set (GetTopic m) (GetPartition m') (\<lambda>s. s) result) ?f1"
      using inv1 by (rule fill_inv_touch)
    with True inv1 f1(6) n room show ?thesis unfolding try_eq by auto
  next
    case False
    have "fill_inv f0 (taken @ [m']) (n + length (GetKeyAndValue m')) (at_msg_set (GetTopic m) (GetPartition m') (\<lambda>s.
           let s = (if compressed (GetTopic m) f0 then s\<lparr>ms_DataSize := ?d\<rparr> else s)
           in s\<lparr>ms_Contents := ms_Contents s @ [m']\<rparr>) result) (pf_choice_used (GetTopic m) m' ?f1)"
      using fill_inv_add [OF inv1, of m'] t k f1(6) by (simp add: Let_def)
    with False f1(6) n room show ?thesis unfolding try_eq by auto
  qed
qed

section \<open>The loops\<close>

text \<open>Each message had room when it was added.\<close>

fun fits :: "TProduceRequestFactory \<Rightarrow> TMsg list \<Rightarrow> TMsg list \<Rightarrow> bool" where
  "fits f taken [] = True"
| "fits f taken (m # ms) \<longleftrightarrow> \<not> no_room f taken m \<and> fits f (taken @ [m]) ms"

lemma fits_append: "fits f taken (xs @ ys) \<longleftrightarrow> fits f taken xs \<and> fits f (taken @ xs) ys"
  by (induction xs arbitrary: taken) auto

text \<open>The first \<open>k\<close> of the messages have been added, and the next one has no room; its partition has
  been assigned already.\<close>

definition filled :: "TProduceRequestFactory \<Rightarrow> TMsg list \<Rightarrow> TMsg list \<Rightarrow> nat \<Rightarrow> bool" where
  "filled f0 taken ms k \<longleftrightarrow>
     k \<le> length ms \<and> fits f0 taken (map (assigned f0) (take k ms)) \<and>
     (k < length ms \<longrightarrow> no_room f0 (taken @ map (assigned f0) (take k ms)) (assigned f0 (ms ! k)))"

definition left_over :: "TProduceRequestFactory \<Rightarrow> TMsg list \<Rightarrow> nat \<Rightarrow> TMsg list" where
  "left_over f0 ms k = (case drop k ms of [] \<Rightarrow> [] | m # rest \<Rightarrow> assigned f0 m # rest)"

lemma batch_loop_ok:
  assumes "fill_inv f0 taken n result f" "known topic f" "pf_InputQueue f = xs # q" "xs \<noteq> []"
    and "\<forall>m \<in> set xs. GetTopic m = topic"
    and "\<forall>m \<in> set xs. GetRoutingType m = AnyPartition \<longrightarrow> choices f0 (GetTopic m) \<noteq> []"
  shows "\<exists>k n' result' f'. pf_batch_loop topic n result f = Inr (k < length xs, n', result', f') \<and>
    filled f0 taken xs k \<and> fill_inv f0 (taken @ map (assigned f0) (take k xs)) n' result' f' \<and>
    pf_InputQueue f' = (if k < length xs then left_over f0 xs k # q else q)"
  using assms
proof (induction xs arbitrary: taken n result f)
  case (Cons m xs)
  let ?m = "assigned f0 m"
  have t: "GetTopic m = topic" using Cons.prems by simp
  from TryConsume_ok [OF Cons.prems(1) _ Cons.prems(3)] Cons.prems(2,6) t
  obtain result1 f1 where tr: "TryConsumeFrontMsg topic n result f =
      Inr (\<not> no_room f0 taken ?m, GetDataSize (if no_room f0 taken ?m then taken else taken @ [?m]), result1, f1)"
    "fill_inv f0 (if no_room f0 taken ?m then taken else taken @ [?m])
      (GetDataSize (if no_room f0 taken ?m then taken else taken @ [?m])) result1 f1"
    "pf_InputQueue f1 = (?m # xs) # q" "known topic f1"
    by auto
  show ?case
  proof (cases "no_room f0 taken ?m")
    case True
    then have loop: "pf_batch_loop topic n result f = Inr (True, GetDataSize taken, result1, f1)"
      using tr(1) Cons.prems(3) t by (subst pf_batch_loop.simps) simp
    show ?thesis
      by (rule exI [of _ 0]) (use True tr(2,3) loop in \<open>simp add: filled_def left_over_def\<close>)
  next
    case room: False
    let ?f = "pf_pop_front f1"
    have inv: "fill_inv f0 (taken @ [?m]) (GetDataSize (taken @ [?m])) result1 ?f" "known topic ?f"
      using tr room by (auto simp: pf_pop_front_def)
    have q: "pf_InputQueue ?f = (if xs = [] then q else xs # q)" using tr(3) by (simp add: pf_pop_front_def)
    have loop: "pf_batch_loop topic n result f =
        (if xs = [] then Inr (False, GetDataSize (taken @ [?m]), result1, ?f)
         else pf_batch_loop topic (GetDataSize (taken @ [?m])) result1 ?f)"
      using tr(1) Cons.prems(3) t room by (subst pf_batch_loop.simps) simp
    show ?thesis
    proof (cases "xs = []")
      case True
      show ?thesis by (rule exI [of _ 1]) (use True loop inv q room in \<open>simp add: filled_def\<close>)
    next
      case False
      with Cons.IH [OF inv] q Cons.prems(5,6) obtain k n' result' f' where IH:
        "pf_batch_loop topic (GetDataSize (taken @ [?m])) result1 ?f = Inr (k < length xs, n', result', f')"
        "filled f0 (taken @ [?m]) xs k" "fill_inv f0 ((taken @ [?m]) @ map (assigned f0) (take k xs)) n' result' f'"
        "pf_InputQueue f' = (if k < length xs then left_over f0 xs k # q else q)"
        by auto
      show ?thesis
        by (rule exI [of _ "Suc k"]) (use IH loop False room in \<open>auto simp: filled_def left_over_def\<close>)
    qed
  qed
qed simp

lemma left_over_append:
  "left_over f0 (xs @ ys) (length xs + k) = left_over f0 ys k"
  "k < length xs \<Longrightarrow> left_over f0 (xs @ ys) k = left_over f0 xs k @ ys"
  by (auto simp: left_over_def split: list.splits)

lemma filled_append:
  assumes "filled f0 taken xs (length xs)" "filled f0 (taken @ map (assigned f0) xs) ys k"
  shows "filled f0 taken (xs @ ys) (length xs + k)"
  using assms by (auto simp: filled_def fits_append nth_append)

lemma filled_stop:
  assumes "filled f0 taken xs k" "k < length xs"
  shows "filled f0 taken (xs @ ys) k"
  using assms by (auto simp: filled_def nth_append)

lemma left_over_ok:
  assumes "batch_ok xs" "k < length xs"
  shows "batch_ok (left_over f0 xs k)"
proof -
  from assms(2) obtain m rest where d: "drop k xs = m # rest" by (cases "drop k xs") auto
  then have "set (m # rest) \<subseteq> set xs" using set_drop_subset [of k xs] by simp
  then have "\<forall>x \<in> set rest. GetTopic x = GetTopic m"
    using assms(1) by (auto simp: batch_ok_def one_topic_def)
  then show ?thesis using d by (simp add: left_over_def batch_ok_def one_topic_Cons)
qed

lemma contents_loop_ok:
  assumes "fill_inv f0 taken n result f" "\<forall>b \<in> set (pf_InputQueue f). batch_ok b"
    and "\<forall>m \<in> set (concat (pf_InputQueue f)). GetRoutingType m = AnyPartition \<longrightarrow> choices f0 (GetTopic m) \<noteq> []"
  shows "\<exists>k n' result' f'. pf_contents_loop n result f = Inr (n', result', f') \<and>
    filled f0 taken (concat (pf_InputQueue f)) k \<and>
    fill_inv f0 (taken @ map (assigned f0) (take k (concat (pf_InputQueue f)))) n' result' f' \<and>
    concat (pf_InputQueue f') = left_over f0 (concat (pf_InputQueue f)) k \<and>
    (\<forall>b \<in> set (pf_InputQueue f'). batch_ok b)"
  using assms
proof (induction "pf_InputQueue f" arbitrary: taken n result f)
  case Nil
  then show ?case
    by (subst pf_contents_loop.simps) (auto simp: filled_def left_over_def intro!: exI [of _ "0 :: nat"])
next
  case (Cons xs q)
  note q = Cons.hyps(2) [symmetric]
  have "batch_ok xs" using Cons.prems(2) q by simp
  then obtain m batch where xs: "xs = m # batch" by (auto simp: batch_ok_def neq_Nil_conv)
  have t: "\<forall>m' \<in> set xs. GetTopic m' = GetTopic m"
    using \<open>batch_ok xs\<close> xs by (simp add: batch_ok_def one_topic_Cons)
  let ?f = "pf_GetTopicData (GetTopic m) f"
  have "fill_inv f0 taken n result ?f" "known (GetTopic m) ?f" "pf_InputQueue ?f = xs # q" "xs \<noteq> []"
    "\<forall>m \<in> set xs. GetRoutingType m = AnyPartition \<longrightarrow> choices f0 (GetTopic m) \<noteq> []"
    using Cons.prems q xs by auto
  from batch_loop_ok [OF this(1-4) t this(5)] obtain k n1 result1 f1 where b:
    "pf_batch_loop (GetTopic m) n result ?f = Inr (k < length xs, n1, result1, f1)"
    "filled f0 taken xs k" "fill_inv f0 (taken @ map (assigned f0) (take k xs)) n1 result1 f1"
    "pf_InputQueue f1 = (if k < length xs then left_over f0 xs k # q else q)"
    by blast
  have loop: "pf_contents_loop n result f =
      (if k < length xs then Inr (n1, result1, f1) else pf_contents_loop n1 result1 f1)"
    using q xs b(1) by (subst pf_contents_loop.simps) simp
  show ?case
  proof (cases "k < length xs")
    case True
    have "\<forall>b \<in> set (pf_InputQueue f1). batch_ok b"
      using b(4) True Cons.prems(2) q left_over_ok [OF \<open>batch_ok xs\<close> True] by simp
    moreover have "filled f0 taken (concat (pf_InputQueue f)) k"
      "concat (pf_InputQueue f1) = left_over f0 (concat (pf_InputQueue f)) k"
      "take k (concat (pf_InputQueue f)) = take k xs"
      using filled_stop [OF b(2) True] left_over_append(2) [OF True] b(4) True q by simp_all
    ultimately show ?thesis using loop True b(3) by auto
  next
    case False
    with b(2) have k: "k = length xs" by (simp add: filled_def)
    have q1: "q = pf_InputQueue f1" using b(4) False by simp
    have "\<forall>b \<in> set (pf_InputQueue f1). batch_ok b"
      "\<forall>m \<in> set (concat (pf_InputQueue f1)). GetRoutingType m = AnyPartition \<longrightarrow> choices f0 (GetTopic m) \<noteq> []"
      using Cons.prems(2,3) q q1 by auto
    from Cons.hyps(1) [OF q1 b(3) this] obtain k' n' result' f' where r:
      "pf_contents_loop n1 result1 f1 = Inr (n', result', f')"
      "filled f0 (taken @ map (assigned f0) (take k xs)) (concat (pf_InputQueue f1)) k'"
      "fill_inv f0 ((taken @ map (assigned f0) (take k xs)) @ map (assigned f0) (take k' (concat (pf_InputQueue f1)))) n' result' f'"
      "concat (pf_InputQueue f') = left_over f0 (concat (pf_InputQueue f1)) k'" "\<forall>b \<in> set (pf_InputQueue f'). batch_ok b"
      by blast
    have c: "concat (pf_InputQueue f) = xs @ concat (pf_InputQueue f1)" using q q1 by simp
    have "filled f0 taken (concat (pf_InputQueue f)) (length xs + k')"
      unfolding c by (rule filled_append) (use b(2) r(2) k in simp_all)
    moreover have "concat (pf_InputQueue f') = left_over f0 (concat (pf_InputQueue f)) (length xs + k')"
      unfolding c left_over_append(1) by (rule r(4))
    moreover have "fill_inv f0 (taken @ map (assigned f0) (take (length xs + k') (concat (pf_InputQueue f)))) n' result' f'"
      using r(3) k by (simp add: c)
    ultimately show ?thesis using loop False r(1,5) by auto
  qed
qed

section \<open>The whole request\<close>

lemma fill_inv_start: "pf_wf f \<Longrightarrow> fill_inv f [] 0 [] f"
  by (simp add: fill_inv_def result_ok_def get_msg_set_def)

lemma AddFirstMsg_ok:
  assumes "pf_wf f" "pf_InputQueue f = (m # batch) # q"
    and c: "GetRoutingType m = AnyPartition \<longrightarrow> choices f (GetTopic m) \<noteq> []"
  shows "\<exists>result f'. AddFirstMsg f = Inr (length (GetKeyAndValue m), result, f') \<and>
    fill_inv f [assigned f m] (length (GetKeyAndValue m)) result f' \<and>
    pf_InputQueue f' = (if batch = [] then q else batch # q)"
proof -
  let ?f0 = "pf_GetTopicData (GetTopic m) (f\<lparr>pf_InputQueue := (if batch = [] then q else batch # q)\<rparr>)"
  let ?m = "assigned f m"
  have inv0: "fill_inv f [] 0 [] ?f0" using fill_inv_start [OF assms(1)] by simp
  then have r0: "same_round f ?f0" "pf_wf ?f0" by (simp_all add: fill_inv_def)
  have "GetRoutingType m = AnyPartition \<Longrightarrow> choices ?f0 (GetTopic m) \<noteq> []"
    using c same_round_pick(1) [OF r0(1)] by simp
  from assign_ok [OF r0(2) _ this] obtain f1 where f1: "pf_assign (GetTopic m) m ?f0 = Inr (?m, f1)"
    "same_round ?f0 f1" "pf_wf f1" "pf_InputQueue f1 = pf_InputQueue ?f0" "used f1 = used ?f0" "known (GetTopic m) f1"
    using same_round_pick(3) [OF r0(1)] by auto
  have r1: "same_round f f1" using same_round_trans [OF r0(1) f1(2)] .
  have inv1: "fill_inv f [] 0 [] f1" using inv0 f1 r1 by (simp add: fill_inv_def)
  let ?h = "\<lambda>s. let s = (if compressed (GetTopic m) f then s\<lparr>ms_DataSize := length (GetKeyAndValue m) + pf_SingleMsgOverhead f\<rparr> else s)
    in s\<lparr>ms_Contents := ms_Contents s @ [?m]\<rparr>"
  have inv2: "fill_inv f ([] @ [?m]) (0 + length (GetKeyAndValue ?m)) (at_msg_set (GetTopic ?m) (GetPartition ?m) ?h [])
      (pf_choice_used (GetTopic ?m) ?m f1)"
    using f1(6) by (intro fill_inv_add [OF inv1]) (simp_all add: Let_def get_msg_set_def)
  then have "same_round f (pf_choice_used (GetTopic m) ?m f1)" by (simp add: fill_inv_def)
  then have "compressed (GetTopic m) (pf_choice_used (GetTopic m) ?m f1) \<longleftrightarrow> compressed (GetTopic m) f"
    "pf_SingleMsgOverhead (pf_choice_used (GetTopic m) ?m f1) = pf_SingleMsgOverhead f"
    by (simp_all add: same_round_def)
  then have "AddFirstMsg f = Inr (length (GetKeyAndValue m), at_msg_set (GetTopic m) (GetPartition ?m) ?h [],
      pf_choice_used (GetTopic m) ?m f1)"
    using assms(2) f1(1) by (simp add: AddFirstMsg_def Let_def cong: if_cong)
  with inv2 f1(4) show ?thesis by simp
qed

lemma topic_data_clear_choice:
  "topic_data t (pf_clear_choice topic f) =
   (if t = topic then (topic_data t f)\<lparr>td_AnyPartitionChooser := ch_ClearChoice (chooser t f)\<rparr> else topic_data t f)"
  by (simp add: pf_clear_choice_def Let_def topic_data_set_chooser)

text \<open>What clearing the choices and counting leave alone.\<close>

definition same_setup :: "TProduceRequestFactory \<Rightarrow> TProduceRequestFactory \<Rightarrow> bool" where
  "same_setup f f' \<longleftrightarrow>
     f' = f\<lparr>pf_counters := pf_counters f', pf_TopicDataMap := pf_TopicDataMap f'\<rparr>"

lemma same_setup_refl: "same_setup f f"
  by (simp add: same_setup_def)

lemma same_setup_trans: "same_setup f f1 \<Longrightarrow> same_setup f1 f2 \<Longrightarrow> same_setup f f2"
  by (cases f, cases f1, cases f2) (simp add: same_setup_def)

lemma same_setup_clear: "same_setup f (pf_clear_choice t f)"
  by (simp add: same_setup_def pf_clear_choice_def Let_def pf_set_chooser_def pf_GetTopicData_def)

lemma clear_choices:
  assumes "distinct (map fst r)"
  shows "topic_data t (fold (\<lambda>(topic, g). pf_clear_choice topic) r f) =
      (if t \<in> fst ` set r then (topic_data t f)\<lparr>td_AnyPartitionChooser := ch_ClearChoice (chooser t f)\<rparr>
       else topic_data t f)"
    and "same_setup f (fold (\<lambda>(topic, g). pf_clear_choice topic) r f)"
  using assms
proof (induction r arbitrary: f)
  case (Cons x r)
  {
    case 1
    then show ?case using Cons.IH(1) [of "pf_clear_choice (fst x) f"]
      by (cases x) (auto simp: topic_data_clear_choice image_iff)
  next
    case 2
    then show ?case using Cons.IH(2) [of "pf_clear_choice (fst x) f"] same_setup_clear [of f "fst x"]
      by (cases x) (auto intro: same_setup_trans)
  }
qed (simp_all add: same_setup_refl)

lemma omap_ok_distinct: "omap_ok m \<Longrightarrow> distinct (map fst m)"
  by (simp add: strict_sorted_iff)

text \<open>Dropping what is empty.\<close>

definition nonempty_sets :: "TAllTopics \<Rightarrow> TAllTopics" where
  "nonempty_sets r = filter (\<lambda>(t, g). g \<noteq> []) (map (\<lambda>(t, g). (t, filter (\<lambda>(p, s). ms_Contents s \<noteq> []) g)) r)"

lemma pf_count_iter: "\<exists>c. (pf_count name ^^ n) f = f\<lparr>pf_counters := c\<rparr>"
proof (induction n)
  case 0
  show ?case by (rule exI [of _ "pf_counters f"]) simp
next
  case (Suc n)
  then show ?case by (auto simp: pf_count_def)
qed

lemma sanity_topic_eq: "\<exists>c. sanity_topic x (acc, f) = (acc @ nonempty_sets [x], f\<lparr>pf_counters := c\<rparr>)"
proof -
  obtain t g where x: "x = (t, g)" by fastforce
  from pf_count_iter obtain c where c:
    "(pf_count ''BugMsgSetEmpty'' ^^ length (filter (\<lambda>(p, s). ms_Contents s = []) g)) f = f\<lparr>pf_counters := c\<rparr>" by blast
  show ?thesis unfolding x sanity_topic_def prod.case Let_def c
    by (auto simp: nonempty_sets_def pf_count_def)
qed

lemma SanityCheck_eq: "\<exists>c. SanityCheckRequestContents r f = (nonempty_sets r, f\<lparr>pf_counters := c\<rparr>)"
proof -
  have "\<exists>c. fold sanity_topic r (acc, f) = (acc @ nonempty_sets r, f\<lparr>pf_counters := c\<rparr>)" for acc
  proof (induction r arbitrary: acc f)
    case Nil
    show ?case by (rule exI [of _ "pf_counters f"]) (simp add: nonempty_sets_def)
  next
    case (Cons x r)
    obtain c where c: "sanity_topic x (acc, f) = (acc @ nonempty_sets [x], f\<lparr>pf_counters := c\<rparr>)"
      using sanity_topic_eq by blast
    obtain c' where "fold sanity_topic r (acc @ nonempty_sets [x], f\<lparr>pf_counters := c\<rparr>) =
        ((acc @ nonempty_sets [x]) @ nonempty_sets r, f\<lparr>pf_counters := c'\<rparr>)"
      using Cons.IH [of "acc @ nonempty_sets [x]" "f\<lparr>pf_counters := c\<rparr>"] by auto
    then show ?case using c by (auto simp: nonempty_sets_def)
  qed
  from this [of "[]"] show ?thesis by (simp add: SanityCheckRequestContents_def)
qed

lemma map_of_filter_snd:
  "distinct (map fst m) \<Longrightarrow> map_of (filter (\<lambda>(k, v). P v) m) k =
   (case map_of m k of None \<Rightarrow> None | Some v \<Rightarrow> if P v then Some v else None)"
  by (induction m) (auto split: option.splits simp: map_of_eq_None_iff [symmetric] dest: map_of_SomeD)

lemma omap_ok_filter: "omap_ok m \<Longrightarrow> omap_ok (filter P m)"
  by (induction m) auto

lemma nonempty_sets_ok:
  assumes "result_ok r"
  shows "result_ok (nonempty_sets r)"
    and "ms_Contents (get_msg_set t p (nonempty_sets r)) = ms_Contents (get_msg_set t p r)"
    and "(t, g) \<in> set (nonempty_sets r) \<Longrightarrow> g \<noteq> [] \<and> (\<forall>(p, s) \<in> set g. ms_Contents s \<noteq> [])"
    and "ms_Contents (get_msg_set t p r) \<noteq> [] \<Longrightarrow> get_msg_set t p (nonempty_sets r) = get_msg_set t p r"
proof -
  let ?g = "\<lambda>g :: TMultiPartitionGroup. filter (\<lambda>(p, s). ms_Contents s \<noteq> []) g"
  have fst_eq: "map fst (map (\<lambda>(t, g). (t, ?g g)) r) = map fst r" by (induction r) auto
  have "omap_ok (nonempty_sets r)"
    unfolding nonempty_sets_def by (rule omap_ok_filter) (use assms in \<open>simp only: fst_eq result_ok_def\<close>)
  moreover have "omap_ok g" if in_r: "(t, g) \<in> set (nonempty_sets r)" for t g
  proof -
    from in_r obtain g' where "(t, g') \<in> set r" "g = ?g g'" by (auto simp: nonempty_sets_def)
    with assms show ?thesis by (auto simp: result_ok_def intro: omap_ok_filter)
  qed
  ultimately show "result_ok (nonempty_sets r)" by (auto simp: result_ok_def)
  show "(t, g) \<in> set (nonempty_sets r) \<Longrightarrow> g \<noteq> [] \<and> (\<forall>(p, s) \<in> set g. ms_Contents s \<noteq> [])"
    by (auto simp: nonempty_sets_def)
  have d: "distinct (map fst r)" "map_of r t = Some g \<Longrightarrow> distinct (map fst g)" for t g
    using assms result_ok_group [OF assms] by (auto simp: result_ok_def omap_ok_distinct)
  have "map_of (nonempty_sets r) t = (case map_option ?g (map_of r t) of None \<Rightarrow> None
      | Some g \<Rightarrow> if g \<noteq> [] then Some g else None)"
    unfolding nonempty_sets_def
    by (subst map_of_filter_snd) (simp_all only: fst_eq d map_of_map comp_apply)
  then have get: "get_msg_set t p (nonempty_sets r) =
      (case map_of r t of None \<Rightarrow> new_TMsgSet
       | Some g \<Rightarrow> (case map_of (?g g) p of None \<Rightarrow> new_TMsgSet | Some s \<Rightarrow> s))"
    by (auto simp: get_msg_set_def split: option.splits if_splits)
  have both: "ms_Contents (get_msg_set t p (nonempty_sets r)) = ms_Contents (get_msg_set t p r) \<and>
    (ms_Contents (get_msg_set t p r) \<noteq> [] \<longrightarrow> get_msg_set t p (nonempty_sets r) = get_msg_set t p r)"
  proof (cases "map_of r t")
    case None
    then show ?thesis unfolding get by (simp add: get_msg_set_def)
  next
    case (Some g)
    then show ?thesis unfolding get
      using map_of_filter_snd [OF d(2) [OF Some], of "\<lambda>s. ms_Contents s \<noteq> []" p]
      by (cases "map_of g p") (simp_all add: get_msg_set_def)
  qed
  then show "ms_Contents (get_msg_set t p (nonempty_sets r)) = ms_Contents (get_msg_set t p r)" by simp
  show "ms_Contents (get_msg_set t p r) \<noteq> [] \<Longrightarrow> get_msg_set t p (nonempty_sets r) = get_msg_set t p r"
    using both by simp
qed

lemma get_msg_set_key: "ms_Contents (get_msg_set t p r) \<noteq> [] \<Longrightarrow> t \<in> fst ` set r"
  by (auto simp: get_msg_set_def split: option.splits dest: map_of_SomeD intro: rev_image_eqI)

text \<open>The choosers after a request in which the messages \<open>taken\<close> have been sent.\<close>

definition turns_taken :: "TProduceRequestFactory \<Rightarrow> TMsg list \<Rightarrow> TProduceRequestFactory \<Rightarrow> bool" where
  "turns_taken f taken f' \<longleftrightarrow>
     (\<forall>t. ch_Count (chooser t f') =
        (if \<exists>m \<in> set taken. GetTopic m = t \<and> GetRoutingType m = AnyPartition
         then ch_Count (chooser t f) + 1 else ch_Count (chooser t f)) \<and>
        td_CompressionInfo (topic_data t f') = td_CompressionInfo (topic_data t f))"

lemma clear_after_fill:
  assumes inv: "fill_inv f taken n result f1" and quiet: "\<And>t. \<not> used f t"
  defines "f2 \<equiv> fold (\<lambda>(topic, g). pf_clear_choice topic) result f1"
  shows "turns_taken f taken f2" "pf_wf f2" "\<not> used f2 t"
proof -
  from inv have r: "same_round f f1" and wf: "pf_wf f1" and ok: "result_ok result" by (simp_all add: fill_inv_def)
  have d: "distinct (map fst result)" using ok by (simp add: result_ok_def omap_ok_distinct)
  note data = clear_choices(1) [OF d, of _ f1, folded f2_def]
  have u: "used f1 t \<longleftrightarrow> (\<exists>m \<in> set taken. GetTopic m = t \<and> GetRoutingType m = AnyPartition)" for t
    using inv quiet by (simp add: fill_inv_def)
  have key: "t \<in> fst ` set result" if "used f1 t" for t
  proof -
    from that u obtain m where m: "m \<in> set taken" "GetTopic m = t" by auto
    then have "in_set_of t (GetPartition m) taken \<noteq> []" by (auto simp: filter_empty_conv)
    then have "ms_Contents (get_msg_set t (GetPartition m) result) \<noteq> []" using inv by (simp add: fill_inv_def)
    then show ?thesis by (rule get_msg_set_key)
  qed
  have count: "ch_Count (chooser t f1) = ch_Count (chooser t f)"
    "td_CompressionInfo (topic_data t f1) = td_CompressionInfo (topic_data t f)" for t
    using r by (simp_all add: same_round_def)
  show "turns_taken f taken f2"
    using key count unfolding turns_taken_def u [symmetric]
    by (auto simp: data ch_ClearChoice_def Let_def used_def)
  show "\<not> used f2 t"
    using key [of t] by (auto simp: used_def data ch_ClearChoice_def Let_def)
  have "same_setup f1 f2" unfolding f2_def by (rule clear_choices(2) [OF d])
  then have st: "pf_Metadata f2 = pf_Metadata f1" "pf_BrokerIndex f2 = pf_BrokerIndex f1"
    by (cases f1, cases f2, simp add: same_setup_def)+
  show "pf_wf f2"
    using wf unfolding pf_wf_def pick_def choices_def st
    by (auto simp: data ch_ClearChoice_def Let_def)
qed

text \<open>The result of a successful \<open>BuildRequestContents\<close>.\<close>

definition request_made ::
  "TProduceRequestFactory \<Rightarrow> nat \<Rightarrow> TAllTopics \<Rightarrow> TProduceRequestFactory \<Rightarrow> bool" where
  "request_made f k result f' \<longleftrightarrow>
     (let msgs = concat (pf_InputQueue f); taken = map (assigned f) (take k msgs)
      in 0 < k \<and> k \<le> length msgs \<and>
         (filled f [assigned f (hd msgs)] (tl msgs) (k - 1) \<or>
          k = 1 \<and> pf_ProduceRequestDataLimit f \<le> length (GetKeyAndValue (hd msgs))) \<and>
         result_ok result \<and>
         (\<forall>(t, g) \<in> set result. g \<noteq> [] \<and> (\<forall>(p, s) \<in> set g. ms_Contents s \<noteq> [])) \<and>
         (\<forall>t p. ms_Contents (get_msg_set t p result) = in_set_of t p taken) \<and>
         (\<forall>t p. compressed t f \<and> in_set_of t p taken \<noteq> [] \<longrightarrow>
            ms_DataSize (get_msg_set t p result) = set_size (pf_SingleMsgOverhead f) (in_set_of t p taken)) \<and>
         (concat (pf_InputQueue f') = left_over f msgs k \<or> concat (pf_InputQueue f') = drop k msgs) \<and>
         (\<forall>b \<in> set (pf_InputQueue f'). batch_ok b) \<and>
         turns_taken f taken f' \<and> pf_wf f' \<and> (\<forall>t. \<not> used f' t) \<and>
         f' = f\<lparr>pf_counters := pf_counters f', pf_TopicDataMap := pf_TopicDataMap f', pf_InputQueue := pf_InputQueue f'\<rparr>)"

lemma topic_data_counters [simp]: "topic_data t (f\<lparr>pf_counters := c\<rparr>) = topic_data t f"
  by (simp add: topic_data_def cong: option.case_cong)

lemma pf_wf_counters: "pf_wf (f\<lparr>pf_counters := c\<rparr>) = pf_wf f"
  by (simp add: pf_wf_def choices_def pick_def cong: option.case_cong)

lemma fill_inv_setup:
  assumes "fill_inv f taken n result f1"
  shows "pf_ProduceRequestDataLimit f1 = pf_ProduceRequestDataLimit f"
  using assms by (simp add: fill_inv_def same_round_def)

text \<open>The end of \<open>BuildRequestContents\<close>: the choices are cleared and the contents checked.\<close>

definition finish :: "TAllTopics \<Rightarrow> TProduceRequestFactory \<Rightarrow> TProduceRequestFactory" where
  "finish r f = fold (\<lambda>(topic, g). pf_clear_choice topic) r f"

lemma request_made_finish:
  assumes quiet: "\<And>t. \<not> used f t" and msgs: "concat (pf_InputQueue f) = m # rest"
    and full: "filled f [assigned f m] rest k \<or> k = 0 \<and> pf_ProduceRequestDataLimit f \<le> length (GetKeyAndValue m)"
    and k: "k \<le> length rest"
    and inv: "fill_inv f (map (assigned f) (take (Suc k) (m # rest))) n r2 f2"
    and left: "concat (pf_InputQueue f2) = left_over f rest k \<or> k = 0 \<and> concat (pf_InputQueue f2) = rest"
    and batches: "\<forall>b \<in> set (pf_InputQueue f2). batch_ok b"
  shows "request_made f (Suc k) (nonempty_sets r2) ((finish r2 f2)\<lparr>pf_counters := cs\<rparr>)"
  unfolding request_made_def Let_def msgs
proof (intro conjI)
  have r: "same_round f f2" "result_ok r2" using inv by (simp_all add: fill_inv_def)
  note ne_ok = nonempty_sets_ok [OF r(2)]
  have set3: "same_setup f2 (finish r2 f2)"
    using r(2) unfolding finish_def by (intro clear_choices(2)) (simp add: result_ok_def omap_ok_distinct)
  then have q3: "pf_InputQueue (finish r2 f2) = pf_InputQueue f2"
    by (cases f2, cases "finish r2 f2") (simp add: same_setup_def)
  show "0 < Suc k" "Suc k \<le> length (m # rest)" using k by simp_all
  show "filled f [assigned f (hd (m # rest))] (tl (m # rest)) (Suc k - 1) \<or>
      Suc k = 1 \<and> pf_ProduceRequestDataLimit f \<le> length (GetKeyAndValue (hd (m # rest)))"
    using full by simp
  show "result_ok (nonempty_sets r2)" by (rule ne_ok(1))
  show "\<forall>(t, g) \<in> set (nonempty_sets r2). g \<noteq> [] \<and> (\<forall>(p, s) \<in> set g. ms_Contents s \<noteq> [])"
    using ne_ok(3) by blast
  show "\<forall>t p. ms_Contents (get_msg_set t p (nonempty_sets r2)) = in_set_of t p (map (assigned f) (take (Suc k) (m # rest)))"
    using inv by (simp add: ne_ok(2) fill_inv_def)
  show "\<forall>t p. compressed t f \<and> in_set_of t p (map (assigned f) (take (Suc k) (m # rest))) \<noteq> [] \<longrightarrow>
      ms_DataSize (get_msg_set t p (nonempty_sets r2)) =
      set_size (pf_SingleMsgOverhead f) (in_set_of t p (map (assigned f) (take (Suc k) (m # rest))))"
    using inv ne_ok(4) by (simp add: fill_inv_def)
  show "concat (pf_InputQueue ((finish r2 f2)\<lparr>pf_counters := cs\<rparr>)) = left_over f (m # rest) (Suc k) \<or>
      concat (pf_InputQueue ((finish r2 f2)\<lparr>pf_counters := cs\<rparr>)) = drop (Suc k) (m # rest)"
    using left q3 by (auto simp: left_over_def)
  show "\<forall>b \<in> set (pf_InputQueue ((finish r2 f2)\<lparr>pf_counters := cs\<rparr>)). batch_ok b" using batches q3 by simp
  note clear = clear_after_fill [OF inv quiet, folded finish_def]
  show "turns_taken f (map (assigned f) (take (Suc k) (m # rest))) ((finish r2 f2)\<lparr>pf_counters := cs\<rparr>)"
    using clear(1) by (simp add: turns_taken_def)
  show "pf_wf ((finish r2 f2)\<lparr>pf_counters := cs\<rparr>)" using clear(2) by (simp add: pf_wf_counters)
  show "\<forall>t. \<not> used ((finish r2 f2)\<lparr>pf_counters := cs\<rparr>) t" using clear(3) by (simp add: used_def)
  show "(finish r2 f2)\<lparr>pf_counters := cs\<rparr> = f\<lparr>pf_counters := pf_counters ((finish r2 f2)\<lparr>pf_counters := cs\<rparr>),
      pf_TopicDataMap := pf_TopicDataMap ((finish r2 f2)\<lparr>pf_counters := cs\<rparr>),
      pf_InputQueue := pf_InputQueue ((finish r2 f2)\<lparr>pf_counters := cs\<rparr>)\<rparr>"
    using r(1) set3 by (cases f, cases f2, cases "finish r2 f2") (simp add: same_round_def same_setup_def)
qed

lemma BuildRequestContents_ok:
  assumes wf: "pf_wf f" and quiet: "\<And>t. \<not> used f t" and ne: "pf_InputQueue f \<noteq> []"
    and ok: "\<forall>b \<in> set (pf_InputQueue f). batch_ok b"
    and c: "\<forall>m \<in> set (concat (pf_InputQueue f)). GetRoutingType m = AnyPartition \<longrightarrow> choices f (GetTopic m) \<noteq> []"
  shows "\<exists>k result f'. BuildRequestContents f = Inr (result, f') \<and> request_made f k result f'"
proof -
  from ne ok obtain m batch q where q: "pf_InputQueue f = (m # batch) # q"
    by (cases "pf_InputQueue f") (auto simp: batch_ok_def neq_Nil_conv)
  define msgs where "msgs = concat (pf_InputQueue f)"
  have msgs: "msgs = m # tl msgs" "m = hd msgs" by (simp_all add: msgs_def q)
  have cm: "GetRoutingType m = AnyPartition \<longrightarrow> choices f (GetTopic m) \<noteq> []" using c q by simp
  from AddFirstMsg_ok [OF wf q cm] obtain r1 f1 where a: "AddFirstMsg f = Inr (length (GetKeyAndValue m), r1, f1)"
    "fill_inv f [assigned f m] (length (GetKeyAndValue m)) r1 f1" "pf_InputQueue f1 = (if batch = [] then q else batch # q)"
    by blast
  have "one_topic batch" using ok q one_topicI [of batch "GetTopic m"] by (simp add: batch_ok_def one_topic_Cons)
  then have q1: "concat (pf_InputQueue f1) = tl msgs" "\<forall>b \<in> set (pf_InputQueue f1). batch_ok b"
    using a(3) ok q by (simp_all add: msgs_def batch_ok_def)
  have "\<exists>k n r2 f2. (if length (GetKeyAndValue m) < pf_ProduceRequestDataLimit f1
        then pf_contents_loop (length (GetKeyAndValue m)) r1 f1 else Inr (length (GetKeyAndValue m), r1, f1)) = Inr (n, r2, f2) \<and>
      (filled f [assigned f m] (tl msgs) k \<or> k = 0 \<and> pf_ProduceRequestDataLimit f \<le> length (GetKeyAndValue m)) \<and>
      k \<le> length (tl msgs) \<and>
      fill_inv f ([assigned f m] @ map (assigned f) (take k (tl msgs))) n r2 f2 \<and>
      (concat (pf_InputQueue f2) = left_over f (tl msgs) k \<or> k = 0 \<and> concat (pf_InputQueue f2) = tl msgs) \<and>
      (\<forall>b \<in> set (pf_InputQueue f2). batch_ok b)"
  proof (cases "length (GetKeyAndValue m) < pf_ProduceRequestDataLimit f1")
    case True
    have "\<forall>m \<in> set (concat (pf_InputQueue f1)). GetRoutingType m = AnyPartition \<longrightarrow> choices f (GetTopic m) \<noteq> []"
      using c unfolding q1(1) msgs_def by (simp add: q)
    from contents_loop_ok [OF a(2) q1(2) this] True q1(1) show ?thesis by (auto simp: filled_def)
  next
    case False
    then have "pf_ProduceRequestDataLimit f \<le> length (GetKeyAndValue m)" using fill_inv_setup [OF a(2)] by simp
    with False a(2) q1 show ?thesis by (intro exI [of _ "0 :: nat"] exI [of _ "length (GetKeyAndValue m)"]) auto
  qed
  then obtain k n r2 f2 where l: "(if length (GetKeyAndValue m) < pf_ProduceRequestDataLimit f1
        then pf_contents_loop (length (GetKeyAndValue m)) r1 f1 else Inr (length (GetKeyAndValue m), r1, f1)) = Inr (n, r2, f2)"
    "filled f [assigned f m] (tl msgs) k \<or> k = 0 \<and> pf_ProduceRequestDataLimit f \<le> length (GetKeyAndValue m)"
    "k \<le> length (tl msgs)"
    "fill_inv f ([assigned f m] @ map (assigned f) (take k (tl msgs))) n r2 f2"
    "concat (pf_InputQueue f2) = left_over f (tl msgs) k \<or> k = 0 \<and> concat (pf_InputQueue f2) = tl msgs"
    "\<forall>b \<in> set (pf_InputQueue f2). batch_ok b"
    by blast
  obtain cs where s: "SanityCheckRequestContents r2 (finish r2 f2) = (nonempty_sets r2, (finish r2 f2)\<lparr>pf_counters := cs\<rparr>)"
    using SanityCheck_eq by blast
  have "BuildRequestContents f = Inr (nonempty_sets r2, (finish r2 f2)\<lparr>pf_counters := cs\<rparr>)"
    using a(1) l(1) s by (simp add: BuildRequestContents_def finish_def)
  moreover have "request_made f (Suc k) (nonempty_sets r2) ((finish r2 f2)\<lparr>pf_counters := cs\<rparr>)"
  proof (rule request_made_finish [OF quiet _ l(2,3) _ l(5,6)])
    show "concat (pf_InputQueue f) = m # tl msgs" using msgs(1) by (simp add: msgs_def)
    show "fill_inv f (map (assigned f) (take (Suc k) (m # tl msgs))) n r2 f2" using l(4) by simp
  qed
  ultimately show ?thesis by blast
qed

section \<open>Properties\<close>

lemma fits_data_limit: "fits f taken ms \<Longrightarrow> ms \<noteq> [] \<Longrightarrow> GetDataSize (taken @ ms) \<le> pf_ProduceRequestDataLimit f"
proof (induction ms arbitrary: taken)
  case (Cons m ms)
  then show ?case using Cons.IH [of "taken @ [m]"] by (cases "ms = []") (auto simp: no_room_def)
qed simp

lemma fits_set_limit:
  assumes "fits f taken ms" "compressed t f"
    and "set_size (pf_SingleMsgOverhead f) (in_set_of t p taken) \<le> pf_MessageMaxBytes f \<or> length (in_set_of t p taken) \<le> 1"
  shows "set_size (pf_SingleMsgOverhead f) (in_set_of t p (taken @ ms)) \<le> pf_MessageMaxBytes f \<or>
    length (in_set_of t p (taken @ ms)) \<le> 1"
  using assms(1,3)
proof (induction ms arbitrary: taken)
  case (Cons m ms)
  have "set_size (pf_SingleMsgOverhead f) (in_set_of t p (taken @ [m])) \<le> pf_MessageMaxBytes f \<or>
      length (in_set_of t p (taken @ [m])) \<le> 1"
    using Cons.prems assms(2) by (auto simp: no_room_def)
  from Cons.IH [OF _ this] Cons.prems(1) show ?case by simp
qed simp

text \<open>A factory for broker 5 of the example metadata with three messages, of which a request takes
  two.\<close>

definition ex_factory :: TProduceRequestFactory where
  "ex_factory =
     pf_Put_lists [[CreateAnyPartitionMsg 0 0 ''t'' [] [1, 2] False],
         [CreatePartitionKeyMsg 9 0 0 ''t'' [3] [] False, CreateAnyPartitionMsg 0 0 ''t'' [] [4, 5] False]]
       (pf_Init (\<lambda>_. None) \<lparr>cz_SizeThresholdPercent = 75,
            cz_DefaultTopicConfig = \<lparr>cz_Type = CompressNone, cz_MinSize = 0, cz_Level = None\<rparr>, cz_TopicConfigs = []\<rparr>
          (fst (mb_Build ex_reorder ex_builder))
       (new_TProduceRequestFactory (\<lambda>_. None) [100] 1000 4 1000 26
          \<lparr>cz_SizeThresholdPercent = 75,
            cz_DefaultTopicConfig = \<lparr>cz_Type = CompressNone, cz_MinSize = 0, cz_Level = None\<rparr>, cz_TopicConfigs = []\<rparr>
          0 (\<lambda>_. 0)))"

lemma ex_factory_start:
  "pf_TopicDataMap ex_factory = []" "pf_wf ex_factory" "\<forall>t. \<not> used ex_factory t"
proof -
  show m: "pf_TopicDataMap ex_factory = []"
    by (simp add: ex_factory_def pf_Put_lists_def pf_Init_def InitTopicDataMap_def)
  show "pf_wf ex_factory" "\<forall>t. \<not> used ex_factory t"
    by (simp_all add: pf_wf_def used_def topic_data_def m new_TTopicData_def new_TAnyPartitionChooser_def)
qed

lemma ex_factory_ready:
  "pf_InputQueue ex_factory \<noteq> []" "\<forall>b \<in> set (pf_InputQueue ex_factory). batch_ok b"
  "\<forall>m \<in> set (concat (pf_InputQueue ex_factory)). GetRoutingType m = AnyPartition \<longrightarrow> choices ex_factory (GetTopic m) \<noteq> []"
proof -
  have c: "choices ex_factory ''t'' = [1, 3]" by code_simp
  show "pf_InputQueue ex_factory \<noteq> []" by code_simp
  show "\<forall>b \<in> set (pf_InputQueue ex_factory). batch_ok b" by code_simp
  have "GetTopic m = ''t''" if "m \<in> set (concat (pf_InputQueue ex_factory))" for m
    using that by (auto simp: ex_factory_def pf_Put_lists_def pf_Init_def InitTopicDataMap_def
        new_TProduceRequestFactory_def CreateAnyPartitionMsg_def CreatePartitionKeyMsg_def TMsg_ctor_def)
  with c show "\<forall>m \<in> set (concat (pf_InputQueue ex_factory)). GetRoutingType m = AnyPartition \<longrightarrow>
      choices ex_factory (GetTopic m) \<noteq> []" by simp
qed

lemma ex_factory_request:
  "map_sum (\<lambda>_. ()) (\<lambda>(r, f). (r, concat (pf_InputQueue f))) (BuildRequestContents ex_factory) =
   Inr ([(''t'', [(0, \<lparr>ms_DataSize = 0, ms_Contents = [CreatePartitionKeyMsg 9 0 0 ''t'' [3] [] False]\<rparr>),
      (1, \<lparr>ms_DataSize = 0, ms_Contents = [SetPartition 1 (CreateAnyPartitionMsg 0 0 ''t'' [] [1, 2] False)]\<rparr>)])],
    [SetPartition 1 (CreateAnyPartitionMsg 0 0 ''t'' [] [4, 5] False)])"
  by code_simp

lemma ex_factory_result:
  assumes "BuildRequestContents ex_factory = Inr (result, f')"
  shows "get_msg_set ''t'' 1 result =
    \<lparr>ms_DataSize = 0, ms_Contents = [SetPartition 1 (CreateAnyPartitionMsg 0 0 ''t'' [] [1, 2] False)]\<rparr>"
  using ex_factory_request assms by (auto simp: get_msg_set_def)

text \<open>
  C28. From a queue of batches, a request takes messages from the front, at least one of them, in
  order and without a gap: per topic and partition the message set has exactly the taken messages
  for it, in their order.  What is left stays in the queue in order.  No message set is empty.
  The messages without a partition of their own get, per topic, the partition whose turn it is.
\<close>

theorem request_contents_exact:
  assumes "pf_wf f" "\<forall>t. \<not> used f t" "pf_InputQueue f \<noteq> []" "\<forall>b \<in> set (pf_InputQueue f). batch_ok b"
    and "\<forall>m \<in> set (concat (pf_InputQueue f)). GetRoutingType m = AnyPartition \<longrightarrow> choices f (GetTopic m) \<noteq> []"
  shows "\<exists>k result f'. BuildRequestContents f = Inr (result, f') \<and>
    0 < k \<and> k \<le> length (concat (pf_InputQueue f)) \<and>
    (\<forall>t p. ms_Contents (get_msg_set t p result) =
       filter (\<lambda>m. GetTopic m = t \<and> GetPartition m = p) (map (assigned f) (take k (concat (pf_InputQueue f))))) \<and>
    (\<forall>(t, g) \<in> set result. g \<noteq> [] \<and> (\<forall>(p, s) \<in> set g. ms_Contents s \<noteq> [])) \<and>
    (concat (pf_InputQueue f') = drop k (concat (pf_InputQueue f)) \<or>
     concat (pf_InputQueue f') = left_over f (concat (pf_InputQueue f)) k) \<and>
    (\<forall>b \<in> set (pf_InputQueue f'). batch_ok b) \<and> pf_wf f' \<and> (\<forall>t. \<not> used f' t)"
proof -
  have "\<And>t. \<not> used f t" using assms(2) by blast
  from BuildRequestContents_ok [OF assms(1) this assms(3-5)] obtain k result f' where
    r: "BuildRequestContents f = Inr (result, f')" and made: "request_made f k result f'" by blast
  show ?thesis
    by (rule exI [of _ k], rule exI [of _ result], rule exI [of _ f'])
      (use made r in \<open>auto simp only: request_made_def Let_def\<close>)
qed

theorem request_contents_exact_witness:
  "pf_wf ex_factory \<and>
   (\<exists>k result f'. BuildRequestContents ex_factory = Inr (result, f') \<and> 0 < k \<and>
     filter (\<lambda>m. GetTopic m = ''t'' \<and> GetPartition m = 1)
       (map (assigned ex_factory) (take k (concat (pf_InputQueue ex_factory)))) =
     [SetPartition 1 (CreateAnyPartitionMsg 0 0 ''t'' [] [1, 2] False)])"
proof -
  from request_contents_exact [OF ex_factory_start(2,3) ex_factory_ready] obtain k result f' where
    r: "BuildRequestContents ex_factory = Inr (result, f')" "0 < k"
    "\<forall>t p. ms_Contents (get_msg_set t p result) = filter (\<lambda>m. GetTopic m = t \<and> GetPartition m = p)
      (map (assigned ex_factory) (take k (concat (pf_InputQueue ex_factory))))"
    by (elim exE conjE) (rule that)
  have "ms_Contents (get_msg_set ''t'' 1 result) = [SetPartition 1 (CreateAnyPartitionMsg 0 0 ''t'' [] [1, 2] False)]"
    by (simp add: ex_factory_result [OF r(1)])
  with r(3) have "filter (\<lambda>m. GetTopic m = ''t'' \<and> GetPartition m = 1)
      (map (assigned ex_factory) (take k (concat (pf_InputQueue ex_factory)))) =
    [SetPartition 1 (CreateAnyPartitionMsg 0 0 ''t'' [] [1, 2] False)]" by (simp only:)
  with r(1,2) ex_factory_start(2) show ?thesis by (intro conjI exI [of _ k] exI [of _ result] exI [of _ f'])
qed

text \<open>
  C29. A request does not exceed the data limit, except with a single message; a message set that may be
  sent compressed does not exceed the maximum message size even if compression gains nothing, except
  with a single message; and as much is taken as fits: when messages are left, the next one has no
  room, or the first message alone has reached the limit.
\<close>

theorem request_limits:
  assumes "pf_wf f" "\<forall>t. \<not> used f t" "pf_InputQueue f \<noteq> []" "\<forall>b \<in> set (pf_InputQueue f). batch_ok b"
    and "\<forall>m \<in> set (concat (pf_InputQueue f)). GetRoutingType m = AnyPartition \<longrightarrow> choices f (GetTopic m) \<noteq> []"
  shows "\<exists>k result f'. BuildRequestContents f = Inr (result, f') \<and>
    (\<forall>t p. ms_Contents (get_msg_set t p result) =
       filter (\<lambda>m. GetTopic m = t \<and> GetPartition m = p) (map (assigned f) (take k (concat (pf_InputQueue f))))) \<and>
    (k = 1 \<or> GetDataSize (map (assigned f) (take k (concat (pf_InputQueue f)))) \<le> pf_ProduceRequestDataLimit f) \<and>
    (\<forall>t p. compressed t f \<longrightarrow> length (ms_Contents (get_msg_set t p result)) \<le> 1 \<or>
       ms_DataSize (get_msg_set t p result) \<le> pf_MessageMaxBytes f) \<and>
    (k < length (concat (pf_InputQueue f)) \<longrightarrow>
       no_room f (map (assigned f) (take k (concat (pf_InputQueue f)))) (assigned f (concat (pf_InputQueue f) ! k)) \<or>
       k = 1 \<and> pf_ProduceRequestDataLimit f \<le> GetDataSize (take k (concat (pf_InputQueue f))))"
proof -
  have "\<And>t. \<not> used f t" using assms(2) by blast
  from BuildRequestContents_ok [OF assms(1) this assms(3-5)] obtain k result f' where
    r: "BuildRequestContents f = Inr (result, f')" and made: "request_made f k result f'" by blast
  define msgs where "msgs = concat (pf_InputQueue f)"
  from made have k: "0 < k" "k \<le> length msgs" by (simp_all add: request_made_def Let_def msgs_def)
  then obtain m rest where msgs: "msgs = m # rest" by (cases msgs) auto
  obtain k' where k': "k = Suc k'" using k by (cases k) auto
  let ?taken = "map (assigned f) (take k msgs)"
  have taken: "?taken = [assigned f m] @ map (assigned f) (take k' rest)" by (simp add: msgs k')
  have c: "\<forall>t p. ms_Contents (get_msg_set t p result) = in_set_of t p ?taken"
    and d: "\<forall>t p. compressed t f \<and> in_set_of t p ?taken \<noteq> [] \<longrightarrow>
      ms_DataSize (get_msg_set t p result) = set_size (pf_SingleMsgOverhead f) (in_set_of t p ?taken)"
    using made by (simp_all add: request_made_def Let_def msgs_def)
  have "filled f [assigned f m] rest k' \<or> k' = 0 \<and> pf_ProduceRequestDataLimit f \<le> length (GetKeyAndValue m)"
    using made msgs by (simp add: request_made_def Let_def msgs_def [symmetric] k')
  then have fits: "fits f [assigned f m] (map (assigned f) (take k' rest))"
    and stop: "k' < length rest \<longrightarrow> no_room f ?taken (assigned f (rest ! k')) \<or>
      k' = 0 \<and> pf_ProduceRequestDataLimit f \<le> length (GetKeyAndValue m)"
    by (auto simp: filled_def taken)
  have "k' = 0 \<or> GetDataSize ?taken \<le> pf_ProduceRequestDataLimit f"
    using fits_data_limit [OF fits] k k' msgs unfolding taken by (cases k'; cases rest) auto
  moreover have "compressed t f \<longrightarrow> length (ms_Contents (get_msg_set t p result)) \<le> 1 \<or>
      ms_DataSize (get_msg_set t p result) \<le> pf_MessageMaxBytes f" for t p
  proof
    assume comp: "compressed t f"
    have "length (in_set_of t p [assigned f m]) \<le> 1" by simp
    with fits_set_limit [OF fits comp, of p]
    have "set_size (pf_SingleMsgOverhead f) (in_set_of t p ?taken) \<le> pf_MessageMaxBytes f \<or> length (in_set_of t p ?taken) \<le> 1"
      unfolding taken by blast
    moreover have "in_set_of t p ?taken = [] \<Longrightarrow> length (in_set_of t p ?taken) \<le> 1" by (simp only: list.size)
    ultimately show "length (ms_Contents (get_msg_set t p result)) \<le> 1 \<or>
      ms_DataSize (get_msg_set t p result) \<le> pf_MessageMaxBytes f"
      using spec [OF spec [OF c], of t p] spec [OF spec [OF d], of t p] comp by metis
  qed
  ultimately show ?thesis
    by (intro exI [of _ k] exI [of _ result] exI [of _ f']) (use r c stop in \<open>auto simp: msgs_def [symmetric] k' msgs\<close>)
qed

theorem request_limits_witness:
  "pf_wf ex_factory \<and>
   (\<exists>k result f'. BuildRequestContents ex_factory = Inr (result, f') \<and>
     (k = 1 \<or> GetDataSize (map (assigned ex_factory) (take k (concat (pf_InputQueue ex_factory)))) \<le> 4))"
proof -
  have lim: "pf_ProduceRequestDataLimit ex_factory = 4" by code_simp
  from request_limits [OF ex_factory_start(2,3) ex_factory_ready] obtain k result f' where
    r: "BuildRequestContents ex_factory = Inr (result, f')"
    "k = 1 \<or> GetDataSize (map (assigned ex_factory) (take k (concat (pf_InputQueue ex_factory)))) \<le>
      pf_ProduceRequestDataLimit ex_factory"
    by (elim exE conjE) (rule that)
  show ?thesis
    by (intro conjI exI [of _ k] exI [of _ result] exI [of _ f']) (use r ex_factory_start(2) lim in simp_all)
qed

text \<open>
  C30. Partitions take turns: in a request, all messages of a topic without a partition of their own go
  to one partition that the metadata gives for the topic on this broker, the one at the place of the
  topic's count; the count goes up by one with each request that has such messages, and only then.
\<close>

theorem any_partition_round_robin:
  assumes "pf_wf f" "\<forall>t. \<not> used f t" "pf_InputQueue f \<noteq> []" "\<forall>b \<in> set (pf_InputQueue f). batch_ok b"
    and "\<forall>m \<in> set (concat (pf_InputQueue f)). GetRoutingType m = AnyPartition \<longrightarrow> choices f (GetTopic m) \<noteq> []"
  shows "\<exists>result f'. BuildRequestContents f = Inr (result, f') \<and>
    (\<forall>t p. \<forall>m \<in> set (ms_Contents (get_msg_set t p result)). GetRoutingType m = AnyPartition \<longrightarrow>
       p = choices f t ! (unat (ch_Count (chooser t f)) mod length (choices f t)) \<and> p \<in> set (choices f t)) \<and>
    (\<forall>t. ch_Count (chooser t f') =
       (if \<exists>p. \<exists>m \<in> set (ms_Contents (get_msg_set t p result)). GetRoutingType m = AnyPartition
        then ch_Count (chooser t f) + 1 else ch_Count (chooser t f)))"
proof -
  have "\<And>t. \<not> used f t" using assms(2) by blast
  from BuildRequestContents_ok [OF assms(1) this assms(3-5)] obtain k result f' where
    r: "BuildRequestContents f = Inr (result, f')" and made: "request_made f k result f'" by blast
  let ?src = "take k (concat (pf_InputQueue f))"
  let ?taken = "map (assigned f) ?src"
  have c: "ms_Contents (get_msg_set t p result) = in_set_of t p ?taken" for t p
    using made by (simp add: request_made_def Let_def)
  have turns: "turns_taken f ?taken f'" using made by (simp add: request_made_def Let_def)
  have place: "p = choices f t ! (unat (ch_Count (chooser t f)) mod length (choices f t)) \<and> p \<in> set (choices f t)"
    if "m \<in> set (ms_Contents (get_msg_set t p result))" "GetRoutingType m = AnyPartition" for t p m
  proof -
    from that(1) obtain m0 where m0: "m0 \<in> set ?src" "m = assigned f m0" "GetTopic m0 = t" "GetPartition m = p"
      by (auto simp: c)
    then have any: "GetRoutingType m0 = AnyPartition" using that(2) by simp
    have "m0 \<in> set (concat (pf_InputQueue f))" using m0(1) by (rule in_set_takeD)
    with assms(5) any m0(3) have ne: "choices f t \<noteq> []" by blast
    then have "unat (ch_Count (chooser t f)) mod length (choices f t) < length (choices f t)" by simp
    then show ?thesis using m0 any by (auto simp: assigned_def pick_def)
  qed
  have any: "(\<exists>p. \<exists>m \<in> set (ms_Contents (get_msg_set t p result)). GetRoutingType m = AnyPartition) \<longleftrightarrow>
      (\<exists>m \<in> set ?taken. GetTopic m = t \<and> GetRoutingType m = AnyPartition)" for t
    by (auto simp: c)
  show ?thesis
  proof (intro exI [of _ result] exI [of _ f'] conjI allI ballI impI)
    show "BuildRequestContents f = Inr (result, f')" by (rule r)
    show "ch_Count (chooser t f') =
       (if \<exists>p. \<exists>m \<in> set (ms_Contents (get_msg_set t p result)). GetRoutingType m = AnyPartition
        then ch_Count (chooser t f) + 1 else ch_Count (chooser t f))" for t
      using turns unfolding any turns_taken_def by blast
  qed (use place in blast)+
qed

theorem any_partition_round_robin_witness:
  "pf_wf ex_factory \<and> choices ex_factory ''t'' = [1, 3] \<and>
   (\<exists>result f'. BuildRequestContents ex_factory = Inr (result, f') \<and>
     ch_Count (chooser ''t'' ex_factory) = 0 \<and> ch_Count (chooser ''t'' f') = 1)"
proof -
  have c: "choices ex_factory ''t'' = [1, 3]" "ch_Count (chooser ''t'' ex_factory) = 0" by code_simp+
  from any_partition_round_robin [OF ex_factory_start(2,3) ex_factory_ready] obtain result f' where
    r: "BuildRequestContents ex_factory = Inr (result, f')"
    "\<forall>t. ch_Count (chooser t f') =
       (if \<exists>p. \<exists>m \<in> set (ms_Contents (get_msg_set t p result)). GetRoutingType m = AnyPartition
        then ch_Count (chooser t ex_factory) + 1 else ch_Count (chooser t ex_factory))"
    by (elim exE conjE) (rule that)
  have "\<exists>p. \<exists>m \<in> set (ms_Contents (get_msg_set ''t'' p result)). GetRoutingType m = AnyPartition"
    by (rule exI [of _ 1]) (simp add: ex_factory_result [OF r(1)] CreateAnyPartitionMsg_def TMsg_ctor_def SetPartition_def)
  with r(2) c(2) have "ch_Count (chooser ''t'' f') = 1" by simp
  then show ?thesis using r(1) c ex_factory_start(2) by blast
qed

end
