(* ===== verification/Msg_Set_Reader.thy ===== *)
theory Msg_Set_Reader
  imports Msg_Set_Writer
begin

text \<open>
  The reader of Kafka message sets, \<open>src/dory/kafka_proto/produce/v0/msg_set_reader.cc\<close>.

  The reader walks over a range of a byte buffer \<open>mem\<close> that it does not own; its pointers are
  offsets into \<open>mem\<close>, \<open>nullptr\<close> is \<open>None\<close> where the code tests for it.  A reader that was not
  given a message set has the empty range at 0.  The CRC is a parameter, as for the writer.
\<close>

section \<open>State and operations\<close>

record TMsgSetReader =
  msr_Begin :: int
  msr_End :: int
  msr_CurrentMsg :: "int option"
  msr_CurrentMsgSize :: int
  msr_CurrentMsgCrcOk :: bool
  msr_CurrentMsgKeyBegin :: "int option"
  msr_CurrentMsgKeyEnd :: "int option"
  msr_CurrentMsgValueBegin :: "int option"
  msr_CurrentMsgValueEnd :: "int option"

definition msr_Clear :: TMsgSetReader where
  "msr_Clear = \<lparr> msr_Begin = 0, msr_End = 0, msr_CurrentMsg = None, msr_CurrentMsgSize = 0,
     msr_CurrentMsgCrcOk = False, msr_CurrentMsgKeyBegin = None, msr_CurrentMsgKeyEnd = None,
     msr_CurrentMsgValueBegin = None, msr_CurrentMsgValueEnd = None \<rparr>"

definition msr_SetMsgSet :: "int \<Rightarrow> int \<Rightarrow> TMsgSetReader" where
  "msr_SetMsgSet msg_set msg_set_size =
     msr_Clear \<lparr> msr_Begin := msg_set, msr_End := msg_set + msg_set_size \<rparr>"

definition msr_no_msg :: "TMsgSetReader \<Rightarrow> TMsgSetReader" where
  "msr_no_msg r = r \<lparr> msr_CurrentMsgKeyBegin := None, msr_CurrentMsgKeyEnd := None,
     msr_CurrentMsgValueBegin := None, msr_CurrentMsgValueEnd := None \<rparr>"

text \<open>A length field that is read: -1 indicates a length of 0.\<close>

definition len_of_field :: "int \<Rightarrow> int" where
  "len_of_field n = (if n = -1 then 0 else n)"

text \<open>The second half of \<open>InitCurrentMsg\<close>: the key and value of a message whose CRC is correct.\<close>

definition msr_init_key_value ::
  "byte list \<Rightarrow> int \<Rightarrow> int \<Rightarrow> TMsgSetReader \<Rightarrow> TProtoError fault + TMsgSetReader" where
  "msr_init_key_value mem msg_start msg_size r =
     bindF (ReadInt32FromHeader mem (msg_start + int PRC_CRC_SIZE + int PRC_MAGIC_BYTE_SIZE +
              int PRC_ATTRIBUTES_SIZE)) (\<lambda>key_field.
     let key_size = len_of_field key_field
     in if key_size < 0 then Inl (Thrown TBadMsgKeySize)
        else bindF (chk32 (int PRC_MIN_MSG_SIZE + key_size)) (\<lambda>sum.
        if sum > msg_size then Inl (Thrown TBadMsgKeySize)
        else
          let key_begin = msg_start + int PRC_CRC_SIZE + int PRC_MAGIC_BYTE_SIZE +
                int PRC_ATTRIBUTES_SIZE + int PRC_KEY_LEN_SIZE;
              key_end = key_begin + key_size
          in bindF (ReadInt32FromHeader mem key_end) (\<lambda>value_field.
             let value_size = len_of_field value_field
             in if value_size < 0 then Inl (Thrown TBadMsgValueSize)
                else bindF (chk32 (sum + value_size)) (\<lambda>total.
                if total \<noteq> msg_size then Inl (Thrown TBadMsgValueSize)
                else
                  let value_begin = key_end + int PRC_VALUE_LEN_SIZE
                  in Inr (r \<lparr> msr_CurrentMsgKeyBegin := Some key_begin,
                        msr_CurrentMsgKeyEnd := Some key_end,
                        msr_CurrentMsgValueBegin := Some value_begin,
                        msr_CurrentMsgValueEnd := Some (value_begin + value_size) \<rparr>)))))"

definition msr_InitCurrentMsg ::
  "(byte list \<Rightarrow> 32 word) \<Rightarrow> byte list \<Rightarrow> int \<Rightarrow> TMsgSetReader \<Rightarrow>
   TProtoError fault + TMsgSetReader" where
  "msr_InitCurrentMsg crc mem current_msg r =
     (let msg_size_field = current_msg + int PRC_MSG_OFFSET_SIZE;
          msg_start = msg_size_field + int PRC_MSG_SIZE_SIZE
      in if msg_start > msr_End r then Inl (Thrown TMsgSetTruncated)
      else bindF (ReadInt32FromHeader mem msg_size_field) (\<lambda>msg_size.
        if msg_size < int PRC_MIN_MSG_SIZE then Inl (Thrown TBadMsgSize)
        else if msg_start + msg_size > msr_End r then Inl (Thrown TMsgSetTruncated)
        else
          bindF (mem_read mem (msg_start + int PRC_CRC_SIZE) (nat (msg_size - int PRC_CRC_SIZE))) (\<lambda>area.
          bindF (ReadUint32FromHeader mem msg_start) (\<lambda>expected_crc.
          let crc_ok = (uint (crc area) = expected_crc);
              r = r \<lparr> msr_CurrentMsgSize := msg_size, msr_CurrentMsgCrcOk := crc_ok \<rparr>
          in if crc_ok then msr_init_key_value mem msg_start msg_size r
             else Inr (msr_no_msg r)))))"

definition msr_FirstMsg ::
  "(byte list \<Rightarrow> 32 word) \<Rightarrow> byte list \<Rightarrow> TMsgSetReader \<Rightarrow>
   TProtoError fault + bool \<times> TMsgSetReader" where
  "msr_FirstMsg crc mem r =
     (let r = r \<lparr> msr_CurrentMsg := Some (msr_Begin r) \<rparr>
      in if msr_Begin r < msr_End r
         then bindF (msr_InitCurrentMsg crc mem (msr_Begin r) r) (\<lambda>r. Inr (True, r))
         else Inr (False, r))"

definition msr_NextMsg ::
  "(byte list \<Rightarrow> 32 word) \<Rightarrow> byte list \<Rightarrow> TMsgSetReader \<Rightarrow>
   TProtoError fault + bool \<times> TMsgSetReader" where
  "msr_NextMsg crc mem r =
     (case msr_CurrentMsg r of
        None \<Rightarrow> msr_FirstMsg crc mem r
      | Some current_msg \<Rightarrow>
          if current_msg \<ge> msr_End r then Inl (Thrown TRangeError)
          else bindF (chk32 (int PRC_MSG_OFFSET_SIZE + int PRC_MSG_SIZE_SIZE + msr_CurrentMsgSize r)) (\<lambda>step.
            let current_msg = current_msg + step;
                r = r \<lparr> msr_CurrentMsg := Some current_msg \<rparr>
            in if current_msg > msr_End r then Inl (Thrown TMsgSetTruncated)
               else if current_msg < msr_End r
               then bindF (msr_InitCurrentMsg crc mem current_msg r) (\<lambda>r. Inr (True, r))
               else Inr (False, msr_no_msg (r \<lparr> msr_CurrentMsgSize := 0,
                      msr_CurrentMsgCrcOk := False \<rparr>))))"

definition msr_GetCurrentMsgCompressionType ::
  "byte list \<Rightarrow> TMsgSetReader \<Rightarrow> TProtoError fault + TCompressionType" where
  "msr_GetCurrentMsgCompressionType mem r =
     (case msr_CurrentMsg r of
        None \<Rightarrow> Inl Undefined
      | Some current_msg \<Rightarrow>
          bindF (ReadUint8 mem (current_msg + int PRC_MSG_OFFSET_SIZE + int PRC_MSG_SIZE_SIZE +
                   int PRC_CRC_SIZE + int PRC_MAGIC_BYTE_SIZE)) (\<lambda>attrs.
          if attrs = 0 then Inr CompressNone
          else if attrs = 1 then Inr Gzip
          else if attrs = 2 then Inr Snappy
          else if attrs = 3 then Inr Lz4
          else Inl (Thrown TUnknownCompressionType)))"

text \<open>The bytes between a pair of the reader's key or value pointers, empty when they are null
  (\<open>TMsg::ToString\<close> of the mock server).\<close>

definition msr_bytes :: "byte list \<Rightarrow> int option \<Rightarrow> int option \<Rightarrow> TProtoError fault + byte list" where
  "msr_bytes mem b e =
     (case b of None \<Rightarrow> Inr []
      | Some p \<Rightarrow> (case e of None \<Rightarrow> Inl Undefined | Some q \<Rightarrow> mem_range mem p q))"

section \<open>Reading what the writer wrote\<close>

text \<open>A reader positioned on an item written by the writer.\<close>

definition at_item ::
  "TMsgSetReader \<Rightarrow> nat \<Rightarrow> byte list \<Rightarrow> byte list \<Rightarrow> TMsgSetReader" where
  "at_item r pos key val = r \<lparr> msr_CurrentMsg := Some (int pos),
     msr_CurrentMsgSize := int (14 + length key + length val), msr_CurrentMsgCrcOk := True,
     msr_CurrentMsgKeyBegin := Some (int (pos + 22)),
     msr_CurrentMsgKeyEnd := Some (int (pos + 22 + length key)),
     msr_CurrentMsgValueBegin := Some (int (pos + 26 + length key)),
     msr_CurrentMsgValueEnd := Some (int (pos + 26 + length key + length val)) \<rparr>"

definition item_fields ::
  "(byte list \<Rightarrow> 32 word) \<Rightarrow> TCompressionType \<Rightarrow> byte list \<Rightarrow> byte list \<Rightarrow> byte list list" where
  "item_fields crc ct key val =
     [be_bytes 8 0, be_bytes 4 (i32 (int (PRC_MIN_MSG_SIZE + length key + length val))),
      be_bytes 4 (i32 (uint (crc (msg_crc_area ct key val)))),
      be_bytes 1 0, be_bytes 1 (XlateCompressionType ct),
      be_bytes 4 (i32 (len_field (length key))), key,
      be_bytes 4 (i32 (len_field (length val))), val]"

lemma msg_set_item_flat: "a @ msg_set_item crc ct key val @ c = flat (a # item_fields crc ct key val @ [c])"
  by (simp add: msg_set_item_def msg_crc_area_def item_fields_def flat_def)

lemma i32_mod: "i32 x mod 2 ^ 32 = x mod 2 ^ 32"
  using take_bit_signed_take_bit [of 32 31 x] by (simp add: i32_def take_bit_eq_mod)

lemma uint32_mod: "i32 (uint (c :: 32 word)) mod 4294967296 = uint c"
  using i32_mod [of "uint c"] uint_bounded [of c] by simp

lemma i32_small: "n < 2 ^ 31 \<Longrightarrow> i32 (int n) = int n"
  by (rule i32_id) auto

lemma i32_i32 [simp]: "i32 (i32 x) = i32 x"
  by (simp add: i32_def)

lemma i32_len_field: "n < 2 ^ 31 \<Longrightarrow> i32 (len_field n) = len_field n"
  by (rule i32_id) (auto simp: len_field_def)

lemma Xlate_mod: "XlateCompressionType ct mod 256 = XlateCompressionType ct"
  by (cases ct) simp_all

lemma item_area:
  "mem_read (a @ msg_set_item crc ct key val @ c) (int (length a) + 16)
     (10 + length key + length val) = Inr (msg_crc_area ct key val)"
  using mem_read_field [of "int (length a) + 16"
      "a @ be_bytes 8 0 @ be_bytes 4 (i32 (int (PRC_MIN_MSG_SIZE + length key + length val))) @
       be_bytes 4 (i32 (uint (crc (msg_crc_area ct key val))))"
      "10 + length key + length val" "msg_crc_area ct key val" c]
  by (simp add: msg_set_item_def length_msg_crc_area mem_read_def)

lemma item_reads:
  assumes "14 + length key + length val < 2 ^ 31"
    and mem: "mem = a @ msg_set_item crc ct key val @ c"
  shows "ReadInt32FromHeader mem (int (length a) + 8) = Inr (int (14 + length key + length val))"
    "ReadUint32FromHeader mem (int (length a) + 12) = Inr (uint (crc (msg_crc_area ct key val)))"
    "ReadUint8 mem (int (length a) + 17) = Inr (XlateCompressionType ct)"
    "ReadInt32FromHeader mem (int (length a) + 18) = Inr (len_field (length key))"
    "ReadInt32FromHeader mem (int (length a) + 22 + int (length key)) = Inr (len_field (length val))"
    "mem_range mem (int (length a) + 22) (int (length a) + 22 + int (length key)) = Inr key"
    "mem_range mem (int (length a) + 26 + int (length key))
       (int (length a) + 26 + int (length key) + int (length val)) = Inr val"
  using assms(1) unfolding mem msg_set_item_flat
  by (simp_all add: Read_flat [where i=2] Read_flat [where i=3] Read_flat [where i=5]
      Read_flat [where i=6] Read_flat [where i=8] mem_range_flat [where i=7]
      mem_range_flat [where i=9] item_fields_def be_value_simps uint32_mod i32_len_field
      i32_id msg_consts Xlate_mod)

lemma len_field_inv [simp]: "len_of_field (len_field n) = int n"
  by (simp add: len_field_def len_of_field_def)

lemma chk32_Inr: "0 \<le> x \<Longrightarrow> x < 2 ^ 31 \<Longrightarrow> chk32 x = Inr x"
  by (simp add: chk32_def fits32_def)

lemma init_key_value_item:
  assumes size: "26 + length key + length val < 2 ^ 31"
    and mem: "mem = a @ msg_set_item crc ct key val @ c"
    and start: "msg_start = int (length a) + 12"
    and msg_size: "msg_size = int (14 + length key + length val)"
  shows "msr_init_key_value mem msg_start msg_size r =
      Inr (r \<lparr> msr_CurrentMsgKeyBegin := Some (int (length a + 22)),
            msr_CurrentMsgKeyEnd := Some (int (length a + 22 + length key)),
            msr_CurrentMsgValueBegin := Some (int (length a + 26 + length key)),
            msr_CurrentMsgValueEnd := Some (int (length a + 26 + length key + length val)) \<rparr>)"
proof -
  have small: "14 + length key + length val < 2 ^ 31" using size by simp
  have k: "ReadInt32FromHeader mem (18 + int (length a)) =
      (Inr (len_field (length key)) :: TProtoError fault + _)"
    using item_reads(4) [OF small mem] by (simp add: add.commute)
  have v: "ReadInt32FromHeader mem (22 + (int (length a) + int (length key))) =
      (Inr (len_field (length val)) :: TProtoError fault + _)"
    using item_reads(5) [OF small mem] by (simp add: ac_simps)
  show ?thesis
    using size k v unfolding start msg_size
    by (simp add: msr_init_key_value_def msg_consts Let_def chk32_Inr ac_simps)
qed

lemma InitCurrentMsg_item:
  assumes size: "26 + length key + length val < 2 ^ 31"
    and fits: "int (length a + 26 + length key + length val) \<le> msr_End r"
    and mem: "mem = a @ msg_set_item crc ct key val @ c"
    and curr: "msr_CurrentMsg r = Some (int (length a))"
  shows "msr_InitCurrentMsg crc mem (int (length a)) r = Inr (at_item r (length a) key val)"
proof -
  have small: "14 + length key + length val < 2 ^ 31" using size by simp
  have 1: "ReadInt32FromHeader mem (8 + int (length a)) =
      (Inr (14 + (int (length key) + int (length val))) :: TProtoError fault + _)"
    using item_reads(1) [OF small mem] by (simp add: ac_simps)
  have 2: "ReadUint32FromHeader mem (12 + int (length a)) =
      (Inr (uint (crc (msg_crc_area ct key val))) :: TProtoError fault + _)"
    using item_reads(2) [OF small mem] by (simp add: ac_simps)
  have 3: "mem_read mem (16 + int (length a)) (10 + (length key + length val)) =
      (Inr (msg_crc_area ct key val) :: TProtoError fault + _)"
    using item_area [of a crc ct key val c] unfolding mem by (simp add: ac_simps)
  have n: "nat (int (length key) + (int (length val) + 10)) = length key + (length val + 10)"
    by simp
  have 4: "r \<lparr> msr_CurrentMsg := Some (int (length a)) \<rparr> = r"
    using curr by (cases r) simp
  show ?thesis
    using fits 1 2 3
    by (simp add: msr_InitCurrentMsg_def Let_def msg_consts n init_key_value_item [OF size mem] ac_simps)
      (subst 4 [symmetric], simp add: at_item_def ac_simps)
qed

text \<open>The reader moves from item to item.\<close>

lemma FirstMsg_item:
  assumes "26 + length key + length val < 2 ^ 31"
    and "int (length a + 26 + length key + length val) \<le> msr_End r"
    and "mem = a @ msg_set_item crc ct key val @ c"
    and "msr_CurrentMsg r = None" "msr_Begin r = int (length a)"
  shows "msr_NextMsg crc mem r = Inr (True, at_item r (length a) key val)"
  using assms InitCurrentMsg_item [of key val a "r \<lparr> msr_CurrentMsg := Some (int (length a)) \<rparr>" mem crc ct c]
  by (simp add: msr_NextMsg_def msr_FirstMsg_def Let_def at_item_def)

lemma NextMsg_item:
  assumes "26 + length key + length val < 2 ^ 31" "26 + length key0 + length val0 < 2 ^ 31"
    and "int (length a + 26 + length key + length val) \<le> msr_End r"
    and "mem = a @ msg_set_item crc ct key val @ c"
    and "length a = pos + 26 + length key0 + length val0"
  shows "msr_NextMsg crc mem (at_item r pos key0 val0) = Inr (True, at_item r (length a) key val)"
  using assms InitCurrentMsg_item [of key val a
      "at_item r pos key0 val0 \<lparr> msr_CurrentMsg := Some (int (length a)) \<rparr>" mem crc ct c]
  by (simp add: msr_NextMsg_def Let_def msg_consts chk32_Inr at_item_def ac_simps)

lemma NextMsg_end:
  assumes "26 + length key0 + length val0 < 2 ^ 31"
    and "msr_End r = int (pos + 26 + length key0 + length val0)"
  shows "\<exists>r'. msr_NextMsg crc mem (at_item r pos key0 val0) = Inr (False, r')"
  using assms by (simp add: msr_NextMsg_def Let_def msg_consts chk32_Inr at_item_def ac_simps)

lemma CompressionType_item:
  assumes "26 + length key + length val < 2 ^ 31"
    and mem: "mem = a @ msg_set_item crc ct key val @ c"
  shows "msr_GetCurrentMsgCompressionType mem (at_item r (length a) key val) = Inr ct"
proof -
  have small: "14 + length key + length val < 2 ^ 31" using assms(1) by simp
  have "ReadUint8 mem (17 + int (length a)) =
      (Inr (XlateCompressionType ct) :: TProtoError fault + _)"
    using item_reads(3) [OF small mem] by (simp add: ac_simps)
  then show ?thesis
    by (cases ct) (simp_all add: msr_GetCurrentMsgCompressionType_def at_item_def msg_consts ac_simps)
qed

lemma bytes_item:
  assumes "26 + length key + length val < 2 ^ 31"
    and mem: "mem = a @ msg_set_item crc ct key val @ c"
  shows "msr_bytes mem (msr_CurrentMsgKeyBegin (at_item r (length a) key val))
           (msr_CurrentMsgKeyEnd (at_item r (length a) key val)) = Inr key"
    "msr_bytes mem (msr_CurrentMsgValueBegin (at_item r (length a) key val))
       (msr_CurrentMsgValueEnd (at_item r (length a) key val)) = Inr val"
proof -
  have small: "14 + length key + length val < 2 ^ 31" using assms(1) by simp
  show "msr_bytes mem (msr_CurrentMsgKeyBegin (at_item r (length a) key val))
           (msr_CurrentMsgKeyEnd (at_item r (length a) key val)) = Inr key"
    "msr_bytes mem (msr_CurrentMsgValueBegin (at_item r (length a) key val))
       (msr_CurrentMsgValueEnd (at_item r (length a) key val)) = Inr val"
    using item_reads(6,7) [OF small mem] by (simp_all add: msr_bytes_def at_item_def)
qed

section \<open>Arbitrary input\<close>

text \<open>The length fields of the message at \<open>current_msg\<close>, as \<open>InitCurrentMsg\<close> reads them, are so
  large that the sums it compares with the message size exceed \<open>int32_t\<close>.\<close>

definition length_sums_overflow :: "byte list \<Rightarrow> int \<Rightarrow> bool" where
  "length_sums_overflow mem current_msg =
     (let key_size = len_of_field (int32_at mem (current_msg + 18))
      in 2 ^ 31 \<le> 14 + key_size \<or>
         2 ^ 31 \<le> 14 + key_size + int32_at mem (current_msg + 22 + key_size))"

lemma init_key_value_defined:
  assumes "0 \<le> current_msg" "14 \<le> msg_size"
    and "current_msg + 12 + msg_size \<le> int (length mem)"
    and "\<not> length_sums_overflow mem current_msg"
  shows "msr_init_key_value mem (current_msg + 12) msg_size r \<noteq> Inl Undefined"
proof -
  define key_size where "key_size = len_of_field (int32_at mem (current_msg + 18))"
  define val_size where "val_size = len_of_field (int32_at mem (current_msg + 22 + key_size))"
  have k: "ReadInt32FromHeader mem (current_msg + 18) =
      (Inr (int32_at mem (current_msg + 18)) :: TProtoError fault + _)"
    by (rule Read_inside) (use assms in simp_all)
  have v: "ReadInt32FromHeader mem (current_msg + 22 + key_size) =
      (Inr (int32_at mem (current_msg + 22 + key_size)) :: TProtoError fault + _)"
    if "0 \<le> key_size" "14 + key_size \<le> msg_size"
    by (rule Read_inside) (use assms that in simp_all)
  have o1: "14 + key_size < 2 ^ 31"
    using assms(4) by (simp add: length_sums_overflow_def Let_def key_size_def)
  have o2: "14 + key_size + val_size < 2 ^ 31"
    using assms(4) o1 by (simp add: length_sums_overflow_def Let_def key_size_def val_size_def
        len_of_field_def split: if_splits)
  have "msr_init_key_value mem (current_msg + 12) msg_size r =
      (if key_size < 0 then Inl (Thrown TBadMsgKeySize)
       else if 14 + key_size > msg_size then Inl (Thrown TBadMsgKeySize)
       else if val_size < 0 then Inl (Thrown TBadMsgValueSize)
       else if 14 + key_size + val_size \<noteq> msg_size then Inl (Thrown TBadMsgValueSize)
       else Inr (r \<lparr> msr_CurrentMsgKeyBegin := Some (current_msg + 22),
              msr_CurrentMsgKeyEnd := Some (current_msg + 22 + key_size),
              msr_CurrentMsgValueBegin := Some (current_msg + 26 + key_size),
              msr_CurrentMsgValueEnd := Some (current_msg + 26 + key_size + val_size) \<rparr>))"
    using k v o1 o2
    by (auto simp: msr_init_key_value_def msg_consts Let_def chk32_Inr key_size_def val_size_def
        add.assoc)
  then show ?thesis by (simp split: if_splits)
qed

lemma InitCurrentMsg_defined:
  assumes "0 \<le> current_msg" "msr_End r \<le> int (length mem)"
    and "\<not> length_sums_overflow mem current_msg"
  shows "msr_InitCurrentMsg crc mem current_msg r \<noteq> Inl Undefined"
proof -
  define n where "n = int32_at mem (current_msg + 8)"
  have r1: "ReadInt32FromHeader mem (current_msg + 8) = (Inr n :: TProtoError fault + _)"
    if "current_msg + 12 \<le> msr_End r"
    unfolding n_def by (rule Read_inside) (use assms that in simp_all)
  have r2: "\<exists>area. mem_read mem (current_msg + 16) (nat (n - 4)) = (Inr area :: TProtoError fault + _)"
    "\<exists>v. ReadUint32FromHeader mem (current_msg + 12) = (Inr v :: TProtoError fault + _)"
    "msr_init_key_value mem (current_msg + 12) n r' \<noteq> Inl Undefined"
    if "14 \<le> n" "current_msg + 12 + n \<le> msr_End r" for r'
    using assms that init_key_value_defined [of current_msg n mem r']
    by (auto simp: read_defs mem_read_def)
  show ?thesis
    using r1 r2 by (auto simp: msr_InitCurrentMsg_def Let_def msg_consts bindF_eq_Undefined ac_simps)
qed

end
