(* ===== verification/Produce_Request_Writer.thy ===== *)
theory Produce_Request_Writer
  imports Msg_Set_Writer
begin

text \<open>
  The writer of Kafka produce requests,
  \<open>src/dory/kafka_proto/produce/v0/produce_request_writer.cc\<close>.

  It writes a request as nested groups: topics, in each of them message sets for partitions, in
  each of them messages.  The counts and sizes that come first in a group are filled in when the
  group is closed.  The message set writer it contains works on the same buffer.
\<close>

section \<open>Constants and state\<close>

definition PRC_API_KEY_SIZE :: nat where "PRC_API_KEY_SIZE = 2"
definition PRC_API_VERSION_SIZE :: nat where "PRC_API_VERSION_SIZE = 2"
definition PRC_CORRELATION_ID_SIZE :: nat where "PRC_CORRELATION_ID_SIZE = 4"
definition PRC_CLIENT_ID_LEN_SIZE :: nat where "PRC_CLIENT_ID_LEN_SIZE = 2"
definition PRC_REQUIRED_ACKS_SIZE :: nat where "PRC_REQUIRED_ACKS_SIZE = 2"
definition PRC_REPLICATION_TIMEOUT_SIZE :: nat where "PRC_REPLICATION_TIMEOUT_SIZE = 4"
definition PRC_TOPIC_COUNT_SIZE :: nat where "PRC_TOPIC_COUNT_SIZE = 4"
definition PRC_TOPIC_NAME_LEN_SIZE :: nat where "PRC_TOPIC_NAME_LEN_SIZE = 2"
definition PRC_PARTITION_COUNT_SIZE :: nat where "PRC_PARTITION_COUNT_SIZE = 4"
definition PRC_PARTITION_SIZE :: nat where "PRC_PARTITION_SIZE = 4"
definition PRC_MSG_SET_SIZE_SIZE :: nat where "PRC_MSG_SET_SIZE_SIZE = 4"

lemmas request_consts =
  PRC_API_KEY_SIZE_def PRC_API_VERSION_SIZE_def PRC_CORRELATION_ID_SIZE_def
  PRC_CLIENT_ID_LEN_SIZE_def PRC_REQUIRED_ACKS_SIZE_def PRC_REPLICATION_TIMEOUT_SIZE_def
  PRC_TOPIC_COUNT_SIZE_def PRC_TOPIC_NAME_LEN_SIZE_def PRC_PARTITION_COUNT_SIZE_def
  PRC_PARTITION_SIZE_def PRC_MSG_SET_SIZE_SIZE_def REQUEST_OR_RESPONSE_SIZE_SIZE_def

datatype TProduceRequestWriterState = PrwIdle | PrwInRequest | PrwInTopic | PrwInMsgSet

record TProduceRequestWriter =
  prw_State :: TProduceRequestWriterState
  prw_AtOffset :: nat
  prw_TopicCountOffset :: nat
  prw_FirstTopicOffset :: nat
  prw_CurrentTopicOffset :: nat
  prw_CurrentTopicPartitionCountOffset :: nat
  prw_TopicCount :: nat
  prw_FirstPartitionOffset :: nat
  prw_CurrentPartitionOffset :: nat
  prw_PartitionCount :: nat
  prw_MsgSetWriter :: TMsgSetWriter

section \<open>Operations\<close>

definition prw_Reset :: TProduceRequestWriter where
  "prw_Reset = \<lparr> prw_State = PrwIdle, prw_AtOffset = 0, prw_TopicCountOffset = 0,
     prw_FirstTopicOffset = 0, prw_CurrentTopicOffset = 0,
     prw_CurrentTopicPartitionCountOffset = 0, prw_TopicCount = 0, prw_FirstPartitionOffset = 0,
     prw_CurrentPartitionOffset = 0, prw_PartitionCount = 0, prw_MsgSetWriter = msw_Reset \<rparr>"

type_synonym request_writer = "TProduceRequestWriter \<times> byte list"

definition prw_OpenRequest ::
  "int \<Rightarrow> byte list \<Rightarrow> int \<Rightarrow> int \<Rightarrow> byte list \<Rightarrow> TProtoError fault + request_writer" where
  "prw_OpenRequest corr_id client_id required_acks replication_timeout result_buf =
     (let client_id_len = length client_id;
          buf = resize (REQUEST_OR_RESPONSE_SIZE_SIZE + PRC_API_KEY_SIZE + PRC_API_VERSION_SIZE +
                  PRC_CORRELATION_ID_SIZE + PRC_CLIENT_ID_LEN_SIZE + client_id_len +
                  PRC_REQUIRED_ACKS_SIZE + PRC_REPLICATION_TIMEOUT_SIZE + PRC_TOPIC_COUNT_SIZE)
                  result_buf
      in bindF (WriteInt16AtOffset 0 (REQUEST_OR_RESPONSE_SIZE_SIZE, buf)) (\<lambda>c.
         bindF (WriteInt16AtOffset 0 c) (\<lambda>c.
         bindF (WriteInt32AtOffset corr_id c) (\<lambda>c.
         bindF (WriteInt16AtOffset (i16 (len_field client_id_len)) c) (\<lambda>c.
         bindF (WriteDataAtOffset client_id c) (\<lambda>c.
         bindF (WriteInt16AtOffset required_acks c) (\<lambda>c.
         bindF (WriteInt32AtOffset replication_timeout c) (\<lambda>(at, buf).
         Inr (prw_Reset \<lparr> prw_TopicCountOffset := at,
                prw_AtOffset := at + PRC_TOPIC_COUNT_SIZE, prw_State := PrwInRequest \<rparr>, buf)))))))))"

definition prw_OpenTopic :: "byte list \<Rightarrow> request_writer \<Rightarrow> TProtoError fault + request_writer" where
  "prw_OpenTopic topic_name = (\<lambda>(w, buf).
     let topic_name_len = length topic_name;
         buf = resize (length buf + PRC_TOPIC_NAME_LEN_SIZE + topic_name_len +
                 PRC_PARTITION_COUNT_SIZE) buf
     in bindF (WriteInt16AtOffset (i16 (len_field topic_name_len)) (prw_AtOffset w, buf)) (\<lambda>c.
        bindF (WriteDataAtOffset topic_name c) (\<lambda>(at, buf).
        Inr (w \<lparr> prw_FirstPartitionOffset := 0, prw_CurrentPartitionOffset := 0,
               prw_PartitionCount := 0, prw_CurrentTopicOffset := prw_AtOffset w,
               prw_FirstTopicOffset :=
                 (if prw_TopicCount w = 0 then prw_AtOffset w else prw_FirstTopicOffset w),
               prw_CurrentTopicPartitionCountOffset := at,
               prw_AtOffset := at + PRC_PARTITION_COUNT_SIZE, prw_State := PrwInTopic \<rparr>, buf))))"

definition prw_OpenMsgSet :: "int \<Rightarrow> request_writer \<Rightarrow> TProtoError fault + request_writer" where
  "prw_OpenMsgSet partition_id = (\<lambda>(w, buf).
     let buf = resize (length buf + PRC_PARTITION_SIZE + PRC_MSG_SET_SIZE_SIZE) buf
     in bindF (WriteInt32AtOffset partition_id (prw_AtOffset w, buf)) (\<lambda>(at, buf).
        let (msg_set_writer, buf) = msw_OpenMsgSet True buf
        in Inr (w \<lparr> prw_CurrentPartitionOffset := prw_AtOffset w,
                  prw_FirstPartitionOffset :=
                    (if prw_PartitionCount w = 0 then prw_AtOffset w else prw_FirstPartitionOffset w),
                  prw_AtOffset := at + PRC_MSG_SET_SIZE_SIZE,
                  prw_MsgSetWriter := msg_set_writer, prw_State := PrwInMsgSet \<rparr>, buf)))"

text \<open>The operations on messages are those of the message set writer.\<close>

definition prw_OpenMsg ::
  "TCompressionType \<Rightarrow> nat \<Rightarrow> nat \<Rightarrow> request_writer \<Rightarrow> TProtoError fault + request_writer" where
  "prw_OpenMsg compression_type key_size value_size = (\<lambda>(w, buf).
     bindF (msw_OpenMsg compression_type key_size value_size (prw_MsgSetWriter w, buf)) (\<lambda>(m, buf).
       Inr (w \<lparr> prw_MsgSetWriter := m \<rparr>, buf)))"

definition prw_GetCurrentMsgKeyOffset :: "request_writer \<Rightarrow> nat" where
  "prw_GetCurrentMsgKeyOffset = (\<lambda>(w, buf). msw_CurrentMsgKeyOffset (prw_MsgSetWriter w))"

definition prw_GetCurrentMsgValueOffset :: "request_writer \<Rightarrow> nat" where
  "prw_GetCurrentMsgValueOffset = (\<lambda>(w, buf). msw_CurrentMsgValueOffset (prw_MsgSetWriter w))"

definition prw_AdjustValueSize :: "nat \<Rightarrow> request_writer \<Rightarrow> request_writer" where
  "prw_AdjustValueSize new_size = (\<lambda>(w, buf).
     let (m, buf) = msw_AdjustValueSize new_size (prw_MsgSetWriter w, buf)
     in (w \<lparr> prw_MsgSetWriter := m \<rparr>, buf))"

definition prw_RollbackOpenMsg :: "request_writer \<Rightarrow> request_writer" where
  "prw_RollbackOpenMsg = (\<lambda>(w, buf).
     let (m, buf) = msw_RollbackOpenMsg (prw_MsgSetWriter w, buf)
     in (w \<lparr> prw_MsgSetWriter := m \<rparr>, buf))"

definition prw_CloseMsg ::
  "(byte list \<Rightarrow> 32 word) \<Rightarrow> request_writer \<Rightarrow> TProtoError fault + request_writer" where
  "prw_CloseMsg crc = (\<lambda>(w, buf).
     bindF (msw_CloseMsg crc (prw_MsgSetWriter w, buf)) (\<lambda>(m, buf).
       Inr (w \<lparr> prw_MsgSetWriter := m \<rparr>, buf)))"

definition prw_AddMsg ::
  "(byte list \<Rightarrow> 32 word) \<Rightarrow> TCompressionType \<Rightarrow> byte list \<Rightarrow> byte list \<Rightarrow>
   request_writer \<Rightarrow> TProtoError fault + request_writer" where
  "prw_AddMsg crc compression_type key val = (\<lambda>(w, buf).
     bindF (msw_AddMsg crc compression_type key val (prw_MsgSetWriter w, buf)) (\<lambda>(m, buf).
       Inr (w \<lparr> prw_MsgSetWriter := m \<rparr>, buf)))"

definition prw_CloseMsgSet :: "request_writer \<Rightarrow> TProtoError fault + request_writer" where
  "prw_CloseMsgSet = (\<lambda>(w, buf).
     let (msg_set_size, m) = msw_CloseMsgSet (prw_MsgSetWriter w)
     in bindF (WriteInt32ToHeader (prw_CurrentPartitionOffset w + PRC_PARTITION_SIZE)
                 (i32 (int msg_set_size)) buf) (\<lambda>buf.
        Inr (w \<lparr> prw_AtOffset := length buf, prw_MsgSetWriter := m,
               prw_PartitionCount := prw_PartitionCount w + 1, prw_State := PrwInTopic \<rparr>, buf)))"

definition prw_CloseTopic :: "request_writer \<Rightarrow> TProtoError fault + request_writer" where
  "prw_CloseTopic = (\<lambda>(w, buf).
     bindF (WriteInt32ToHeader (prw_CurrentTopicPartitionCountOffset w)
              (i32 (int (prw_PartitionCount w))) buf) (\<lambda>buf.
     Inr (w \<lparr> prw_TopicCount := prw_TopicCount w + 1, prw_State := PrwInRequest \<rparr>, buf)))"

definition prw_CloseRequest :: "request_writer \<Rightarrow> TProtoError fault + request_writer" where
  "prw_CloseRequest = (\<lambda>(w, buf).
     bindF (WriteInt32ToHeader (prw_TopicCountOffset w) (i32 (int (prw_TopicCount w))) buf) (\<lambda>buf.
     let total_request_size = length buf;
         request_size_field_value = total_request_size - 4
     in bindF (WriteInt32ToHeader 0 (i32 (int request_size_field_value)) buf) (\<lambda>buf.
        Inr (w \<lparr> prw_State := PrwIdle \<rparr>, buf))))"

section \<open>The encoding\<close>

text \<open>A produce request as data: messages are triples of compression type, key and value.\<close>

type_synonym wire_msg = "TCompressionType \<times> byte list \<times> byte list"
type_synonym wire_part = "int \<times> wire_msg list"
type_synonym wire_topic = "byte list \<times> wire_part list"

definition enc_msg :: "(byte list \<Rightarrow> 32 word) \<Rightarrow> wire_msg \<Rightarrow> byte list" where
  "enc_msg crc = (\<lambda>(ct, key, val). msg_set_item crc ct key val)"

definition enc_msgs :: "(byte list \<Rightarrow> 32 word) \<Rightarrow> wire_msg list \<Rightarrow> byte list" where
  "enc_msgs crc ms = concat (map (enc_msg crc) ms)"

definition enc_part :: "(byte list \<Rightarrow> 32 word) \<Rightarrow> wire_part \<Rightarrow> byte list" where
  "enc_part crc = (\<lambda>(partition_id, ms).
     be_bytes 4 partition_id @ be_bytes 4 (i32 (int (length (enc_msgs crc ms)))) @ enc_msgs crc ms)"

definition enc_topic :: "(byte list \<Rightarrow> 32 word) \<Rightarrow> wire_topic \<Rightarrow> byte list" where
  "enc_topic crc = (\<lambda>(name, parts).
     be_bytes 2 (i16 (len_field (length name))) @ name @ be_bytes 4 (i32 (int (length parts))) @
     concat (map (enc_part crc) parts))"

text \<open>The request up to its topics, around the size and topic count fields.\<close>

definition request_head ::
  "byte list \<Rightarrow> int \<Rightarrow> byte list \<Rightarrow> int \<Rightarrow> int \<Rightarrow> byte list \<Rightarrow> byte list list" where
  "request_head size_field corr_id client_id required_acks replication_timeout count_field =
     [size_field, be_bytes 2 0, be_bytes 2 0, be_bytes 4 corr_id,
      be_bytes 2 (i16 (len_field (length client_id))), client_id, be_bytes 2 required_acks,
      be_bytes 4 replication_timeout, count_field]"

definition enc_request ::
  "(byte list \<Rightarrow> 32 word) \<Rightarrow> int \<Rightarrow> byte list \<Rightarrow> int \<Rightarrow> int \<Rightarrow> wire_topic list \<Rightarrow> byte list" where
  "enc_request crc corr_id client_id required_acks replication_timeout topics =
     (let body = concat (map (enc_topic crc) topics)
      in flat (request_head (be_bytes 4 (i32 (20 + int (length client_id) + int (length body)))) corr_id
                client_id required_acks replication_timeout
                (be_bytes 4 (i32 (int (length topics))))) @ body)"

section \<open>The writer's states\<close>

definition prw_in_request ::
  "byte list \<Rightarrow> byte list list \<Rightarrow> request_writer \<Rightarrow> bool" where
  "prw_in_request rh topics = (\<lambda>(w, buf).
     buf = rh @ concat topics \<and> 24 \<le> length rh \<and>
     prw_State w = PrwInRequest \<and> prw_AtOffset w = length buf \<and>
     prw_TopicCountOffset w = length rh - 4 \<and> prw_TopicCount w = length topics)"

definition topic_head :: "byte list \<Rightarrow> byte list" where
  "topic_head name = be_bytes 2 (i16 (len_field (length name))) @ name"

definition prw_in_topic ::
  "byte list \<Rightarrow> byte list list \<Rightarrow> byte list \<Rightarrow> byte list list \<Rightarrow> request_writer \<Rightarrow> bool" where
  "prw_in_topic rh topics name parts = (\<lambda>(w, buf).
     buf = flat [rh @ concat topics @ topic_head name, zeros 4, concat parts] \<and> 24 \<le> length rh \<and>
     prw_State w = PrwInTopic \<and> prw_AtOffset w = length buf \<and>
     prw_TopicCountOffset w = length rh - 4 \<and> prw_TopicCount w = length topics \<and>
     prw_CurrentTopicPartitionCountOffset w = length (rh @ concat topics @ topic_head name) \<and>
     prw_PartitionCount w = length parts)"

definition msg_set_start ::
  "byte list \<Rightarrow> byte list list \<Rightarrow> byte list \<Rightarrow> byte list list \<Rightarrow> int \<Rightarrow> byte list" where
  "msg_set_start rh topics name parts p =
     flat [rh @ concat topics @ topic_head name, zeros 4, concat parts, be_bytes 4 p, zeros 4]"

text \<open>Inside a message set; \<open>ws\<close> is the state of the message set writer.\<close>

definition prw_in_msg_set ::
  "byte list \<Rightarrow> byte list list \<Rightarrow> byte list \<Rightarrow> byte list list \<Rightarrow> int \<Rightarrow>
   TMsgSetWriter \<times> byte list \<Rightarrow> request_writer \<Rightarrow> bool" where
  "prw_in_msg_set rh topics name parts p ws = (\<lambda>(w, buf).
     (prw_MsgSetWriter w, buf) = ws \<and> 24 \<le> length rh \<and>
     prw_State w = PrwInMsgSet \<and>
     prw_AtOffset w = length (msg_set_start rh topics name parts p) \<and>
     prw_TopicCountOffset w = length rh - 4 \<and> prw_TopicCount w = length topics \<and>
     prw_CurrentTopicPartitionCountOffset w = length (rh @ concat topics @ topic_head name) \<and>
     prw_PartitionCount w = length parts \<and>
     prw_CurrentPartitionOffset w = length (msg_set_start rh topics name parts p) - 8)"

lemma OpenRequest_spec:
  "\<exists>size_field count_field wb. length size_field = 4 \<and> length count_field = 4 \<and>
     prw_OpenRequest corr_id client_id acks timeout result_buf = Inr wb \<and>
     prw_in_request (flat (request_head size_field corr_id client_id acks timeout count_field)) [] wb"
proof -
  define b where "b = resize (24 + length client_id) result_buf"
  have "length b = sum_list [4, 2, 2, 4, 2, length client_id, 2, 4, 4]"
    by (simp add: b_def resize_def)
  then obtain fs where "map length fs = [4, 2, 2, 4, 2, length client_id, 2, 4, 4]" and b: "b = flat fs"
    using split_fields by metis
  then obtain f0 f1 f2 f3 f4 f5 f6 f7 f8 where fs: "fs = [f0, f1, f2, f3, f4, f5, f6, f7, f8]"
    and len: "length f0 = 4" "length f1 = 2" "length f2 = 2" "length f3 = 4" "length f4 = 2"
      "length f5 = length client_id" "length f6 = 2" "length f7 = 4" "length f8 = 4"
    by (auto simp: map_eq_Cons_conv)
  have e: "4 + 2 + 2 + 4 + 2 + length client_id + 2 + 4 + 4 = 24 + length client_id" by simp
  let ?h = "request_head f0 corr_id client_id acks timeout f8"
  have "prw_OpenRequest corr_id client_id acks timeout result_buf =
      Inr (prw_Reset \<lparr> prw_TopicCountOffset := 20 + length client_id,
             prw_AtOffset := 24 + length client_id, prw_State := PrwInRequest \<rparr>, flat ?h)"
    unfolding prw_OpenRequest_def Let_def request_consts e b_def [symmetric] b fs write_at_defs write_defs
    by (simp add: len request_head_def mem_write_flat [where i=1] mem_write_flat [where i=2]
        mem_write_flat [where i=3] mem_write_flat [where i=4] mem_write_flat [where i=5]
        mem_write_flat [where i=6] mem_write_flat [where i=7])
  moreover have "length (flat ?h) = 24 + length client_id"
    by (simp add: length_flat request_head_def len)
  ultimately show ?thesis
    using len by (intro exI [of _ f0] exI [of _ f8]) (simp add: prw_in_request_def prw_Reset_def)
qed

lemma OpenTopic_spec:
  assumes "prw_in_request rh topics wb"
  shows "\<exists>wb'. prw_OpenTopic name wb = Inr wb' \<and> prw_in_topic rh topics name [] wb'"
proof -
  obtain w buf where wb: "wb = (w, buf)" by fastforce
  have r: "resize (length buf + 2 + length name + 4) buf = flat [buf, zeros 2, zeros (length name), zeros 4]"
    using concat_replicates [of "0 :: byte" "[2, length name, 4]"]
    by (simp add: flat_def resize_def)
  show ?thesis
    using assms unfolding prw_OpenTopic_def Let_def request_consts wb prod.case r write_at_defs write_defs
    by (simp add: prw_in_request_def prw_in_topic_def mem_write_flat [where i=1] mem_write_flat [where i=2])
      (simp add: flat_def topic_head_def)
qed

lemma OpenMsgSet_spec:
  assumes "prw_in_topic rh topics name parts wb"
  shows "\<exists>wb'. prw_OpenMsgSet p wb = Inr wb' \<and>
    prw_in_msg_set rh topics name parts p (in_set (msg_set_start rh topics name parts p) []) wb'"
proof -
  obtain w buf where wb: "wb = (w, buf)" by fastforce
  have r: "resize (length buf + 4 + 4) buf = flat [buf, zeros 4, zeros 4]"
    using concat_replicates [of "0 :: byte" "[4, 4]"]
    by (simp add: flat_def resize_def)
  show ?thesis
    using assms unfolding prw_OpenMsgSet_def Let_def request_consts wb prod.case r write_at_defs write_defs
    by (simp add: prw_in_topic_def prw_in_msg_set_def mem_write_flat [where i=1] msw_OpenMsgSet_eq in_set_def)
      (simp add: flat_def msg_set_start_def)
qed

lemma CloseMsgSet_spec:
  assumes "prw_in_msg_set rh topics name parts p (in_set (msg_set_start rh topics name parts p) items) wb"
  shows "\<exists>wb'. prw_CloseMsgSet wb = Inr wb' \<and>
    prw_in_topic rh topics name (parts @ [be_bytes 4 p @ be_bytes 4 (i32 (int (length (concat items)))) @
      concat items]) wb'"
proof -
  obtain w buf where wb: "wb = (w, buf)" by fastforce
  let ?f = "[rh @ concat topics @ topic_head name, zeros 4, concat parts, be_bytes 4 p, zeros 4,
    concat items]"
  have buf: "buf = flat ?f" and m: "prw_MsgSetWriter w = fst (in_set (msg_set_start rh topics name parts p) items)"
    using assms by (auto simp: prw_in_msg_set_def wb in_set_def msg_set_start_def flat_def)
  show ?thesis
    using assms unfolding prw_CloseMsgSet_def wb prod.case m CloseMsgSet_eq Let_def buf write_defs request_consts
    by (simp add: prw_in_msg_set_def msg_set_start_def length_flat mem_write_flat [where i=4] prw_in_topic_def)
      (simp add: flat_def)
qed

lemma CloseTopic_spec:
  assumes "prw_in_topic rh topics name parts wb"
  shows "\<exists>wb'. prw_CloseTopic wb = Inr wb' \<and>
    prw_in_request rh (topics @ [topic_head name @ be_bytes 4 (i32 (int (length parts))) @ concat parts]) wb'"
proof -
  obtain w buf where wb: "wb = (w, buf)" by fastforce
  show ?thesis
    using assms unfolding prw_CloseTopic_def wb prod.case write_defs
    by (simp add: prw_in_topic_def mem_write_flat [where i=1] prw_in_request_def)
      (simp add: flat_def)
qed

lemma CloseRequest_spec:
  assumes "prw_in_request (flat (request_head sf corr_id client_id acks timeout cf)) topics wb"
    and "length sf = 4" "length cf = 4"
  shows "\<exists>w. prw_CloseRequest wb = Inr (w,
    flat (request_head (be_bytes 4 (i32 (20 + int (length client_id) + int (length (concat topics)))))
            corr_id client_id acks timeout (be_bytes 4 (i32 (int (length topics))))) @ concat topics)"
proof -
  obtain w buf where wb: "wb = (w, buf)" by fastforce
  have buf: "buf = flat (request_head sf corr_id client_id acks timeout cf @ [concat topics])"
    using assms(1) by (simp add: prw_in_request_def wb flat_def)
  have n: "length (flat (request_head sf corr_id client_id acks timeout cf)) = 24 + length client_id"
    using assms(2,3) by (simp add: length_flat request_head_def)
  have w: "prw_TopicCountOffset w = 20 + length client_id" "prw_TopicCount w = length topics"
    using assms(1) by (simp_all add: prw_in_request_def wb n)
  show ?thesis
    using assms(2,3) unfolding prw_CloseRequest_def wb prod.case Let_def write_defs buf w
    by (simp add: request_head_def length_flat mem_write_flat [where i=8] mem_write_flat [where i=0])
      (simp add: flat_def add.assoc)
qed

text \<open>The operations on messages act on the message set writer alone.\<close>

lemma prw_msg_ops:
  assumes "prw_in_msg_set rh topics name parts p ws wb"
  shows
    "msw_OpenMsg ct k v ws = Inr ws' \<Longrightarrow>
       \<exists>wb'. prw_OpenMsg ct k v wb = Inr wb' \<and> prw_in_msg_set rh topics name parts p ws' wb'"
    "msw_CloseMsg crc ws = Inr ws' \<Longrightarrow>
       \<exists>wb'. prw_CloseMsg crc wb = Inr wb' \<and> prw_in_msg_set rh topics name parts p ws' wb'"
    "msw_AddMsg crc ct key val ws = Inr ws' \<Longrightarrow>
       \<exists>wb'. prw_AddMsg crc ct key val wb = Inr wb' \<and> prw_in_msg_set rh topics name parts p ws' wb'"
    "prw_in_msg_set rh topics name parts p (msw_AdjustValueSize n ws) (prw_AdjustValueSize n wb)"
    "prw_in_msg_set rh topics name parts p (msw_RollbackOpenMsg ws) (prw_RollbackOpenMsg wb)"
  using assms
  by (cases wb, auto simp: prw_in_msg_set_def prw_OpenMsg_def prw_CloseMsg_def prw_AddMsg_def
      prw_AdjustValueSize_def prw_RollbackOpenMsg_def split: prod.splits)+

end
