(* ===== verification/Produce_Request_Reader.thy ===== *)
theory Produce_Request_Reader
  imports Msg_Set_Reader Produce_Request_Writer
begin

text \<open>
  The reader of Kafka produce requests,
  \<open>src/dory/kafka_proto/produce/v0/produce_request_reader.cc\<close>, with which the mock Kafka
  server takes a request apart.

  The request is the byte list \<open>mem\<close>; the pointers are offsets from its start, so \<open>Begin\<close> is 0 and
  \<open>Size\<close> equals \<open>End\<close>.  The size of the request that the caller passes is the length of \<open>mem\<close>.
\<close>

section \<open>State\<close>

record TProduceRequestReader =
  prr_End :: int
  prr_ClientIdLen :: int
  prr_RequiredAcksOffset :: int
  prr_NumTopics :: int
  prr_CurrentTopicIndex :: int
  prr_CurrentTopicBegin :: int
  prr_CurrentTopicNameEnd :: int
  prr_NumPartitionsInTopic :: int
  prr_CurrentPartitionIndexInTopic :: int
  prr_CurrentPartitionBegin :: int
  prr_PartitionMsgSetBegin :: int
  prr_PartitionMsgSetEnd :: int
  prr_MsgSetReader :: TMsgSetReader

definition prr_Clear :: TProduceRequestReader where
  "prr_Clear = \<lparr> prr_End = 0, prr_ClientIdLen = 0, prr_RequiredAcksOffset = 0, prr_NumTopics = 0,
     prr_CurrentTopicIndex = -1, prr_CurrentTopicBegin = 0, prr_CurrentTopicNameEnd = 0,
     prr_NumPartitionsInTopic = 0, prr_CurrentPartitionIndexInTopic = -1,
     prr_CurrentPartitionBegin = 0, prr_PartitionMsgSetBegin = 0, prr_PartitionMsgSetEnd = 0,
     prr_MsgSetReader = msr_Clear \<rparr>"

section \<open>The request's header\<close>

definition prr_MinSize :: int where
  "prr_MinSize = int (REQUEST_OR_RESPONSE_SIZE_SIZE + PRC_API_KEY_SIZE + PRC_API_VERSION_SIZE +
     PRC_CORRELATION_ID_SIZE + PRC_CLIENT_ID_LEN_SIZE + PRC_REQUIRED_ACKS_SIZE +
     PRC_REPLICATION_TIMEOUT_SIZE + PRC_TOPIC_COUNT_SIZE)"

definition prr_SetRequest :: "byte list \<Rightarrow> TProtoError fault + TProduceRequestReader" where
  "prr_SetRequest mem =
     bindF (GetRequestOrResponseSize TBadRequestOrResponseSize mem 0) (\<lambda>req_end.
     if req_end < prr_MinSize then Inl (Thrown TBadRequestSize)
     else if int (length mem) < req_end then Inl (Thrown TRequestTruncated)
     else bindF (ReadInt16FromHeader mem (int REQUEST_OR_RESPONSE_SIZE_SIZE)) (\<lambda>api_key.
     if api_key \<noteq> 0 then Inl (Thrown TBadApiKey)
     else bindF (ReadInt16FromHeader mem (int (REQUEST_OR_RESPONSE_SIZE_SIZE + PRC_API_KEY_SIZE)))
       (\<lambda>api_version.
     if api_version \<noteq> 0 then Inl (Thrown TBadApiVersion)
     else
       let client_id_len_offset = int (REQUEST_OR_RESPONSE_SIZE_SIZE + PRC_API_KEY_SIZE +
             PRC_API_VERSION_SIZE + PRC_CORRELATION_ID_SIZE)
       in bindF (ReadInt16FromHeader mem client_id_len_offset) (\<lambda>len_f.
          let client_id_len = len_of_field len_f
          in if client_id_len < 0 then Inl (Thrown TBadClientIdLen)
          else if req_end < prr_MinSize + client_id_len then Inl (Thrown TBadRequestSize)
          else
            let required_acks_offset = client_id_len_offset + int PRC_CLIENT_ID_LEN_SIZE + client_id_len
            in bindF (ReadInt32FromHeader mem (required_acks_offset + int PRC_REQUIRED_ACKS_SIZE +
                   int PRC_REPLICATION_TIMEOUT_SIZE)) (\<lambda>num_topics.
               if num_topics < 0 then Inl (Thrown TBadTopicCount)
               else Inr (prr_Clear \<lparr> prr_End := req_end, prr_ClientIdLen := client_id_len,
                      prr_RequiredAcksOffset := required_acks_offset,
                      prr_NumTopics := num_topics \<rparr>))))))"

definition prr_GetCorrelationId :: "byte list \<Rightarrow> TProtoError fault + int" where
  "prr_GetCorrelationId mem = ReadInt32FromHeader mem
     (int (REQUEST_OR_RESPONSE_SIZE_SIZE + PRC_API_KEY_SIZE + PRC_API_VERSION_SIZE))"

definition prr_GetClientIdBegin :: int where
  "prr_GetClientIdBegin = int (REQUEST_OR_RESPONSE_SIZE_SIZE + PRC_API_KEY_SIZE +
     PRC_API_VERSION_SIZE + PRC_CORRELATION_ID_SIZE + PRC_CLIENT_ID_LEN_SIZE)"

definition prr_GetClientIdEnd :: "TProduceRequestReader \<Rightarrow> int" where
  "prr_GetClientIdEnd r = prr_GetClientIdBegin + prr_ClientIdLen r"

definition prr_GetRequiredAcks :: "byte list \<Rightarrow> TProduceRequestReader \<Rightarrow> TProtoError fault + int" where
  "prr_GetRequiredAcks mem r = ReadInt16FromHeader mem (prr_GetClientIdEnd r)"

definition prr_GetReplicationTimeout ::
  "byte list \<Rightarrow> TProduceRequestReader \<Rightarrow> TProtoError fault + int" where
  "prr_GetReplicationTimeout mem r =
     ReadInt32FromHeader mem (prr_GetClientIdEnd r + int PRC_REQUIRED_ACKS_SIZE)"

section \<open>Topics and partitions\<close>

definition prr_InitCurrentTopic ::
  "byte list \<Rightarrow> TProduceRequestReader \<Rightarrow> TProtoError fault + TProduceRequestReader" where
  "prr_InitCurrentTopic mem r =
     (if prr_CurrentTopicBegin r + int PRC_TOPIC_NAME_LEN_SIZE > prr_End r
      then Inl (Thrown TRequestTruncated)
      else bindF (ReadInt16FromHeader mem (prr_CurrentTopicBegin r)) (\<lambda>len_f.
        let topic_name_len = len_of_field len_f
        in if topic_name_len < 0 then Inl (Thrown TBadTopicNameLen)
        else
          let name_end = prr_CurrentTopicBegin r + int PRC_TOPIC_NAME_LEN_SIZE + topic_name_len
          in if name_end + int PRC_PARTITION_COUNT_SIZE > prr_End r
             then Inl (Thrown TRequestTruncated)
             else bindF (ReadInt32FromHeader mem name_end) (\<lambda>num_partitions.
               if num_partitions < 0 then Inl (Thrown TBadPartitionCount)
               else Inr (r \<lparr> prr_CurrentTopicNameEnd := name_end,
                      prr_NumPartitionsInTopic := num_partitions,
                      prr_CurrentPartitionIndexInTopic := -1, prr_CurrentPartitionBegin := 0,
                      prr_PartitionMsgSetBegin := 0, prr_PartitionMsgSetEnd := 0 \<rparr>))))"

definition prr_InitCurrentPartition ::
  "byte list \<Rightarrow> TProduceRequestReader \<Rightarrow> TProtoError fault + TProduceRequestReader" where
  "prr_InitCurrentPartition mem r =
     (let msg_set_begin = prr_CurrentPartitionBegin r + int PRC_PARTITION_SIZE +
            int PRC_MSG_SET_SIZE_SIZE
      in if msg_set_begin > prr_End r then Inl (Thrown TRequestTruncated)
      else bindF (ReadInt32FromHeader mem (prr_CurrentPartitionBegin r + int PRC_PARTITION_SIZE))
        (\<lambda>msg_set_size.
          let msg_set_end = msg_set_begin + msg_set_size
          in if msg_set_end > prr_End r then Inl (Thrown TRequestTruncated)
             else Inr (r \<lparr> prr_PartitionMsgSetBegin := msg_set_begin,
                    prr_PartitionMsgSetEnd := msg_set_end,
                    prr_MsgSetReader := msr_SetMsgSet msg_set_begin msg_set_size \<rparr>)))"

definition prr_FirstMsgSetInTopic ::
  "byte list \<Rightarrow> TProduceRequestReader \<Rightarrow> TProtoError fault + bool \<times> TProduceRequestReader" where
  "prr_FirstMsgSetInTopic mem r =
     (let r = r \<lparr> prr_CurrentPartitionIndexInTopic := 0,
            prr_CurrentPartitionBegin := prr_CurrentTopicNameEnd r + int PRC_PARTITION_COUNT_SIZE \<rparr>
      in if prr_NumPartitionsInTopic r > 0
         then bindF (prr_InitCurrentPartition mem r) (\<lambda>r. Inr (True, r))
         else Inr (False, r))"

definition prr_NextMsgSetInTopic ::
  "byte list \<Rightarrow> TProduceRequestReader \<Rightarrow> TProtoError fault + bool \<times> TProduceRequestReader" where
  "prr_NextMsgSetInTopic mem r =
     (if prr_CurrentPartitionIndexInTopic r < 0 then prr_FirstMsgSetInTopic mem r
      else if prr_CurrentPartitionIndexInTopic r \<ge> prr_NumPartitionsInTopic r
      then Inl (Thrown TRangeError)
      else
        let r = r \<lparr> prr_CurrentPartitionBegin := prr_PartitionMsgSetEnd r,
              prr_CurrentPartitionIndexInTopic := prr_CurrentPartitionIndexInTopic r + 1 \<rparr>
        in if prr_CurrentPartitionIndexInTopic r < prr_NumPartitionsInTopic r
           then bindF (prr_InitCurrentPartition mem r) (\<lambda>r. Inr (True, r))
           else Inr (False, r \<lparr> prr_MsgSetReader := msr_Clear \<rparr>))"

lemma InitCurrentPartition_keeps:
  "prr_InitCurrentPartition mem r = Inr r' \<Longrightarrow>
   prr_CurrentPartitionIndexInTopic r' = prr_CurrentPartitionIndexInTopic r \<and>
   prr_NumPartitionsInTopic r' = prr_NumPartitionsInTopic r"
  by (auto simp: prr_InitCurrentPartition_def Let_def bindF_eq_Inr split: if_splits)

lemma NextMsgSetInTopic_progress:
  assumes "prr_NextMsgSetInTopic mem r = Inr (True, r')"
  shows "nat (prr_NumPartitionsInTopic r' - prr_CurrentPartitionIndexInTopic r') <
         nat (prr_NumPartitionsInTopic r - prr_CurrentPartitionIndexInTopic r)"
  using assms
  by (auto simp: prr_NextMsgSetInTopic_def prr_FirstMsgSetInTopic_def Let_def bindF_eq_Inr
      dest!: InitCurrentPartition_keeps split: if_splits)

text \<open>The loop of \<open>NextTopic\<close> that skips the remaining message sets of the current topic.\<close>

function prr_skip_msg_sets ::
  "byte list \<Rightarrow> bool \<Rightarrow> TProduceRequestReader \<Rightarrow> TProtoError fault + TProduceRequestReader" where
  "prr_skip_msg_sets mem not_at_end r =
     (if not_at_end then
        (case prr_NextMsgSetInTopic mem r of
           Inl e \<Rightarrow> Inl e
         | Inr (True, r') \<Rightarrow> prr_skip_msg_sets mem True r'
         | Inr (False, r') \<Rightarrow> Inr r')
      else Inr r)"
  by pat_completeness auto
termination
  by (relation "measure (\<lambda>(mem, b, r).
        nat (prr_NumPartitionsInTopic r - prr_CurrentPartitionIndexInTopic r))")
    (auto dest!: NextMsgSetInTopic_progress)

declare prr_skip_msg_sets.simps [simp del]

definition prr_FirstTopic ::
  "byte list \<Rightarrow> TProduceRequestReader \<Rightarrow> TProtoError fault + bool \<times> TProduceRequestReader" where
  "prr_FirstTopic mem r =
     (let r = r \<lparr> prr_CurrentTopicIndex := 0,
            prr_CurrentTopicBegin := prr_GetClientIdEnd r + int PRC_REQUIRED_ACKS_SIZE +
              int PRC_REPLICATION_TIMEOUT_SIZE + int PRC_TOPIC_COUNT_SIZE \<rparr>
      in if prr_NumTopics r > 0
         then bindF (prr_InitCurrentTopic mem r) (\<lambda>r. Inr (True, r))
         else Inr (False, r))"

definition prr_NextTopic ::
  "byte list \<Rightarrow> TProduceRequestReader \<Rightarrow> TProtoError fault + bool \<times> TProduceRequestReader" where
  "prr_NextTopic mem r =
     (if prr_CurrentTopicIndex r < 0 then prr_FirstTopic mem r
      else if prr_CurrentTopicIndex r \<ge> prr_NumTopics r then Inl (Thrown TRangeError)
      else
        bindF (if prr_CurrentPartitionIndexInTopic r = -1 then prr_FirstMsgSetInTopic mem r
               else Inr (prr_CurrentPartitionIndexInTopic r < prr_NumPartitionsInTopic r, r))
          (\<lambda>(not_at_end, r).
        bindF (prr_skip_msg_sets mem not_at_end r) (\<lambda>r.
        let r = r \<lparr> prr_CurrentTopicBegin := prr_CurrentPartitionBegin r,
              prr_CurrentTopicIndex := prr_CurrentTopicIndex r + 1 \<rparr>
        in if prr_CurrentTopicIndex r < prr_NumTopics r
           then bindF (prr_InitCurrentTopic mem r) (\<lambda>r. Inr (True, r))
           else Inr (False, r))))"

definition prr_GetPartitionOfCurrentMsgSet ::
  "byte list \<Rightarrow> TProduceRequestReader \<Rightarrow> TProtoError fault + int" where
  "prr_GetPartitionOfCurrentMsgSet mem r = ReadInt32FromHeader mem (prr_CurrentPartitionBegin r)"

text \<open>The name of the current topic, between \<open>GetCurrentTopicNameBegin\<close> and
  \<open>GetCurrentTopicNameEnd\<close>.\<close>

definition prr_GetCurrentTopicName ::
  "byte list \<Rightarrow> TProduceRequestReader \<Rightarrow> TProtoError fault + byte list" where
  "prr_GetCurrentTopicName mem r =
     mem_range mem (prr_CurrentTopicBegin r + int PRC_TOPIC_NAME_LEN_SIZE) (prr_CurrentTopicNameEnd r)"

definition prr_NextMsgInMsgSet ::
  "(byte list \<Rightarrow> 32 word) \<Rightarrow> byte list \<Rightarrow> TProduceRequestReader \<Rightarrow>
   TProtoError fault + bool \<times> TProduceRequestReader" where
  "prr_NextMsgInMsgSet crc mem r =
     bindF (msr_NextMsg crc mem (prr_MsgSetReader r)) (\<lambda>(b, m).
       Inr (b, r \<lparr> prr_MsgSetReader := m \<rparr>))"

end
