(* ===== verification/Prod_Req_Builder.thy ===== *)
theory Prod_Req_Builder
  imports Produce_Request_Reader
begin

text \<open>
  The mock Kafka server's view of a produce request, \<open>src/dory/mock_kafka_server/prod_req/\<close>: the
  builder takes a received request apart with the request and message set readers.

  The compression libraries are a parameter \<open>uncompress\<close>, which gives the uncompressed data or
  \<open>None\<close> when the codec throws.  The loops are total functions: every step of a reader makes
  progress, whatever the input is.
\<close>

section \<open>The request as the server sees it\<close>

record TSrvMsg =
  sm_CrcOk :: bool
  sm_Key :: "byte list"
  sm_Value :: "byte list"

record TSrvMsgSet =
  ss_Partition :: int
  ss_CompressionType :: TCompressionType
  ss_MsgCrcsOk :: bool
  ss_MsgVec :: "TSrvMsg list"

record TTopicGroup =
  tg_Topic :: "byte list"
  tg_MsgSetVec :: "TSrvMsgSet list"

record TProdReq =
  pr_CorrelationId :: int
  pr_ClientId :: "byte list"
  pr_RequiredAcks :: int
  pr_ReplicationTimeout :: int
  pr_TopicGroupVec :: "TTopicGroup list"

definition new_TSrvMsgSet :: "int \<Rightarrow> TSrvMsgSet" where
  "new_TSrvMsgSet p = \<lparr> ss_Partition = p, ss_CompressionType = CompressNone, ss_MsgCrcsOk = True,
     ss_MsgVec = [] \<rparr>"

definition ss_AddMsg :: "TSrvMsg \<Rightarrow> TSrvMsgSet \<Rightarrow> TSrvMsgSet" where
  "ss_AddMsg msg s = s \<lparr> ss_MsgVec := ss_MsgVec s @ [msg],
     ss_MsgCrcsOk := (ss_MsgCrcsOk s \<and> sm_CrcOk msg) \<rparr>"

definition bad_crc_msg :: TSrvMsg where
  "bad_crc_msg = \<lparr> sm_CrcOk = False, sm_Key = [], sm_Value = [] \<rparr>"

section \<open>Progress of the message set reader\<close>

definition msr_phase :: "TMsgSetReader \<Rightarrow> nat" where
  "msr_phase r = (case msr_CurrentMsg r of None \<Rightarrow> 2
     | Some _ \<Rightarrow> if msr_CurrentMsgSize r < 0 then 1 else 0)"

definition msr_left :: "TMsgSetReader \<Rightarrow> nat" where
  "msr_left r = (case msr_CurrentMsg r of None \<Rightarrow> 0 | Some c \<Rightarrow> nat (msr_End r - c))"

lemma init_key_value_keeps:
  "msr_init_key_value mem s n r = Inr r' \<Longrightarrow>
   msr_CurrentMsg r' = msr_CurrentMsg r \<and> msr_End r' = msr_End r \<and>
   msr_Begin r' = msr_Begin r \<and> msr_CurrentMsgSize r' = msr_CurrentMsgSize r"
  by (auto simp: msr_init_key_value_def Let_def bindF_eq_Inr split: if_splits)

lemma InitCurrentMsg_keeps:
  "msr_InitCurrentMsg crc mem c r = Inr r' \<Longrightarrow>
   msr_CurrentMsg r' = msr_CurrentMsg r \<and> msr_End r' = msr_End r \<and> msr_Begin r' = msr_Begin r \<and>
   14 \<le> msr_CurrentMsgSize r' \<and> c + 12 + msr_CurrentMsgSize r' \<le> msr_End r'"
  by (auto simp: msr_InitCurrentMsg_def Let_def bindF_eq_Inr msr_no_msg_def msg_consts
      dest!: init_key_value_keeps split: if_splits)

lemma NextMsg_progress:
  assumes "msr_NextMsg crc mem r = Inr (True, r')"
  shows "msr_phase r' < msr_phase r \<or> (msr_phase r' = msr_phase r \<and> msr_left r' < msr_left r)"
  using assms
  by (auto simp: msr_NextMsg_def msr_FirstMsg_def Let_def bindF_eq_Inr chk32_def msg_consts
      msr_phase_def msr_left_def dest!: InitCurrentMsg_keeps split: if_splits option.splits)

section \<open>The builder\<close>

function prb_uncompressed_loop ::
  "(byte list \<Rightarrow> 32 word) \<Rightarrow> byte list \<Rightarrow> TMsgSetReader \<Rightarrow> TSrvMsgSet \<Rightarrow>
   TProtoError fault + TSrvMsgSet" where
  "prb_uncompressed_loop crc data r msg_set =
     bindF (msr_NextMsg crc data r) (\<lambda>(more, r').
     if \<not> more then Inr msg_set
     else if \<not> msr_CurrentMsgCrcOk r'
     then prb_uncompressed_loop crc data r' (ss_AddMsg bad_crc_msg msg_set)
     else bindF (msr_GetCurrentMsgCompressionType data r') (\<lambda>ct.
          if ct \<noteq> CompressNone then Inl (Thrown TCompressedMsgInvalidAttributes)
          else bindF (msr_bytes data (msr_CurrentMsgKeyBegin r') (msr_CurrentMsgKeyEnd r')) (\<lambda>key.
               bindF (msr_bytes data (msr_CurrentMsgValueBegin r') (msr_CurrentMsgValueEnd r')) (\<lambda>val.
               prb_uncompressed_loop crc data r'
                 (ss_AddMsg \<lparr> sm_CrcOk = True, sm_Key = key, sm_Value = val \<rparr> msg_set)))))"
  by pat_completeness auto
termination
  by (relation "measures [\<lambda>(crc, data, r, s). msr_phase r, \<lambda>(crc, data, r, s). msr_left r]")
    (auto dest!: NextMsg_progress)

declare prb_uncompressed_loop.simps [simp del]

definition prb_BuildUncompressedMsgSet ::
  "(byte list \<Rightarrow> 32 word) \<Rightarrow> int \<Rightarrow> byte list \<Rightarrow> TCompressionType \<Rightarrow> TProtoError fault + TSrvMsgSet" where
  "prb_BuildUncompressedMsgSet crc part data ct =
     bindF (prb_uncompressed_loop crc data (msr_SetMsgSet 0 (int (length data))) (new_TSrvMsgSet part))
       (\<lambda>msg_set. Inr (msg_set \<lparr> ss_CompressionType := ct \<rparr>))"

definition prb_GetCompressedData ::
  "(byte list \<Rightarrow> 32 word) \<Rightarrow> byte list \<Rightarrow> TSrvMsg list \<Rightarrow> TProduceRequestReader \<Rightarrow>
   TProtoError fault + byte list \<times> TProduceRequestReader" where
  "prb_GetCompressedData crc mem msg_vec r =
     (if msg_vec \<noteq> [] then Inl (Thrown TCompressedMsgSetNotAlone)
      else
        let m = prr_MsgSetReader r
        in if msr_CurrentMsgKeyEnd m \<noteq> msr_CurrentMsgKeyBegin m
           then Inl (Thrown TCompressedMsgSetMustHaveEmptyKey)
           else bindF (msr_bytes mem (msr_CurrentMsgValueBegin m) (msr_CurrentMsgValueEnd m)) (\<lambda>data.
                bindF (prr_NextMsgInMsgSet crc mem r) (\<lambda>(more, r).
                if more then Inl (Thrown TCompressedMsgSetNotAlone) else Inr (data, r))))"

text \<open>\<open>GzipUncompressMsgSet\<close>, \<open>SnappyUncompressMsgSet\<close> and \<open>Lz4UncompressMsgSet\<close>, one for each type.\<close>

definition prb_UncompressMsgSet ::
  "(TCompressionType \<Rightarrow> byte list \<Rightarrow> byte list option) \<Rightarrow> TCompressionType \<Rightarrow> byte list \<Rightarrow>
   TProtoError fault + byte list" where
  "prb_UncompressMsgSet uncompress ct data =
     (case uncompress ct data of None \<Rightarrow> Inl (Thrown TUncompressFailed) | Some d \<Rightarrow> Inr d)"

function prb_msg_set_loop ::
  "(byte list \<Rightarrow> 32 word) \<Rightarrow> (TCompressionType \<Rightarrow> byte list \<Rightarrow> byte list option) \<Rightarrow> byte list \<Rightarrow>
   TProduceRequestReader \<Rightarrow> TSrvMsgSet \<Rightarrow> TProtoError fault + TSrvMsgSet \<times> TProduceRequestReader" where
  "prb_msg_set_loop crc uncompress mem r msg_set =
     bindF (prr_NextMsgInMsgSet crc mem r) (\<lambda>(more, r').
     let m = prr_MsgSetReader r'
     in if \<not> more then Inr (msg_set, r')
     else if \<not> msr_CurrentMsgCrcOk m
     then prb_msg_set_loop crc uncompress mem r' (ss_AddMsg bad_crc_msg msg_set)
     else bindF (msr_GetCurrentMsgCompressionType mem m) (\<lambda>ct.
          if ct = CompressNone
          then bindF (msr_bytes mem (msr_CurrentMsgKeyBegin m) (msr_CurrentMsgKeyEnd m)) (\<lambda>key.
               bindF (msr_bytes mem (msr_CurrentMsgValueBegin m) (msr_CurrentMsgValueEnd m)) (\<lambda>val.
               prb_msg_set_loop crc uncompress mem r'
                 (ss_AddMsg \<lparr> sm_CrcOk = True, sm_Key = key, sm_Value = val \<rparr> msg_set)))
          else bindF (prb_GetCompressedData crc mem (ss_MsgVec msg_set) r') (\<lambda>(compressed_data, r'').
               bindF (prb_UncompressMsgSet uncompress ct compressed_data) (\<lambda>uncompressed_data.
               bindF (prb_BuildUncompressedMsgSet crc (ss_Partition msg_set) uncompressed_data ct)
                 (\<lambda>s. Inr (s, r''))))))"
  by pat_completeness auto
termination
  by (relation "measures [\<lambda>(crc, u, mem, r, s). msr_phase (prr_MsgSetReader r),
        \<lambda>(crc, u, mem, r, s). msr_left (prr_MsgSetReader r)]")
    (auto simp: prr_NextMsgInMsgSet_def bindF_eq_Inr dest!: NextMsg_progress)

declare prb_msg_set_loop.simps [simp del]

definition prb_BuildMsgSet ::
  "(byte list \<Rightarrow> 32 word) \<Rightarrow> (TCompressionType \<Rightarrow> byte list \<Rightarrow> byte list option) \<Rightarrow> byte list \<Rightarrow>
   TProduceRequestReader \<Rightarrow> TProtoError fault + TSrvMsgSet \<times> TProduceRequestReader" where
  "prb_BuildMsgSet crc uncompress mem r =
     bindF (prr_GetPartitionOfCurrentMsgSet mem r) (\<lambda>part.
     prb_msg_set_loop crc uncompress mem r (new_TSrvMsgSet part))"

text \<open>Reading the messages of a message set changes nothing else in the request reader.\<close>

definition same_but_msgs :: "TProduceRequestReader \<Rightarrow> TProduceRequestReader \<Rightarrow> bool" where
  "same_but_msgs r r' = (r' \<lparr> prr_MsgSetReader := prr_MsgSetReader r \<rparr> = r)"

lemma same_but_msgs_trans [trans]:
  "same_but_msgs r r' \<Longrightarrow> same_but_msgs r' r'' \<Longrightarrow> same_but_msgs r r''"
  unfolding same_but_msgs_def by (cases r; cases r'; cases r'') simp

lemma NextMsgInMsgSet_keeps:
  "prr_NextMsgInMsgSet crc mem r = Inr (b, r') \<Longrightarrow> same_but_msgs r r'"
  by (auto simp: prr_NextMsgInMsgSet_def bindF_eq_Inr same_but_msgs_def)

lemma GetCompressedData_keeps:
  "prb_GetCompressedData crc mem ms r = Inr (d, r') \<Longrightarrow> same_but_msgs r r'"
  by (auto simp: prb_GetCompressedData_def Let_def bindF_eq_Inr dest: NextMsgInMsgSet_keeps
      split: if_splits)

lemma msg_set_loop_keeps:
  "prb_msg_set_loop crc u mem r s = Inr (s', r') \<Longrightarrow> same_but_msgs r r'"
proof (induction crc u mem r s rule: prb_msg_set_loop.induct)
  case (1 crc u mem r s)
  from "1.prems" show ?case
    by (subst (asm) prb_msg_set_loop.simps)
      (auto simp: bindF_eq_Inr Let_def split: if_splits
        dest: NextMsgInMsgSet_keeps GetCompressedData_keeps "1.IH" intro: same_but_msgs_trans)
qed

lemma BuildMsgSet_keeps: "prb_BuildMsgSet crc u mem r = Inr (s, r') \<Longrightarrow> same_but_msgs r r'"
  by (auto simp: prb_BuildMsgSet_def bindF_eq_Inr dest: msg_set_loop_keeps)

lemma same_but_msgs_fields:
  assumes "same_but_msgs r r'"
  shows "prr_End r' = prr_End r" "prr_ClientIdLen r' = prr_ClientIdLen r"
    "prr_NumTopics r' = prr_NumTopics r" "prr_CurrentTopicIndex r' = prr_CurrentTopicIndex r"
    "prr_CurrentTopicBegin r' = prr_CurrentTopicBegin r"
    "prr_CurrentTopicNameEnd r' = prr_CurrentTopicNameEnd r"
    "prr_NumPartitionsInTopic r' = prr_NumPartitionsInTopic r"
    "prr_CurrentPartitionIndexInTopic r' = prr_CurrentPartitionIndexInTopic r"
    "prr_CurrentPartitionBegin r' = prr_CurrentPartitionBegin r"
    "prr_PartitionMsgSetEnd r' = prr_PartitionMsgSetEnd r"
  using assms unfolding same_but_msgs_def by (cases r; cases r'; simp)+

function prb_topic_group_loop ::
  "(byte list \<Rightarrow> 32 word) \<Rightarrow> (TCompressionType \<Rightarrow> byte list \<Rightarrow> byte list option) \<Rightarrow> byte list \<Rightarrow>
   TProduceRequestReader \<Rightarrow> TTopicGroup \<Rightarrow> TProtoError fault + TTopicGroup \<times> TProduceRequestReader" where
  "prb_topic_group_loop crc uncompress mem r topic_group =
     bindF (prr_NextMsgSetInTopic mem r) (\<lambda>(more, r').
     if \<not> more then Inr (topic_group, r')
     else bindF (prb_BuildMsgSet crc uncompress mem r') (\<lambda>(msg_set, r'').
          prb_topic_group_loop crc uncompress mem r''
            (topic_group \<lparr> tg_MsgSetVec := tg_MsgSetVec topic_group @ [msg_set] \<rparr>)))"
  by pat_completeness auto
termination
  by (relation "measure (\<lambda>(crc, u, mem, r, g).
        nat (prr_NumPartitionsInTopic r - prr_CurrentPartitionIndexInTopic r))")
    (auto dest!: NextMsgSetInTopic_progress BuildMsgSet_keeps simp: same_but_msgs_fields)

declare prb_topic_group_loop.simps [simp del]

definition prb_BuildTopicGroup ::
  "(byte list \<Rightarrow> 32 word) \<Rightarrow> (TCompressionType \<Rightarrow> byte list \<Rightarrow> byte list option) \<Rightarrow> byte list \<Rightarrow>
   TProduceRequestReader \<Rightarrow> TProtoError fault + TTopicGroup \<times> TProduceRequestReader" where
  "prb_BuildTopicGroup crc uncompress mem r =
     bindF (prr_GetCurrentTopicName mem r) (\<lambda>topic.
     prb_topic_group_loop crc uncompress mem r \<lparr> tg_Topic = topic, tg_MsgSetVec = [] \<rparr>)"

text \<open>The members that iterating over one topic leaves alone.\<close>

definition same_topic :: "TProduceRequestReader \<Rightarrow> TProduceRequestReader \<Rightarrow> bool" where
  "same_topic r r' = (prr_End r' = prr_End r \<and> prr_ClientIdLen r' = prr_ClientIdLen r \<and>
     prr_NumTopics r' = prr_NumTopics r \<and> prr_CurrentTopicIndex r' = prr_CurrentTopicIndex r \<and>
     prr_CurrentTopicBegin r' = prr_CurrentTopicBegin r \<and>
     prr_CurrentTopicNameEnd r' = prr_CurrentTopicNameEnd r \<and>
     prr_NumPartitionsInTopic r' = prr_NumPartitionsInTopic r)"

lemma same_topic_trans [trans]: "same_topic r r' \<Longrightarrow> same_topic r' r'' \<Longrightarrow> same_topic r r''"
  by (simp add: same_topic_def)

lemma same_but_msgs_same_topic: "same_but_msgs r r' \<Longrightarrow> same_topic r r'"
  by (simp add: same_topic_def same_but_msgs_fields)

lemma NextMsgSetInTopic_same_topic:
  "prr_NextMsgSetInTopic mem r = Inr (b, r') \<Longrightarrow> same_topic r r'"
  "prr_FirstMsgSetInTopic mem r = Inr (b, r') \<Longrightarrow> same_topic r r'"
  by (auto simp: prr_NextMsgSetInTopic_def prr_FirstMsgSetInTopic_def prr_InitCurrentPartition_def
      Let_def bindF_eq_Inr same_topic_def split: if_splits)

lemma topic_group_loop_same_topic:
  "prb_topic_group_loop crc u mem r g = Inr (g', r') \<Longrightarrow> same_topic r r'"
proof (induction crc u mem r g rule: prb_topic_group_loop.induct)
  case (1 crc u mem r g)
  from "1.prems" consider "prr_NextMsgSetInTopic mem r = Inr (False, r')"
    | r1 s r2 where "prr_NextMsgSetInTopic mem r = Inr (True, r1)"
        "prb_BuildMsgSet crc u mem r1 = Inr (s, r2)"
        "prb_topic_group_loop crc u mem r2 (g \<lparr> tg_MsgSetVec := tg_MsgSetVec g @ [s] \<rparr>) = Inr (g', r')"
    by (subst (asm) prb_topic_group_loop.simps) (auto simp: bindF_eq_Inr split: if_splits)
  then show ?case
  proof cases
    case 1
    then show ?thesis by (rule NextMsgSetInTopic_same_topic)
  next
    case 2
    have "same_topic r r1" by (rule NextMsgSetInTopic_same_topic(1) [OF 2(1)])
    also have "same_topic r1 r2" by (rule same_but_msgs_same_topic [OF BuildMsgSet_keeps [OF 2(2)]])
    also have "same_topic r2 r'" by (rule "1.IH" [OF 2(1) refl _ 2(2) refl 2(3)]) simp
    finally show ?thesis .
  qed
qed

lemma skip_msg_sets_same_topic: "prr_skip_msg_sets mem b r = Inr r' \<Longrightarrow> same_topic r r'"
proof (induction mem b r rule: prr_skip_msg_sets.induct)
  case (1 mem b r)
  from "1.prems" consider "r' = r" | "prr_NextMsgSetInTopic mem r = Inr (False, r')"
    | r1 where "b" "prr_NextMsgSetInTopic mem r = Inr (True, r1)" "prr_skip_msg_sets mem True r1 = Inr r'"
    by (subst (asm) prr_skip_msg_sets.simps) (auto split: if_splits sum.splits bool.splits)
  then show ?case
  proof cases
    case 1
    then show ?thesis by (simp add: same_topic_def)
  next
    case 2
    then show ?thesis by (rule NextMsgSetInTopic_same_topic)
  next
    case 3
    have "same_topic r1 r'" using "1.IH" [OF \<open>b\<close> 3(2) refl refl 3(3)] .
    with NextMsgSetInTopic_same_topic(1) [OF 3(2)] show ?thesis by (rule same_topic_trans)
  qed
qed

lemma InitCurrentTopic_keeps:
  "prr_InitCurrentTopic mem r = Inr r' \<Longrightarrow>
   prr_NumTopics r' = prr_NumTopics r \<and> prr_CurrentTopicIndex r' = prr_CurrentTopicIndex r"
  by (auto simp: prr_InitCurrentTopic_def Let_def bindF_eq_Inr split: if_splits)

lemma NextTopic_progress:
  assumes "prr_NextTopic mem r = Inr (True, r')"
  shows "nat (prr_NumTopics r' - prr_CurrentTopicIndex r') <
         nat (prr_NumTopics r - prr_CurrentTopicIndex r)"
proof (cases "prr_CurrentTopicIndex r < 0")
  case True
  with assms show ?thesis
    by (auto simp: prr_NextTopic_def prr_FirstTopic_def Let_def bindF_eq_Inr
        dest!: InitCurrentTopic_keeps split: if_splits)
next
  case False
  with assms obtain b r1 r2 where
    1: "b = (prr_CurrentPartitionIndexInTopic r < prr_NumPartitionsInTopic r) \<and> r1 = r \<or>
        prr_FirstMsgSetInTopic mem r = Inr (b, r1)"
    and 2: "prr_skip_msg_sets mem b r1 = Inr r2"
    and 3: "prr_CurrentTopicIndex r2 + 1 < prr_NumTopics r2"
    and 4: "prr_InitCurrentTopic mem (r2 \<lparr> prr_CurrentTopicBegin := prr_CurrentPartitionBegin r2,
        prr_CurrentTopicIndex := prr_CurrentTopicIndex r2 + 1 \<rparr>) = Inr r'"
    by (auto simp: prr_NextTopic_def Let_def bindF_eq_Inr split: if_splits)
  have "same_topic r r1" using 1 by (auto simp: same_topic_def dest: NextMsgSetInTopic_same_topic)
  also have "same_topic r1 r2" by (rule skip_msg_sets_same_topic [OF 2])
  finally show ?thesis using 3 InitCurrentTopic_keeps [OF 4] by (simp add: same_topic_def)
qed

lemma BuildTopicGroup_same_topic:
  "prb_BuildTopicGroup crc u mem r = Inr (g, r') \<Longrightarrow> same_topic r r'"
  by (auto simp: prb_BuildTopicGroup_def bindF_eq_Inr dest: topic_group_loop_same_topic)

function prb_request_loop ::
  "(byte list \<Rightarrow> 32 word) \<Rightarrow> (TCompressionType \<Rightarrow> byte list \<Rightarrow> byte list option) \<Rightarrow> byte list \<Rightarrow>
   TProduceRequestReader \<Rightarrow> TProdReq \<Rightarrow> TProtoError fault + TProdReq" where
  "prb_request_loop crc uncompress mem r prod_req =
     bindF (prr_NextTopic mem r) (\<lambda>(more, r').
     if \<not> more then Inr prod_req
     else bindF (prb_BuildTopicGroup crc uncompress mem r') (\<lambda>(topic_group, r'').
          prb_request_loop crc uncompress mem r''
            (prod_req \<lparr> pr_TopicGroupVec := pr_TopicGroupVec prod_req @ [topic_group] \<rparr>)))"
  by pat_completeness auto
termination
  by (relation "measure (\<lambda>(crc, u, mem, r, q). nat (prr_NumTopics r - prr_CurrentTopicIndex r))")
    (auto dest!: NextTopic_progress BuildTopicGroup_same_topic simp: same_topic_def)

declare prb_request_loop.simps [simp del]

definition prb_BuildProdReq ::
  "(byte list \<Rightarrow> 32 word) \<Rightarrow> (TCompressionType \<Rightarrow> byte list \<Rightarrow> byte list option) \<Rightarrow> byte list \<Rightarrow>
   TProtoError fault + TProdReq" where
  "prb_BuildProdReq crc uncompress mem =
     bindF (prr_SetRequest mem) (\<lambda>r.
     bindF (mem_range mem prr_GetClientIdBegin (prr_GetClientIdEnd r)) (\<lambda>client_id.
     bindF (prr_GetCorrelationId mem) (\<lambda>corr_id.
     bindF (prr_GetRequiredAcks mem r) (\<lambda>acks.
     bindF (prr_GetReplicationTimeout mem r) (\<lambda>timeout.
     prb_request_loop crc uncompress mem r
       \<lparr> pr_CorrelationId = corr_id, pr_ClientId = client_id, pr_RequiredAcks = acks,
         pr_ReplicationTimeout = timeout, pr_TopicGroupVec = [] \<rparr>)))))"

section \<open>Reading back a message set\<close>

type_synonym kv = "byte list \<times> byte list"

text \<open>The messages of an uncompressed message set, and what the server makes of them.\<close>

definition plain :: "kv list \<Rightarrow> wire_msg list" where
  "plain = map (\<lambda>(key, val). (CompressNone, key, val))"

definition srv_msgs :: "kv list \<Rightarrow> TSrvMsg list" where
  "srv_msgs = map (\<lambda>(key, val). \<lparr> sm_CrcOk = True, sm_Key = key, sm_Value = val \<rparr>)"

definition srv_set :: "int \<Rightarrow> TCompressionType \<Rightarrow> kv list \<Rightarrow> TSrvMsgSet" where
  "srv_set p ct kvs = \<lparr> ss_Partition = p, ss_CompressionType = ct, ss_MsgCrcsOk = True,
     ss_MsgVec = srv_msgs kvs \<rparr>"

lemma plain_simps [simp]:
  "plain [] = []" "plain ((key, val) # kvs) = (CompressNone, key, val) # plain kvs"
  by (simp_all add: plain_def)

lemma enc_msgs_simps [simp]:
  "enc_msgs crc [] = []"
  "enc_msgs crc ((ct, key, val) # ms) = msg_set_item crc ct key val @ enc_msgs crc ms"
  by (simp_all add: enc_msgs_def enc_msg_def)

text \<open>A reader that is about to move to position \<open>pos\<close>: it is before the first message, or on the
  message that ends there.\<close>

definition about_to :: "nat \<Rightarrow> TMsgSetReader \<Rightarrow> bool" where
  "about_to pos r = ((msr_CurrentMsg r = None \<and> msr_Begin r = int pos) \<or>
     (\<exists>r0 pos0 key0 val0. r = at_item r0 pos0 key0 val0 \<and>
        26 + length key0 + length val0 < 2 ^ 31 \<and> pos = pos0 + 26 + length key0 + length val0))"

lemma about_to_cases:
  assumes "about_to pos r"
  obtains (first) "msr_CurrentMsg r = None" "msr_Begin r = int pos"
  | (on) r0 pos0 key0 val0 where "r = at_item r0 pos0 key0 val0" "26 + length key0 + length val0 < 2 ^ 31"
      "pos = pos0 + 26 + length key0 + length val0"
  using assms unfolding about_to_def by (elim disjE exE conjE) (erule (2) on | erule (1) first)+

lemma about_to_next:
  assumes "about_to (length a) r" "26 + length key + length val < 2 ^ 31"
    and "int (length a + 26 + length key + length val) \<le> msr_End r"
    and mem: "mem = a @ msg_set_item crc ct key val @ c"
  shows "\<exists>r0. msr_NextMsg crc mem r = Inr (True, at_item r0 (length a) key val) \<and>
    msr_End r0 = msr_End r"
proof -
  from assms(1) show ?thesis
  proof (cases rule: about_to_cases)
    case first
    with FirstMsg_item [OF assms(2,3) mem] show ?thesis by blast
  next
    case (on r0 pos0 key0 val0)
    have e: "msr_End r0 = msr_End r" using on(1) by (simp add: at_item_def)
    from NextMsg_item [OF assms(2) on(2) _ mem on(3), of r0] assms(3) e on(1) show ?thesis by auto
  qed
qed

lemma about_to_end:
  assumes "about_to pos r" "msr_End r = int pos"
  shows "\<exists>r'. msr_NextMsg crc mem r = Inr (False, r')"
proof -
  from assms(1) show ?thesis
  proof (cases rule: about_to_cases)
    case first
    with assms(2) show ?thesis by (simp add: msr_NextMsg_def msr_FirstMsg_def)
  next
    case (on r0 pos0 key0 val0)
    have "msr_End r0 = int (pos0 + 26 + length key0 + length val0)"
      using on(1,3) assms(2) by (simp add: at_item_def)
    from NextMsg_end [OF on(2) this] show ?thesis using on(1) by simp
  qed
qed

lemma at_item_about_to:
  "26 + length key + length val < 2 ^ 31 \<Longrightarrow>
   about_to (pos + 26 + length key + length val) (at_item r pos key val)"
  unfolding about_to_def by blast

lemma uncompressed_loop_eq:
  assumes "about_to (length a) r" "mem = a @ enc_msgs crc (plain kvs) @ c"
    and "msr_End r = int (length (a @ enc_msgs crc (plain kvs)))" "length mem < 2 ^ 31"
    and "ss_MsgCrcsOk s"
  shows "prb_uncompressed_loop crc mem r s = Inr (s \<lparr> ss_MsgVec := ss_MsgVec s @ srv_msgs kvs \<rparr>)"
  using assms
proof (induction kvs arbitrary: a r s)
  case Nil
  from about_to_end [OF Nil.prems(1)] Nil.prems(3) obtain r' where
    "msr_NextMsg crc mem r = Inr (False, r')" by fastforce
  then show ?case by (subst prb_uncompressed_loop.simps) (simp add: srv_msgs_def)
next
  case (Cons kv kvs)
  obtain key val where kv: "kv = (key, val)" by fastforce
  let ?item = "msg_set_item crc CompressNone key val"
  have len: "26 + length key + length val < 2 ^ 31"
    using Cons.prems(2,4) by (simp add: kv length_msg_set_item)
  have mem: "mem = a @ ?item @ (enc_msgs crc (plain kvs) @ c)"
    using Cons.prems(2) by (simp add: kv)
  have fits: "int (length a + 26 + length key + length val) \<le> msr_End r"
    using Cons.prems(3) by (simp add: kv length_msg_set_item)
  from about_to_next [OF Cons.prems(1) len fits mem] obtain r0 where
    r0: "msr_NextMsg crc mem r = Inr (True, at_item r0 (length a) key val)" "msr_End r0 = msr_End r"
    by blast
  let ?s = "ss_AddMsg \<lparr> sm_CrcOk = True, sm_Key = key, sm_Value = val \<rparr> s"
  have "prb_uncompressed_loop crc mem r s = prb_uncompressed_loop crc mem (at_item r0 (length a) key val) ?s"
    by (subst prb_uncompressed_loop.simps)
      (use r0(1) CompressionType_item [OF len mem] bytes_item [OF len mem] in \<open>simp add: at_item_def\<close>)
  also have "\<dots> = Inr (?s \<lparr> ss_MsgVec := ss_MsgVec ?s @ srv_msgs kvs \<rparr>)"
  proof (rule Cons.IH [of "a @ ?item"])
    show "about_to (length (a @ ?item)) (at_item r0 (length a) key val)"
      using at_item_about_to [OF len, of "length a" r0] by (simp add: length_msg_set_item ac_simps)
  qed (use Cons.prems r0 in \<open>simp_all add: kv at_item_def ss_AddMsg_def\<close>)
  also have "\<dots> = Inr (s \<lparr> ss_MsgVec := ss_MsgVec s @ srv_msgs (kv # kvs) \<rparr>)"
    using Cons.prems(5) by (simp add: ss_AddMsg_def kv srv_msgs_def)
  finally show ?case .
qed

lemma prr_NextMsg_lift:
  "msr_NextMsg crc mem (prr_MsgSetReader r) = Inr (b, m) \<Longrightarrow>
   prr_NextMsgInMsgSet crc mem r = Inr (b, r \<lparr> prr_MsgSetReader := m \<rparr>)"
  by (simp add: prr_NextMsgInMsgSet_def)

lemma msg_set_loop_plain:
  assumes "about_to (length a) (prr_MsgSetReader r)" "mem = a @ enc_msgs crc (plain kvs) @ c"
    and "msr_End (prr_MsgSetReader r) = int (length (a @ enc_msgs crc (plain kvs)))"
    and "length mem < 2 ^ 31" "ss_MsgCrcsOk s"
  shows "\<exists>r'. prb_msg_set_loop crc u mem r s =
    Inr (s \<lparr> ss_MsgVec := ss_MsgVec s @ srv_msgs kvs \<rparr>, r')"
  using assms
proof (induction kvs arbitrary: a r s)
  case Nil
  from about_to_end [OF Nil.prems(1)] Nil.prems(3) obtain m where
    "msr_NextMsg crc mem (prr_MsgSetReader r) = Inr (False, m)" by fastforce
  from prr_NextMsg_lift [OF this] show ?case
    by (subst prb_msg_set_loop.simps) (simp add: srv_msgs_def)
next
  case (Cons kv kvs)
  obtain key val where kv: "kv = (key, val)" by fastforce
  let ?item = "msg_set_item crc CompressNone key val"
  have len: "26 + length key + length val < 2 ^ 31"
    using Cons.prems(2,4) by (simp add: kv length_msg_set_item)
  have mem: "mem = a @ ?item @ (enc_msgs crc (plain kvs) @ c)"
    using Cons.prems(2) by (simp add: kv)
  have fits: "int (length a + 26 + length key + length val) \<le> msr_End (prr_MsgSetReader r)"
    using Cons.prems(3) by (simp add: kv length_msg_set_item)
  from about_to_next [OF Cons.prems(1) len fits mem] obtain m where
    m: "msr_NextMsg crc mem (prr_MsgSetReader r) = Inr (True, at_item m (length a) key val)"
      "msr_End m = msr_End (prr_MsgSetReader r)"
    by blast
  let ?s = "ss_AddMsg \<lparr> sm_CrcOk = True, sm_Key = key, sm_Value = val \<rparr> s"
  let ?r = "r \<lparr> prr_MsgSetReader := at_item m (length a) key val \<rparr>"
  have step: "prb_msg_set_loop crc u mem r s = prb_msg_set_loop crc u mem ?r ?s"
    by (subst prb_msg_set_loop.simps)
      (use prr_NextMsg_lift [OF m(1)] CompressionType_item [OF len mem] bytes_item [OF len mem]
        in \<open>simp add: at_item_def\<close>)
  have "\<exists>r'. prb_msg_set_loop crc u mem ?r ?s = Inr (?s \<lparr> ss_MsgVec := ss_MsgVec ?s @ srv_msgs kvs \<rparr>, r')"
  proof (rule Cons.IH [of "a @ ?item"])
    show "about_to (length (a @ ?item)) (prr_MsgSetReader ?r)"
      using at_item_about_to [OF len, of "length a" m] by (simp add: length_msg_set_item ac_simps)
  qed (use Cons.prems m in \<open>simp_all add: kv at_item_def ss_AddMsg_def\<close>)
  moreover have "?s \<lparr> ss_MsgVec := ss_MsgVec ?s @ srv_msgs kvs \<rparr> =
      s \<lparr> ss_MsgVec := ss_MsgVec s @ srv_msgs (kv # kvs) \<rparr>"
    using Cons.prems(5) by (simp add: ss_AddMsg_def kv srv_msgs_def)
  ultimately show ?case unfolding step by simp
qed

lemma SetMsgSet_about_to: "about_to pos (msr_SetMsgSet (int pos) n)"
  by (simp add: about_to_def msr_SetMsgSet_def msr_Clear_def)

lemma BuildUncompressedMsgSet_eq:
  assumes "length (enc_msgs crc (plain kvs)) < 2 ^ 31"
  shows "prb_BuildUncompressedMsgSet crc p (enc_msgs crc (plain kvs)) ct = Inr (srv_set p ct kvs)"
  using uncompressed_loop_eq [of "[]" "msr_SetMsgSet 0 (int (length (enc_msgs crc (plain kvs))))"
      "enc_msgs crc (plain kvs)" crc kvs "[]" "new_TSrvMsgSet p"]
    SetMsgSet_about_to [of 0 "int (length (enc_msgs crc (plain kvs)))"] assms
  by (simp add: prb_BuildUncompressedMsgSet_def srv_set_def new_TSrvMsgSet_def msr_SetMsgSet_def)

lemma msg_set_loop_compressed:
  assumes r: "prr_MsgSetReader r = msr_SetMsgSet (int (length a)) (int (26 + length data))"
    and ct: "ct \<noteq> CompressNone"
    and mem: "mem = a @ msg_set_item crc ct [] data @ c" and len: "length mem < 2 ^ 31"
    and unc: "u ct data = Some (enc_msgs crc (plain kvs))" "length (enc_msgs crc (plain kvs)) < 2 ^ 31"
  shows "\<exists>r'. prb_msg_set_loop crc u mem r (new_TSrvMsgSet p) = Inr (srv_set p ct kvs, r')"
proof -
  let ?m = "msr_SetMsgSet (int (length a)) (int (26 + length data))"
  have n: "26 + length ([] :: byte list) + length data < 2 ^ 31"
    using len mem by (simp add: length_msg_set_item)
  have fits: "int (length a + 26 + length ([] :: byte list) + length data) \<le> msr_End ?m"
    by (simp add: msr_SetMsgSet_def)
  from about_to_next [OF SetMsgSet_about_to n fits mem] obtain m where
    m: "msr_NextMsg crc mem ?m = Inr (True, at_item m (length a) [] data)" "msr_End m = msr_End ?m"
    by blast
  have e: "msr_End m = int (length a + 26 + length ([] :: byte list) + length data)"
    using m(2) by (simp add: msr_SetMsgSet_def)
  from NextMsg_end [OF n e] obtain m' where
    m': "msr_NextMsg crc mem (at_item m (length a) [] data) = Inr (False, m')" by blast
  let ?r = "r \<lparr> prr_MsgSetReader := at_item m (length a) [] data \<rparr>"
  have "prr_NextMsgInMsgSet crc mem r = Inr (True, ?r)"
    "prr_NextMsgInMsgSet crc mem ?r = Inr (False, r \<lparr> prr_MsgSetReader := m' \<rparr>)"
    using m(1) m' r by (simp_all add: prr_NextMsgInMsgSet_def)
  moreover have "prb_GetCompressedData crc mem [] ?r = Inr (data, r \<lparr> prr_MsgSetReader := m' \<rparr>)"
    using bytes_item(2) [OF n mem, of m] calculation(2)
    by (simp add: prb_GetCompressedData_def) (simp add: at_item_def)
  moreover have "msr_CurrentMsgCrcOk (at_item m (length a) [] data)" by (simp add: at_item_def)
  moreover have "prb_BuildUncompressedMsgSet crc p (enc_msgs crc (plain kvs)) ct = Inr (srv_set p ct kvs)"
    by (rule BuildUncompressedMsgSet_eq [OF unc(2)])
  ultimately show ?thesis
    using CompressionType_item [OF n mem, of m] ct unc(1)
    by (subst prb_msg_set_loop.simps) (simp add: new_TSrvMsgSet_def prb_UncompressMsgSet_def)
qed

section \<open>Arbitrary input\<close>

text \<open>The reader stands on a message that lies inside of the buffer; when its CRC is correct, its key
  and value do, too.\<close>

definition msr_on_msg :: "byte list \<Rightarrow> TMsgSetReader \<Rightarrow> bool" where
  "msr_on_msg mem r = (\<exists>c. msr_CurrentMsg r = Some c \<and> 0 \<le> c \<and> 14 \<le> msr_CurrentMsgSize r \<and>
     c + 12 + msr_CurrentMsgSize r \<le> msr_End r \<and> msr_End r \<le> int (length mem) \<and>
     (msr_CurrentMsgCrcOk r \<longrightarrow> (\<exists>k v. 0 \<le> k \<and> 0 \<le> v \<and> 14 + k + v = msr_CurrentMsgSize r \<and>
        msr_CurrentMsgKeyBegin r = Some (c + 22) \<and> msr_CurrentMsgKeyEnd r = Some (c + 22 + k) \<and>
        msr_CurrentMsgValueBegin r = Some (c + 26 + k) \<and>
        msr_CurrentMsgValueEnd r = Some (c + 26 + k + v))))"

definition msr_before_msg :: "byte list \<Rightarrow> TMsgSetReader \<Rightarrow> bool" where
  "msr_before_msg mem r = (msr_CurrentMsg r = None \<and> 0 \<le> msr_Begin r \<and> msr_End r \<le> int (length mem))"

lemma init_key_value_result:
  assumes "msr_init_key_value mem (c + 12) n r = Inr r'"
  shows "\<exists>k v. 0 \<le> k \<and> 0 \<le> v \<and> 14 + k + v = n \<and>
    r' = r \<lparr> msr_CurrentMsgKeyBegin := Some (c + 22), msr_CurrentMsgKeyEnd := Some (c + 22 + k),
           msr_CurrentMsgValueBegin := Some (c + 26 + k),
           msr_CurrentMsgValueEnd := Some (c + 26 + k + v) \<rparr>"
proof -
  from assms obtain x y where "\<not> len_of_field x < 0" "\<not> len_of_field y < 0"
    "n = 14 + len_of_field x + len_of_field y"
    "r' = r \<lparr> msr_CurrentMsgKeyBegin := Some (22 + c),
       msr_CurrentMsgKeyEnd := Some (22 + c + len_of_field x),
       msr_CurrentMsgValueBegin := Some (26 + (c + len_of_field x)),
       msr_CurrentMsgValueEnd := Some (26 + (c + len_of_field x) + len_of_field y) \<rparr>"
    by (auto simp: msr_init_key_value_def Let_def bindF_eq_Inr msg_consts chk32_def split: if_splits)
  then show ?thesis
    by (intro exI [of _ "len_of_field x"] exI [of _ "len_of_field y"]) (simp add: ac_simps)
qed

lemma InitCurrentMsg_on_msg:
  assumes "msr_InitCurrentMsg crc mem c r = Inr r'" "0 \<le> c" "msr_End r \<le> int (length mem)"
    and "msr_CurrentMsg r = Some c"
  shows "msr_on_msg mem r'"
proof -
  from assms(1) consider
    (good) n where "\<not> n < 14" "\<not> msr_End r < 12 + c + n"
      "msr_init_key_value mem (12 + c) n (r \<lparr> msr_CurrentMsgSize := n, msr_CurrentMsgCrcOk := True \<rparr>) = Inr r'"
  | (bad) n where "\<not> n < 14" "\<not> msr_End r < 12 + c + n"
      "r' = msr_no_msg (r \<lparr> msr_CurrentMsgSize := n, msr_CurrentMsgCrcOk := False \<rparr>)"
    by (auto simp: msr_InitCurrentMsg_def Let_def bindF_eq_Inr msg_consts split: if_splits)
  then show ?thesis
  proof cases
    case good
    with init_key_value_result [of mem c] assms(2-4) show ?thesis
      by (fastforce simp: msr_on_msg_def add.commute)
  next
    case bad
    with assms(2-4) show ?thesis by (simp add: msr_on_msg_def msr_no_msg_def)
  qed
qed

text \<open>No position of the buffer holds length fields whose sums overflow.\<close>

definition no_overflow :: "byte list \<Rightarrow> bool" where
  "no_overflow mem = list_all (\<lambda>c. \<not> length_sums_overflow mem (int c)) [0..<length mem]"

lemma no_overflowD:
  assumes "no_overflow mem" "0 \<le> c" "c < int (length mem)"
  shows "\<not> length_sums_overflow mem c"
proof -
  have "nat c \<in> set [0..<length mem]" using assms(2,3) by auto
  with assms(1) have "\<not> length_sums_overflow mem (int (nat c))"
    unfolding no_overflow_def list_all_iff by blast
  with assms(2) show ?thesis by simp
qed

text \<open>A step of the reader from one message to the next.\<close>

lemma NextMsg_on_msg:
  assumes "msr_on_msg mem r \<or> msr_before_msg mem r" "length mem < 2 ^ 31"
    and "no_overflow mem"
  shows "msr_NextMsg crc mem r \<noteq> Inl Undefined"
    "msr_NextMsg crc mem r = Inr (True, r') \<Longrightarrow> msr_on_msg mem r'"
proof -
  have init: "msr_InitCurrentMsg crc mem c (r \<lparr> msr_CurrentMsg := Some c \<rparr>) \<noteq> Inl Undefined"
    "msr_InitCurrentMsg crc mem c (r \<lparr> msr_CurrentMsg := Some c \<rparr>) = Inr r' \<Longrightarrow> msr_on_msg mem r'"
    if "0 \<le> c" "c < msr_End r" "msr_End r \<le> int (length mem)" for c
    using that no_overflowD [OF assms(3), of c] InitCurrentMsg_defined [of c "r \<lparr> msr_CurrentMsg := Some c \<rparr>" mem crc]
      InitCurrentMsg_on_msg [of crc mem c "r \<lparr> msr_CurrentMsg := Some c \<rparr>" r'] by auto
  have le: "msr_End r \<le> int (length mem)"
    and pos: "(\<exists>c. msr_CurrentMsg r = Some c \<and> 0 \<le> c \<and> 14 \<le> msr_CurrentMsgSize r \<and>
      c + 12 + msr_CurrentMsgSize r \<le> msr_End r) \<or> msr_CurrentMsg r = None \<and> 0 \<le> msr_Begin r"
    using assms(1) by (auto simp: msr_on_msg_def msr_before_msg_def)
  show "msr_NextMsg crc mem r \<noteq> Inl Undefined"
    "msr_NextMsg crc mem r = Inr (True, r') \<Longrightarrow> msr_on_msg mem r'"
    using pos le assms(2) init(1) [OF _ _ le]
    by (auto simp: msr_NextMsg_def msr_FirstMsg_def Let_def msg_consts chk32_Inr bindF_eq_Undefined
        bindF_eq_Inr split: if_splits intro: init(2) [OF _ _ le, rotated 2])
qed

lemma on_msg_reads:
  assumes "msr_on_msg mem r"
  shows "msr_GetCurrentMsgCompressionType mem r \<noteq> Inl Undefined"
    "msr_CurrentMsgCrcOk r \<Longrightarrow>
       msr_bytes mem (msr_CurrentMsgKeyBegin r) (msr_CurrentMsgKeyEnd r) \<noteq> Inl Undefined"
    "msr_CurrentMsgCrcOk r \<Longrightarrow>
       msr_bytes mem (msr_CurrentMsgValueBegin r) (msr_CurrentMsgValueEnd r) \<noteq> Inl Undefined"
  using assms
  by (auto simp: msr_on_msg_def msr_GetCurrentMsgCompressionType_def msr_bytes_def mem_range_def
      mem_read_def read_defs msg_consts split: if_splits)

lemma uncompressed_loop_defined:
  assumes "msr_on_msg mem r \<or> msr_before_msg mem r" "length mem < 2 ^ 31"
    and "no_overflow mem"
  shows "prb_uncompressed_loop crc mem r s \<noteq> Inl Undefined"
  using assms
proof (induction crc mem r s rule: prb_uncompressed_loop.induct)
  case (1 crc mem r s)
  note step = NextMsg_on_msg [OF "1.prems", of crc]
  show ?case
    by (subst prb_uncompressed_loop.simps)
      (use step "1.IH" "1.prems"(2,3) on_msg_reads in
        \<open>auto simp: bindF_eq_Undefined split: if_splits\<close>)
qed


text \<open>The theorem on bytes that are no message set.\<close>

lemma be_value_sevens: "k \<le> 4 \<Longrightarrow> 0 \<le> be_value (replicate k 7) \<and> be_value (replicate k 7) \<le> 117901063"
proof -
  assume "k \<le> 4"
  then have "k = 0 \<or> k = 1 \<or> k = 2 \<or> k = 3 \<or> k = 4" by auto
  moreover have "replicate 2 (7 :: byte) = [7, 7]" "replicate 3 (7 :: byte) = [7, 7, 7]"
    "replicate 4 (7 :: byte) = [7, 7, 7, 7]"
    by (simp_all add: numeral_eq_Suc)
  ultimately show ?thesis by (auto simp: be_value_def)
qed

lemma int32_at_sevens: "0 \<le> int32_at (replicate n 7) p \<and> int32_at (replicate n 7) p \<le> 117901063"
  using be_value_sevens [of "min 4 (n - nat p)"] by (simp add: int32_at_def i32_id)

lemma no_overflow_sevens: "no_overflow (replicate n 7)"
proof -
  have "\<not> length_sums_overflow (replicate n 7) c" for c
  proof -
    define k where "k = len_of_field (int32_at (replicate n 7) (c + 18))"
    define v where "v = int32_at (replicate n 7) (c + 22 + k)"
    have "k \<le> 117901063" "v \<le> 117901063"
      using int32_at_sevens [of n "c + 18"] int32_at_sevens [of n "c + 22 + k"]
      by (simp_all add: k_def v_def len_of_field_def)
    then have "\<not> 2 ^ 31 \<le> 14 + k" "\<not> 2 ^ 31 \<le> 14 + k + v" by simp_all
    then show ?thesis unfolding length_sums_overflow_def Let_def k_def v_def by blast
  qed
  then show ?thesis by (simp add: no_overflow_def list_all_iff)
qed


definition big_key_area :: "byte list" where
  "big_key_area = be_bytes 2 0 @ be_bytes 4 2147483647 @ be_bytes 4 0"

definition big_key_msg :: "(byte list \<Rightarrow> 32 word) \<Rightarrow> byte list" where
  "big_key_msg crc = be_bytes 8 0 @ be_bytes 4 14 @ be_bytes 4 (uint (crc big_key_area)) @ big_key_area"

text \<open>
  C18. The excluded case is real: \<open>InitCurrentMsg\<close> compares \<open>MIN_MSG_SIZE + key_size\<close> with the message
  size in \<open>int32_t\<close>.  For a message of the smallest size with a correct CRC and the key length
  2147483647 the sum overflows.
\<close>

theorem key_size_overflow:
  "prb_BuildUncompressedMsgSet crc p (big_key_msg crc) ct = Inl Undefined"
proof -
  have m: "big_key_msg crc = flat [be_bytes 8 0, be_bytes 4 14, be_bytes 4 (uint (crc big_key_area)),
      be_bytes 2 0, be_bytes 4 2147483647, be_bytes 4 0]"
    by (simp add: big_key_msg_def big_key_area_def flat_def)
  have area: "mem_read (big_key_msg crc) 16 10 = (Inr big_key_area :: TProtoError fault + _)"
    unfolding m by (simp add: mem_read_flat_rest [where i=3]) (simp add: big_key_area_def flat_def)
  have c: "uint (crc big_key_area) mod 4294967296 = uint (crc big_key_area)"
    using uint_bounded [of "crc big_key_area"] by simp
  have reads: "ReadInt32FromHeader (big_key_msg crc) 8 = (Inr 14 :: TProtoError fault + _)"
    "ReadUint32FromHeader (big_key_msg crc) 12 = (Inr (uint (crc big_key_area)) :: TProtoError fault + _)"
    "ReadInt32FromHeader (big_key_msg crc) 18 = (Inr 2147483647 :: TProtoError fault + _)"
    unfolding m by (simp_all add: Read_flat [where i=1] Read_flat [where i=2] Read_flat [where i=4]
        be_value_simps i32_id c)
  have "msr_InitCurrentMsg crc (big_key_msg crc) 0 r = Inl Undefined" if "msr_End r = 26" for r
    using that area reads
    by (simp add: msr_InitCurrentMsg_def msr_init_key_value_def msg_consts Let_def
        len_of_field_def chk32_def fits32_def)
  moreover have "length (big_key_msg crc) = 26" by (simp add: m length_flat)
  ultimately have "msr_NextMsg crc (big_key_msg crc) (msr_SetMsgSet 0 (int (length (big_key_msg crc)))) =
      Inl Undefined"
    by (simp add: msr_NextMsg_def msr_FirstMsg_def msr_SetMsgSet_def msr_Clear_def)
  then show ?thesis
    by (simp add: prb_BuildUncompressedMsgSet_def) (subst prb_uncompressed_loop.simps, simp)
qed

definition negative_size_request :: "byte list" where
  "negative_size_request =
     be_bytes 4 35 @ be_bytes 2 0 @ be_bytes 2 0 @ be_bytes 4 1 @ be_bytes 2 (-1) @ be_bytes 2 (-1) @
     be_bytes 4 0 @ be_bytes 4 1 @ be_bytes 2 1 @ be_bytes 1 65 @ be_bytes 4 2 @
     be_bytes 4 0 @ be_bytes 4 (-100)"

text \<open>
  C19. \<open>InitCurrentPartition\<close> checks only that a message set does not end behind the request.  A
  negative message set size passes the check, moves the reader back in front of the request, and the
  next partition is read from there.
\<close>

theorem negative_msg_set_size:
  "prb_BuildProdReq crc u negative_size_request = Inl Undefined"
  by code_simp

end
