(* ===== verification/Produce_Roundtrip.thy ===== *)
theory Produce_Roundtrip
  imports Prod_Req_Builder
begin

text \<open>
  What a Kafka server reads from an encoded produce request.  The encoding is that of
  \<open>Produce_Request_Writer\<close>, the server is the mock server's request builder.  A message set is sent
  either as its messages or, compressed, as one message whose value is the compressed message set.
\<close>

section \<open>Contents of a request\<close>

text \<open>Per topic and partition: the compression type used and the keys and values.\<close>

type_synonym part_content = "int \<times> TCompressionType \<times> kv list"
type_synonym topic_content = "byte list \<times> part_content list"

definition encodes ::
  "(byte list \<Rightarrow> 32 word) \<Rightarrow> (TCompressionType \<Rightarrow> byte list \<Rightarrow> byte list option) \<Rightarrow>
   wire_msg list \<Rightarrow> TCompressionType \<Rightarrow> kv list \<Rightarrow> bool" where
  "encodes crc u ms ct kvs =
     (if ct = CompressNone then ms = plain kvs
      else length ms = 1 \<and>
        (case hd ms of (ct', key, data) \<Rightarrow>
           ct' = ct \<and> key = [] \<and> u ct data = Some (enc_msgs crc (plain kvs)) \<and>
           length (enc_msgs crc (plain kvs)) < 2 ^ 31))"

definition part_ok ::
  "(byte list \<Rightarrow> 32 word) \<Rightarrow> (TCompressionType \<Rightarrow> byte list \<Rightarrow> byte list option) \<Rightarrow>
   wire_part \<Rightarrow> part_content \<Rightarrow> bool" where
  "part_ok crc u = (\<lambda>(p, ms) (p', ct, kvs). p = p' \<and> fits32 p \<and> encodes crc u ms ct kvs)"

definition topic_ok ::
  "(byte list \<Rightarrow> 32 word) \<Rightarrow> (TCompressionType \<Rightarrow> byte list \<Rightarrow> byte list option) \<Rightarrow>
   wire_topic \<Rightarrow> topic_content \<Rightarrow> bool" where
  "topic_ok crc u = (\<lambda>(name, parts) (name', cs).
     name = name' \<and> length name < 2 ^ 15 \<and> list_all2 (part_ok crc u) parts cs)"

definition srv_part :: "part_content \<Rightarrow> TSrvMsgSet" where
  "srv_part = (\<lambda>(p, ct, kvs). srv_set p ct kvs)"

definition srv_topic :: "topic_content \<Rightarrow> TTopicGroup" where
  "srv_topic = (\<lambda>(name, cs). \<lparr> tg_Topic = name, tg_MsgSetVec = map srv_part cs \<rparr>)"

section \<open>Partitions\<close>

lemma i32_fits: "fits32 x \<Longrightarrow> i32 x = x"
  by (simp add: fits32_def i32_id)

lemma enc_part_flat:
  "a @ enc_part crc (p, ms) @ c =
   flat [a, be_bytes 4 p, be_bytes 4 (i32 (int (length (enc_msgs crc ms)))), enc_msgs crc ms, c]"
  by (simp add: enc_part_def flat_def)

lemma length_enc_part: "length (enc_part crc (p, ms)) = 8 + length (enc_msgs crc ms)"
  by (simp add: enc_part_def)

lemma BuildMsgSet_part:
  assumes mem: "mem = a @ enc_part crc (p, ms) @ c" and len: "length mem < 2 ^ 31"
    and ok: "part_ok crc u (p, ms) (p', ct, kvs)"
    and r: "prr_CurrentPartitionBegin r = int (length a)"
      "prr_MsgSetReader r = msr_SetMsgSet (int (length a + 8)) (int (length (enc_msgs crc ms)))"
  shows "\<exists>r'. prb_BuildMsgSet crc u mem r = Inr (srv_part (p', ct, kvs), r')"
proof -
  let ?b = "a @ be_bytes 4 p @ be_bytes 4 (i32 (int (length (enc_msgs crc ms))))"
  have p: "p' = p" "fits32 p" and enc: "encodes crc u ms ct kvs" using ok by (auto simp: part_ok_def)
  have "prr_GetPartitionOfCurrentMsgSet mem r = Inr p"
    unfolding prr_GetPartitionOfCurrentMsgSet_def r(1) mem enc_part_flat
    by (simp add: Read_flat [where i=1] be_value_simps i32_fits p)
  moreover have "\<exists>r'. prb_msg_set_loop crc u mem r (new_TSrvMsgSet p) = Inr (srv_set p ct kvs, r')"
  proof (cases "ct = CompressNone")
    case True
    then have ms: "ms = plain kvs" using enc by (simp add: encodes_def)
    have "\<exists>r'. prb_msg_set_loop crc u mem r (new_TSrvMsgSet p) =
        Inr (new_TSrvMsgSet p \<lparr> ss_MsgVec := ss_MsgVec (new_TSrvMsgSet p) @ srv_msgs kvs \<rparr>, r')"
    proof (rule msg_set_loop_plain [of ?b])
      show "about_to (length ?b) (prr_MsgSetReader r)"
        using SetMsgSet_about_to [of "length a + 8"] r(2) by simp
      show "mem = ?b @ enc_msgs crc (plain kvs) @ c" using mem ms by (simp add: enc_part_def)
    qed (use r(2) ms len in \<open>simp_all add: msr_SetMsgSet_def new_TSrvMsgSet_def\<close>)
    then show ?thesis using True by (simp add: new_TSrvMsgSet_def srv_set_def)
  next
    case False
    then obtain data where ms: "ms = [(ct, [], data)]"
      and d: "u ct data = Some (enc_msgs crc (plain kvs))" "length (enc_msgs crc (plain kvs)) < 2 ^ 31"
      using enc by (auto simp: encodes_def length_Suc_conv)
    show ?thesis
      by (rule msg_set_loop_compressed [where a = ?b and data = data and c = c])
        (use r(2) ms False mem len d in \<open>simp_all add: length_msg_set_item enc_part_def\<close>)
  qed
  ultimately show ?thesis by (simp add: prb_BuildMsgSet_def srv_part_def p)
qed

text \<open>A reader that has consumed \<open>k\<close> partitions of its topic and is about to move to \<open>pos\<close>.\<close>

definition next_part_at :: "nat \<Rightarrow> nat \<Rightarrow> TProduceRequestReader \<Rightarrow> bool" where
  "next_part_at pos k r =
     (prr_CurrentPartitionIndexInTopic r = int k - 1 \<and>
      (if k = 0 then prr_CurrentTopicNameEnd r + 4 = int pos else prr_PartitionMsgSetEnd r = int pos))"

lemma NextMsgSet_part:
  assumes mem: "mem = a @ enc_part crc (p, ms) @ c" and len: "length mem < 2 ^ 31"
    and r: "next_part_at (length a) k r" "int k < prr_NumPartitionsInTopic r"
      "int (length a + length (enc_part crc (p, ms))) \<le> prr_End r"
  shows "\<exists>r'. prr_NextMsgSetInTopic mem r = Inr (True, r') \<and> same_topic r r' \<and>
    next_part_at (length a + length (enc_part crc (p, ms))) (Suc k) r' \<and>
    prr_CurrentPartitionBegin r' = int (length a) \<and>
    prr_MsgSetReader r' = msr_SetMsgSet (int (length a + 8)) (int (length (enc_msgs crc ms)))"
proof -
  have n: "length (enc_msgs crc ms) < 2 ^ 31" using len mem by (simp add: length_enc_part)
  have rd: "ReadInt32FromHeader mem (int (length a) + 4) =
      (Inr (int (length (enc_msgs crc ms))) :: TProtoError fault + int)"
    unfolding mem enc_part_flat using n
    by (simp add: Read_flat [where i=2] be_value_simps i32_id)
  show ?thesis
  proof (cases "k = 0")
    case True
    with r rd n show ?thesis
      by (simp add: prr_NextMsgSetInTopic_def prr_FirstMsgSetInTopic_def prr_InitCurrentPartition_def
          next_part_at_def request_consts length_enc_part same_topic_def Let_def)
        (simp add: add.commute)
  next
    case False
    with r rd n show ?thesis
      by (simp add: prr_NextMsgSetInTopic_def prr_InitCurrentPartition_def
          next_part_at_def request_consts length_enc_part same_topic_def Let_def)
        (simp add: add.commute)
  qed
qed

lemma NextMsgSet_end:
  assumes r: "next_part_at pos k r" "prr_NumPartitionsInTopic r = int k"
  shows "\<exists>r'. prr_NextMsgSetInTopic mem r = Inr (False, r') \<and> same_topic r r' \<and>
    prr_CurrentPartitionBegin r' = int pos \<and> prr_CurrentPartitionIndexInTopic r' = int k"
  using assms
  by (cases "k = 0") (simp_all add: prr_NextMsgSetInTopic_def prr_FirstMsgSetInTopic_def next_part_at_def
      request_consts same_topic_def Let_def)

lemma topic_group_loop_eq:
  assumes "list_all2 (part_ok crc u) parts cs"
    and "mem = a @ concat (map (enc_part crc) parts) @ c" "length mem < 2 ^ 31"
    and "next_part_at (length a) k r" "prr_NumPartitionsInTopic r = int (k + length parts)"
    and "int (length (a @ concat (map (enc_part crc) parts))) \<le> prr_End r"
  shows "\<exists>r'. prb_topic_group_loop crc u mem r g =
      Inr (g \<lparr> tg_MsgSetVec := tg_MsgSetVec g @ map srv_part cs \<rparr>, r') \<and> same_topic r r' \<and>
    prr_CurrentPartitionBegin r' = int (length (a @ concat (map (enc_part crc) parts))) \<and>
    prr_CurrentPartitionIndexInTopic r' = prr_NumPartitionsInTopic r"
  using assms
proof (induction parts cs arbitrary: a k r g rule: list_all2_induct)
  case Nil
  from NextMsgSet_end [OF Nil.prems(3), of mem] Nil.prems(4) show ?case
    by (subst prb_topic_group_loop.simps) auto
next
  case (Cons part parts c0 cs)
  obtain p ms p' ct kvs where [simp]: "part = (p, ms)" "c0 = (p', ct, kvs)" by (metis prod_cases3 surj_pair)
  let ?e = "enc_part crc (p, ms)"
  have mem: "mem = a @ ?e @ (concat (map (enc_part crc) parts) @ c)" using Cons.prems(1) by simp
  have "int (length a + length ?e) \<le> prr_End r" using Cons.prems(5) by simp
  with NextMsgSet_part [OF mem Cons.prems(2,3)] Cons.prems(4) obtain r1 where
    r1: "prr_NextMsgSetInTopic mem r = Inr (True, r1)" "same_topic r r1"
      "next_part_at (length a + length ?e) (Suc k) r1"
      "prr_CurrentPartitionBegin r1 = int (length a)"
      "prr_MsgSetReader r1 = msr_SetMsgSet (int (length a + 8)) (int (length (enc_msgs crc ms)))"
    by fastforce
  from BuildMsgSet_part [OF mem Cons.prems(2) _ r1(4,5)] Cons.hyps(1) obtain r2 where
    r2: "prb_BuildMsgSet crc u mem r1 = Inr (srv_part c0, r2)" by fastforce
  have keep: "same_but_msgs r1 r2" by (rule BuildMsgSet_keeps [OF r2])
  let ?g = "g \<lparr> tg_MsgSetVec := tg_MsgSetVec g @ [srv_part c0] \<rparr>"
  have "\<exists>r'. prb_topic_group_loop crc u mem r2 ?g =
      Inr (?g \<lparr> tg_MsgSetVec := tg_MsgSetVec ?g @ map srv_part cs \<rparr>, r') \<and> same_topic r2 r' \<and>
    prr_CurrentPartitionBegin r' = int (length ((a @ ?e) @ concat (map (enc_part crc) parts))) \<and>
    prr_CurrentPartitionIndexInTopic r' = prr_NumPartitionsInTopic r2"
    by (rule Cons.IH [where k = "Suc k"])
      (use mem Cons.prems r1 keep in \<open>simp_all add: next_part_at_def same_but_msgs_fields same_topic_def\<close>)
  then obtain r' where r': "prb_topic_group_loop crc u mem r2 ?g =
      Inr (?g \<lparr> tg_MsgSetVec := tg_MsgSetVec ?g @ map srv_part cs \<rparr>, r')" "same_topic r2 r'"
    "prr_CurrentPartitionBegin r' = int (length ((a @ ?e) @ concat (map (enc_part crc) parts)))"
    "prr_CurrentPartitionIndexInTopic r' = prr_NumPartitionsInTopic r2"
    by blast
  have "same_topic r r'"
    using r1(2) same_but_msgs_same_topic [OF keep] r'(2) same_topic_trans by blast
  moreover have "prb_topic_group_loop crc u mem r g = prb_topic_group_loop crc u mem r2 ?g"
    by (subst prb_topic_group_loop.simps) (simp add: r1(1) r2)
  moreover have "prr_NumPartitionsInTopic r2 = prr_NumPartitionsInTopic r"
    using r1(2) same_but_msgs_same_topic [OF keep] by (simp add: same_topic_def)
  ultimately show ?case using r' by simp
qed

section \<open>Topics\<close>

lemma enc_topic_flat:
  "a @ enc_topic crc (name, parts) @ c =
   flat [a, be_bytes 2 (i16 (len_field (length name))), name, be_bytes 4 (i32 (int (length parts))),
     concat (map (enc_part crc) parts), c]"
  by (simp add: enc_topic_def flat_def)

lemma length_enc_topic:
  "length (enc_topic crc (name, parts)) = 6 + length name + length (concat (map (enc_part crc) parts))"
  by (simp add: enc_topic_def)

lemma length_parts_le: "length parts \<le> length (concat (map (enc_part crc) parts))"
  by (induction parts) (auto simp: length_enc_part)

lemma i16_len_field: "n < 2 ^ 15 \<Longrightarrow> i16 (i16 (len_field n)) = len_field n"
  by (subst (1 2) i16_id) (auto simp: len_field_def i16_id)

lemma InitCurrentTopic_eq:
  assumes mem: "mem = a @ enc_topic crc (name, parts) @ c" and len: "length mem < 2 ^ 31"
    and name: "length name < 2 ^ 15"
    and r: "prr_CurrentTopicBegin r = int (length a)"
      "int (length a + length (enc_topic crc (name, parts))) \<le> prr_End r"
  shows "\<exists>r'. prr_InitCurrentTopic mem r = Inr r' \<and>
    prr_CurrentTopicBegin r' = int (length a) \<and>
    prr_CurrentTopicNameEnd r' = int (length a + 2 + length name) \<and>
    prr_NumPartitionsInTopic r' = int (length parts) \<and>
    next_part_at (length a + 6 + length name) 0 r' \<and> prr_End r' = prr_End r \<and>
    prr_ClientIdLen r' = prr_ClientIdLen r \<and> prr_NumTopics r' = prr_NumTopics r \<and>
    prr_CurrentTopicIndex r' = prr_CurrentTopicIndex r"
proof -
  have n: "length parts < 2 ^ 31"
    using len mem length_parts_le [of parts crc] by (simp add: length_enc_topic)
  have rd1: "ReadInt16FromHeader mem (int (length a)) =
      (Inr (len_field (length name)) :: TProtoError fault + int)"
    unfolding mem enc_topic_flat using name
    by (simp add: Read_flat [where i=1] be_value_simps i16_len_field)
  have rd2: "ReadInt32FromHeader mem (int (length a) + 2 + int (length name)) =
      (Inr (int (length parts)) :: TProtoError fault + int)"
    unfolding mem enc_topic_flat using n
    by (simp add: Read_flat [where i=3] be_value_simps i32_id)
  show ?thesis
    using r rd1 rd2
    by (simp add: prr_InitCurrentTopic_def request_consts Let_def length_enc_topic next_part_at_def)
qed

text \<open>A reader that has consumed \<open>k\<close> topics and whose next topic starts at \<open>pos\<close>.\<close>

definition next_topic_at :: "nat \<Rightarrow> nat \<Rightarrow> TProduceRequestReader \<Rightarrow> bool" where
  "next_topic_at pos k r =
     (prr_CurrentTopicIndex r = int k - 1 \<and>
      (if k = 0 then prr_GetClientIdEnd r + 10 = int pos
       else prr_CurrentPartitionIndexInTopic r = prr_NumPartitionsInTopic r \<and>
            0 \<le> prr_NumPartitionsInTopic r \<and> prr_CurrentPartitionBegin r = int pos))"

lemma NextTopic_init:
  assumes "next_topic_at pos k r" "int k < prr_NumTopics r"
  shows "\<exists>r0. prr_NextTopic mem r = bindF (prr_InitCurrentTopic mem r0) (\<lambda>r. Inr (True, r)) \<and>
    prr_CurrentTopicBegin r0 = int pos \<and> prr_CurrentTopicIndex r0 = int k \<and>
    prr_End r0 = prr_End r \<and> prr_ClientIdLen r0 = prr_ClientIdLen r \<and>
    prr_NumTopics r0 = prr_NumTopics r"
proof (cases "k = 0")
  case True
  let ?r0 = "r \<lparr> prr_CurrentTopicIndex := 0, prr_CurrentTopicBegin := int pos \<rparr>"
  have "int pos = 10 + prr_GetClientIdEnd r" using True assms(1) by (simp add: next_topic_at_def)
  with True assms show ?thesis
    by (intro exI [of _ ?r0]) (simp add: next_topic_at_def prr_NextTopic_def prr_FirstTopic_def
        request_consts Let_def)
next
  case False
  let ?r0 = "r \<lparr> prr_CurrentTopicBegin := int pos, prr_CurrentTopicIndex := int k \<rparr>"
  from False assms show ?thesis
    by (intro exI [of _ ?r0]) (auto simp: next_topic_at_def prr_NextTopic_def Let_def
        prr_skip_msg_sets.simps)
qed

lemma NextTopic_end:
  assumes "next_topic_at pos k r" "prr_NumTopics r = int k"
  shows "\<exists>r'. prr_NextTopic mem r = Inr (False, r')"
  using assms
  by (cases "k = 0") (auto simp: next_topic_at_def prr_NextTopic_def prr_FirstTopic_def Let_def
      prr_skip_msg_sets.simps)

lemma BuildTopicGroup_eq:
  assumes mem: "mem = a @ enc_topic crc (name, parts) @ c" and len: "length mem < 2 ^ 31"
    and ok: "topic_ok crc u (name, parts) (name', cs)"
    and r: "prr_CurrentTopicBegin r = int (length a)"
      "prr_CurrentTopicNameEnd r = int (length a + 2 + length name)"
      "prr_NumPartitionsInTopic r = int (length parts)"
      "next_part_at (length a + 6 + length name) 0 r"
      "int (length a + length (enc_topic crc (name, parts))) \<le> prr_End r"
  shows "\<exists>r'. prb_BuildTopicGroup crc u mem r = Inr (srv_topic (name', cs), r') \<and> same_topic r r' \<and>
    prr_CurrentPartitionBegin r' = int (length a + length (enc_topic crc (name, parts))) \<and>
    prr_CurrentPartitionIndexInTopic r' = prr_NumPartitionsInTopic r"
proof -
  let ?b = "a @ be_bytes 2 (i16 (len_field (length name))) @ name @ be_bytes 4 (i32 (int (length parts)))"
  let ?g = "\<lparr> tg_Topic = name, tg_MsgSetVec = [] \<rparr>"
  have ok': "name' = name" "list_all2 (part_ok crc u) parts cs" using ok by (simp_all add: topic_ok_def)
  have "prr_GetCurrentTopicName mem r = Inr name"
    unfolding prr_GetCurrentTopicName_def r mem enc_topic_flat
    by (simp add: request_consts mem_range_flat [where i=2])
  moreover have "\<exists>r'. prb_topic_group_loop crc u mem r ?g =
      Inr (?g \<lparr> tg_MsgSetVec := tg_MsgSetVec ?g @ map srv_part cs \<rparr>, r') \<and> same_topic r r' \<and>
    prr_CurrentPartitionBegin r' = int (length (?b @ concat (map (enc_part crc) parts))) \<and>
    prr_CurrentPartitionIndexInTopic r' = prr_NumPartitionsInTopic r"
    by (rule topic_group_loop_eq [where k = 0])
      (use ok' mem len r in \<open>simp_all add: enc_topic_def ac_simps\<close>)
  ultimately show ?thesis
    using ok' by (auto simp: prb_BuildTopicGroup_def srv_topic_def length_enc_topic)
qed

section \<open>Requests\<close>

lemma request_loop_eq:
  assumes "list_all2 (topic_ok crc u) topics cs"
    and "mem = a @ concat (map (enc_topic crc) topics)" "length mem < 2 ^ 31"
    and "next_topic_at (length a) k r" "prr_NumTopics r = int (k + length topics)"
    and "prr_End r = int (length mem)"
  shows "prb_request_loop crc u mem r q =
    Inr (q \<lparr> pr_TopicGroupVec := pr_TopicGroupVec q @ map srv_topic cs \<rparr>)"
  using assms
proof (induction topics cs arbitrary: a k r q rule: list_all2_induct)
  case Nil
  from NextTopic_end [OF Nil.prems(3), of mem] Nil.prems(4) show ?case
    by (subst prb_request_loop.simps) auto
next
  case (Cons t topics c0 cs)
  obtain name parts name' ps where [simp]: "t = (name, parts)" "c0 = (name', ps)" by fastforce
  let ?e = "enc_topic crc (name, parts)"
  have mem: "mem = a @ ?e @ concat (map (enc_topic crc) topics)" using Cons.prems(1) by simp
  have fits: "int (length a + length ?e) \<le> prr_End r" using Cons.prems(1,5) by simp
  have name: "length name < 2 ^ 15" using Cons.hyps(1) by (auto simp: topic_ok_def)
  from NextTopic_init [OF Cons.prems(3), of mem] Cons.prems(4) obtain r0 where
    r0: "prr_NextTopic mem r = bindF (prr_InitCurrentTopic mem r0) (\<lambda>r. Inr (True, r))"
      "prr_CurrentTopicBegin r0 = int (length a)" "prr_CurrentTopicIndex r0 = int k"
      "prr_End r0 = prr_End r" "prr_NumTopics r0 = prr_NumTopics r"
    by auto
  from InitCurrentTopic_eq [OF mem Cons.prems(2) name r0(2)] fits r0(4) obtain r1 where
    r1: "prr_InitCurrentTopic mem r0 = Inr r1" "prr_CurrentTopicBegin r1 = int (length a)"
      "prr_CurrentTopicNameEnd r1 = int (length a + 2 + length name)"
      "prr_NumPartitionsInTopic r1 = int (length parts)"
      "next_part_at (length a + 6 + length name) 0 r1" "prr_End r1 = prr_End r"
      "prr_NumTopics r1 = prr_NumTopics r" "prr_CurrentTopicIndex r1 = int k"
    using r0(3,5) by auto
  have "topic_ok crc u (name, parts) (name', ps)" "int (length a + length ?e) \<le> prr_End r1"
    using Cons.hyps(1) fits r1(6) by simp_all
  from BuildTopicGroup_eq [OF mem Cons.prems(2) this(1) r1(2-5) this(2)] obtain r2 where
    r2: "prb_BuildTopicGroup crc u mem r1 = Inr (srv_topic c0, r2)" "same_topic r1 r2"
      "prr_CurrentPartitionBegin r2 = int (length a + length ?e)"
      "prr_CurrentPartitionIndexInTopic r2 = prr_NumPartitionsInTopic r1"
    by auto
  let ?q = "q \<lparr> pr_TopicGroupVec := pr_TopicGroupVec q @ [srv_topic c0] \<rparr>"
  have "prb_request_loop crc u mem r q = prb_request_loop crc u mem r2 ?q"
    by (subst prb_request_loop.simps) (simp add: r0(1) r1(1) r2(1))
  also have "\<dots> = Inr (?q \<lparr> pr_TopicGroupVec := pr_TopicGroupVec ?q @ map srv_topic cs \<rparr>)"
    by (rule Cons.IH [of "a @ ?e" "Suc k"])
      (use mem Cons.prems r1 r2 in \<open>simp_all add: next_topic_at_def same_topic_def\<close>)
  finally show ?case by simp
qed

text \<open>The request's fields: those of the head, then the topics.\<close>

lemma enc_request_flat:
  "enc_request crc corr_id client_id acks timeout topics =
   flat [be_bytes 4 (i32 (20 + int (length client_id) + int (length (concat (map (enc_topic crc) topics))))),
     be_bytes 2 0, be_bytes 2 0, be_bytes 4 corr_id, be_bytes 2 (i16 (len_field (length client_id))),
     client_id, be_bytes 2 acks, be_bytes 4 timeout, be_bytes 4 (i32 (int (length topics))),
     concat (map (enc_topic crc) topics)]"
  by (simp add: enc_request_def request_head_def flat_def Let_def)

lemma length_enc_request:
  "length (enc_request crc corr_id client_id acks timeout topics) =
   24 + length client_id + length (concat (map (enc_topic crc) topics))"
  by (simp add: enc_request_flat length_flat)

lemma length_topics_le: "length topics \<le> length (concat (map (enc_topic crc) topics))"
  by (induction topics) (auto simp: length_enc_topic)

definition fits16 :: "int \<Rightarrow> bool" where
  "fits16 x = (- (2 ^ 15) \<le> x \<and> x < 2 ^ 15)"

lemma i16_fits: "fits16 x \<Longrightarrow> i16 x = x"
  by (simp add: fits16_def i16_id)

lemma request_head_reads:
  assumes mem: "mem = enc_request crc corr_id client_id acks timeout topics"
    and len: "length mem < 2 ^ 31" "length client_id < 2 ^ 15"
    and fits: "fits32 corr_id" "fits16 acks" "fits32 timeout"
  shows "ReadInt32FromHeader mem 0 = Inr (int (length mem) - 4)"
    "ReadInt16FromHeader mem 4 = Inr 0" "ReadInt16FromHeader mem 6 = Inr 0"
    "ReadInt32FromHeader mem 8 = Inr corr_id"
    "ReadInt16FromHeader mem 12 = Inr (len_field (length client_id))"
    "mem_range mem 14 (14 + int (length client_id)) = Inr client_id"
    "ReadInt16FromHeader mem (14 + int (length client_id)) = Inr acks"
    "ReadInt32FromHeader mem (16 + int (length client_id)) = Inr timeout"
    "ReadInt32FromHeader mem (20 + int (length client_id)) = Inr (int (length topics))"
proof -
  let ?n = "length (concat (map (enc_topic crc) topics))"
  have n: "24 + length client_id + ?n < 2 ^ 31" using len mem by (simp add: length_enc_request)
  moreover have "i32 (20 + int (length client_id) + int ?n) = 20 + int (length client_id) + int ?n"
    by (rule i32_id) (use n in simp_all)
  moreover have "i32 (int (length topics)) = int (length topics)"
    by (rule i32_id) (use n length_topics_le [of topics crc] in simp_all)
  moreover have "i16 0 = 0" by (simp add: i16_id)
  ultimately show "ReadInt32FromHeader mem 0 = Inr (int (length mem) - 4)"
    "ReadInt16FromHeader mem 4 = Inr 0" "ReadInt16FromHeader mem 6 = Inr 0"
    "ReadInt32FromHeader mem 8 = Inr corr_id"
    "ReadInt16FromHeader mem 12 = Inr (len_field (length client_id))"
    "mem_range mem 14 (14 + int (length client_id)) = Inr client_id"
    "ReadInt16FromHeader mem (14 + int (length client_id)) = Inr acks"
    "ReadInt32FromHeader mem (16 + int (length client_id)) = Inr timeout"
    "ReadInt32FromHeader mem (20 + int (length client_id)) = Inr (int (length topics))"
    unfolding mem length_enc_request unfolding enc_request_flat
    using len(2) fits
    by (simp_all add: Read_flat [where i=0] Read_flat [where i=1] Read_flat [where i=2]
        Read_flat [where i=3] Read_flat [where i=4] mem_range_flat [where i=5] Read_flat [where i=6]
        Read_flat [where i=7] Read_flat [where i=8] be_value_simps i16_len_field i32_fits i16_fits)
qed

lemma SetRequest_eq:
  assumes mem: "mem = enc_request crc corr_id client_id acks timeout topics"
    and len: "length mem < 2 ^ 31" "length client_id < 2 ^ 15"
    and fits: "fits32 corr_id" "fits16 acks" "fits32 timeout"
  shows "prr_SetRequest mem = Inr (prr_Clear \<lparr> prr_End := int (length mem),
    prr_ClientIdLen := int (length client_id), prr_RequiredAcksOffset := 14 + int (length client_id),
    prr_NumTopics := int (length topics) \<rparr>)"
  using length_enc_request [of crc corr_id client_id acks timeout topics]
  by (simp add: prr_SetRequest_def GetRequestOrResponseSize_def prr_MinSize_def request_consts Let_def
      request_head_reads [OF assms] mem [symmetric])

lemma BuildProdReq_enc:
  assumes "list_all2 (topic_ok crc u) topics contents"
    and "length (enc_request crc corr_id client_id acks timeout topics) < 2 ^ 31"
    and "length client_id < 2 ^ 15" "fits32 corr_id" "fits16 acks" "fits32 timeout"
  shows "prb_BuildProdReq crc u (enc_request crc corr_id client_id acks timeout topics) =
    Inr \<lparr> pr_CorrelationId = corr_id, pr_ClientId = client_id, pr_RequiredAcks = acks,
          pr_ReplicationTimeout = timeout, pr_TopicGroupVec = map srv_topic contents \<rparr>"
proof -
  define mem where "mem = enc_request crc corr_id client_id acks timeout topics"
  have len: "length mem < 2 ^ 31" using assms(2) by (simp add: mem_def)
  note reads = request_head_reads [OF mem_def len assms(3-6)]
  let ?r = "prr_Clear \<lparr> prr_End := int (length mem), prr_ClientIdLen := int (length client_id),
    prr_RequiredAcksOffset := 14 + int (length client_id), prr_NumTopics := int (length topics) \<rparr>"
  let ?a = "flat (request_head (be_bytes 4 (i32 (20 + int (length client_id) +
    int (length (concat (map (enc_topic crc) topics)))))) corr_id client_id acks timeout
    (be_bytes 4 (i32 (int (length topics)))))"
  have a: "mem = ?a @ concat (map (enc_topic crc) topics)" "length ?a = 24 + length client_id"
    by (simp_all add: mem_def enc_request_def Let_def length_flat request_head_def)
  have end_id: "prr_GetClientIdEnd ?r = 14 + int (length client_id)"
    by (simp add: prr_GetClientIdEnd_def prr_GetClientIdBegin_def request_consts)
  have "prb_request_loop crc u mem ?r q =
      Inr (q \<lparr> pr_TopicGroupVec := pr_TopicGroupVec q @ map srv_topic contents \<rparr>)" for q
    by (rule request_loop_eq [OF assms(1) a(1) len, where k = 0])
      (use a(2) end_id in \<open>simp_all add: next_topic_at_def prr_Clear_def\<close>)
  then show ?thesis
    using end_id SetRequest_eq [OF mem_def len assms(3-6)] unfolding mem_def [symmetric]
    by (simp add: prb_BuildProdReq_def prr_GetCorrelationId_def prr_GetRequiredAcks_def
        prr_GetReplicationTimeout_def prr_GetClientIdBegin_def request_consts reads)
qed


text \<open>The theorem on a request with two topics, a plain message set of two messages and a compressed
  one.  The codec of the example adds a byte in front.\<close>

definition ex_crc :: "byte list \<Rightarrow> 32 word" where
  "ex_crc bs = of_nat (length bs)"

definition ex_uncompress :: "TCompressionType \<Rightarrow> byte list \<Rightarrow> byte list option" where
  "ex_uncompress ct data = (case data of [] \<Rightarrow> None | b # bs \<Rightarrow> Some bs)"

definition ex_topics :: "wire_topic list" where
  "ex_topics =
     [([97], [(0, plain [([1], [2, 3]), ([], [4])]), (7, plain [([], [])])]),
      ([98, 99], [(2, [(Snappy, [], 0 # enc_msgs ex_crc (plain [([5], [6])]))])])]"

definition ex_contents :: "topic_content list" where
  "ex_contents =
     [([97], [(0, CompressNone, [([1], [2, 3]), ([], [4])]), (7, CompressNone, [([], [])])]),
      ([98, 99], [(2, Snappy, [([5], [6])])])]"


end
