(* ===== verification/Produce_Request_Factory.thy ===== *)
theory Produce_Request_Factory
  imports Request_Fill Produce_Roundtrip
begin

text \<open>
  Serialization of produce requests, the rest of
  \<open>src/dory/msg_dispatch/produce_request_factory.cc\<close>: \<open>BuildRequest\<close> with the choice between sending
  a message set compressed or as it is.  Compared with the contents of a request, the server that takes the bytes
  apart gets the same topics, partitions and messages.
\<close>

section \<open>Writing message sets\<close>

definition to_bytes :: "string \<Rightarrow> byte list" where
  "to_bytes = map (\<lambda>c. of_nat (of_char c))"

text \<open>One message of \<open>SerializeUncompressedMsgSet\<close>.\<close>

definition serialize_msg :: "(byte list \<Rightarrow> 32 word) \<Rightarrow> TMsg \<Rightarrow> request_writer \<Rightarrow> TProtoError fault + request_writer" where
  "serialize_msg crc m wb =
     bindF (prw_OpenMsg CompressNone (GetKeySize m) (GetValueSize m) wb) (\<lambda>(w, buf).
     bindF (mem_write (prw_GetCurrentMsgKeyOffset (w, buf)) (msg_key m) buf) (\<lambda>buf.
     bindF (mem_write (prw_GetCurrentMsgValueOffset (w, buf)) (msg_value m) buf) (\<lambda>buf.
     prw_CloseMsg crc (w, buf))))"

fun SerializeUncompressedMsgSet ::
  "(byte list \<Rightarrow> 32 word) \<Rightarrow> TMsg list \<Rightarrow> request_writer \<times> TProduceRequestFactory \<Rightarrow>
   TProtoError fault + request_writer \<times> TProduceRequestFactory" where
  "SerializeUncompressedMsgSet crc [] (wb, f) = Inr (wb, f)"
| "SerializeUncompressedMsgSet crc (m # ms) (wb, f) =
     bindF (serialize_msg crc m wb) (\<lambda>wb. SerializeUncompressedMsgSet crc ms (wb, pf_count ''SerializeMsg'' f))"

text \<open>One message of \<open>SerializeToCompressionBuf\<close>.\<close>

definition serialize_to_set ::
  "(byte list \<Rightarrow> 32 word) \<Rightarrow> TMsg \<Rightarrow> TMsgSetWriter \<times> byte list \<Rightarrow> TProtoError fault + TMsgSetWriter \<times> byte list" where
  "serialize_to_set crc m wb =
     bindF (msw_OpenMsg CompressNone (GetKeySize m) (GetValueSize m) wb) (\<lambda>(w, buf).
     bindF (mem_write (msw_CurrentMsgKeyOffset w) (msg_key m) buf) (\<lambda>buf.
     bindF (mem_write (msw_CurrentMsgValueOffset w) (msg_value m) buf) (\<lambda>buf.
     msw_CloseMsg crc (w, buf))))"

fun compression_buf_loop ::
  "(byte list \<Rightarrow> 32 word) \<Rightarrow> TMsg list \<Rightarrow> (TMsgSetWriter \<times> byte list) \<times> TProduceRequestFactory \<Rightarrow>
   TProtoError fault + (TMsgSetWriter \<times> byte list) \<times> TProduceRequestFactory" where
  "compression_buf_loop crc [] (wb, f) = Inr (wb, f)"
| "compression_buf_loop crc (m # ms) (wb, f) =
     bindF (serialize_to_set crc m wb) (\<lambda>wb. compression_buf_loop crc ms (wb, pf_count ''SerializeMsg'' f))"

definition SerializeToCompressionBuf ::
  "(byte list \<Rightarrow> 32 word) \<Rightarrow> TMsg list \<Rightarrow> byte list \<Rightarrow> TProduceRequestFactory \<Rightarrow>
   TProtoError fault + byte list \<times> TProduceRequestFactory" where
  "SerializeToCompressionBuf crc msg_set compression_buf f =
     bindF (compression_buf_loop crc msg_set (msw_OpenMsgSet False compression_buf, f)) (\<lambda>((w, buf), f).
     let (size_of_set, w) = msw_CloseMsgSet w in Inr (buf, f))"

text \<open>The end of \<open>WriteOneMsgSet\<close>.\<close>

definition write_plain ::
  "(byte list \<Rightarrow> 32 word) \<Rightarrow> TMsg list \<Rightarrow> request_writer \<Rightarrow> TProduceRequestFactory \<Rightarrow>
   TProtoError fault + request_writer \<times> TProduceRequestFactory" where
  "write_plain crc contents wb f =
     bindF (SerializeUncompressedMsgSet crc contents (wb, f)) (\<lambda>(wb, f).
     Inr (wb, pf_count ''MsgSetCompressionNo'' f))"

text \<open>\<open>WriteOneMsgSet\<close>; each exit of the \<open>try\<close> block other than success falls back to
  \<open>write_plain\<close>.  The compression buffer is overwritten from its beginning, its former contents do not
  matter.\<close>

definition WriteOneMsgSet ::
  "(byte list \<Rightarrow> 32 word) \<Rightarrow> TMsgSet \<Rightarrow> TCompressionInfo \<Rightarrow> request_writer \<Rightarrow> TProduceRequestFactory \<Rightarrow>
   TProtoError fault + request_writer \<times> TProduceRequestFactory" where
  "WriteOneMsgSet crc s info wb f =
     (case ci_CompressionCodec info of
        None \<Rightarrow> write_plain crc (ms_Contents s) wb f
      | Some codec \<Rightarrow>
          if ms_DataSize s < ci_MinCompressionSize info then write_plain crc (ms_Contents s) wb f
          else bindF (SerializeToCompressionBuf crc (ms_Contents s) [] f) (\<lambda>(cbuf, f).
            case cc_ComputeCompressedResultBufSpace codec cbuf (ci_CompressionLevel info) of
              None \<Rightarrow> write_plain crc (ms_Contents s) wb (pf_count ''MsgSetCompressionError'' f)
            | Some max_compressed_size \<Rightarrow>
                bindF (prw_OpenMsg (ci_CompressionType info) 0 max_compressed_size wb) (\<lambda>(w, buf).
                case cc_Compress codec cbuf max_compressed_size (ci_CompressionLevel info) of
                  None \<Rightarrow> write_plain crc (ms_Contents s) (prw_RollbackOpenMsg (w, buf))
                    (pf_count ''MsgSetCompressionError'' f)
                | Some data \<Rightarrow>
                    bindF (mem_write (prw_GetCurrentMsgValueOffset (w, buf)) data buf) (\<lambda>buf.
                    if f32_le (f32_divide (f32_of (length data)) (f32_of (length cbuf))) (pf_MaxCompressionRatio f)
                    then bindF (prw_CloseMsg crc (prw_AdjustValueSize (length data) (w, buf))) (\<lambda>wb.
                         Inr (wb, pf_count ''MsgSetCompressionYes'' f))
                    else write_plain crc (ms_Contents s) (prw_RollbackOpenMsg (w, buf))
                      (pf_count ''MsgSetNotCompressible'' f)))))"

section \<open>Writing a request\<close>

fun write_group ::
  "(byte list \<Rightarrow> 32 word) \<Rightarrow> string \<Rightarrow> TMultiPartitionGroup \<Rightarrow> request_writer \<times> TProduceRequestFactory \<Rightarrow>
   TProtoError fault + request_writer \<times> TProduceRequestFactory" where
  "write_group crc topic [] (wb, f) = Inr (wb, f)"
| "write_group crc topic ((part, s) # g) (wb, f) =
     bindF (prw_OpenMsgSet part wb) (\<lambda>wb.
     let f = pf_GetTopicData topic f
     in bindF (WriteOneMsgSet crc s (td_CompressionInfo (topic_data topic f)) wb f) (\<lambda>(wb, f).
        bindF (prw_CloseMsgSet wb) (\<lambda>wb. write_group crc topic g (wb, pf_count ''SerializeMsgSet'' f))))"

fun write_topics ::
  "(byte list \<Rightarrow> 32 word) \<Rightarrow> TAllTopics \<Rightarrow> request_writer \<times> TProduceRequestFactory \<Rightarrow>
   TProtoError fault + request_writer \<times> TProduceRequestFactory" where
  "write_topics crc [] (wb, f) = Inr (wb, f)"
| "write_topics crc ((topic, g) # all_topics) (wb, f) =
     bindF (prw_OpenTopic (to_bytes topic) wb) (\<lambda>wb.
     bindF (write_group crc topic g (wb, f)) (\<lambda>(wb, f).
     bindF (prw_CloseTopic wb) (\<lambda>wb. write_topics crc all_topics (wb, pf_count ''SerializeTopicGroup'' f))))"

type_synonym TProduceRequest = "int \<times> TAllTopics"

definition BuildRequest ::
  "(byte list \<Rightarrow> 32 word) \<Rightarrow> byte list \<Rightarrow> TProduceRequestFactory \<Rightarrow>
   TProtoError fault + TProduceRequest option \<times> byte list \<times> TProduceRequestFactory" where
  "BuildRequest crc dst f =
     (if pf_IsEmpty f then Inr (None, dst, f)
      else bindF (chk32 (pf_CorrIdCounter f + 1)) (\<lambda>corr_id.
        bindF (BuildRequestContents (f\<lparr>pf_CorrIdCounter := corr_id\<rparr>)) (\<lambda>(all_topics, f).
        if all_topics = [] then Inr (None, dst, pf_count ''BugAllTopicsEmpty'' f)
        else bindF (prw_OpenRequest corr_id (pf_ClientId f) (-1) (i32 (int (pf_ReplicationTimeout f))) dst) (\<lambda>wb.
          bindF (write_topics crc all_topics (wb, f)) (\<lambda>(wb, f).
          bindF (prw_CloseRequest wb) (\<lambda>(w, dst).
          Inr (Some (corr_id, all_topics), dst, pf_count ''SerializeProduceRequest'' f)))))))"

section \<open>What the writers produce\<close>

definition msg_kv :: "TMsg \<Rightarrow> kv" where
  "msg_kv m = (msg_key m, msg_value m)"

definition msg_wf :: "TMsg \<Rightarrow> bool" where
  "msg_wf m \<longleftrightarrow> GetKeySize m \<le> length (GetKeyAndValue m)"

lemma length_key_value:
  "msg_wf m \<Longrightarrow> length (msg_key m) = GetKeySize m" "length (msg_value m) = GetValueSize m"
  by (simp_all add: msg_wf_def msg_key_def msg_value_def GetValueSize_def)

definition msg_item :: "(byte list \<Rightarrow> 32 word) \<Rightarrow> TMsg \<Rightarrow> byte list" where
  "msg_item crc m = msg_set_item crc CompressNone (msg_key m) (msg_value m)"

lemma enc_plain: "map (enc_msg crc) (plain (map msg_kv ms)) = map (msg_item crc) ms"
  by (simp add: plain_def enc_msg_def msg_kv_def msg_item_def)

text \<open>Filling in the key and the value of an open message.\<close>

lemma fill_msg:
  assumes "length key = k" "length val = v" and ws: "ws = in_msg start items ct (zeros k) (zeros v)"
  shows "mem_write (msw_CurrentMsgKeyOffset (fst ws)) key (snd ws) = Inr (snd (in_msg start items ct key (zeros v)))"
    "mem_write (msw_CurrentMsgValueOffset (fst ws)) val (snd (in_msg start items ct key (zeros v))) =
       Inr (snd (in_msg start items ct key val))"
    "in_msg start items ct key val = (fst ws, snd (in_msg start items ct key val))"
  using assms write_key_eq [of key "zeros k" start items ct "zeros v"] write_value_eq [of val "zeros v" start items ct key]
  by (simp_all add: in_msg_def in_msg_writer_def Let_def)

lemma serialize_to_set_eq:
  assumes "msg_wf m"
  shows "serialize_to_set crc m (in_set start items) = Inr (in_set start (items @ [msg_item crc m]))"
proof -
  obtain w buf where ws: "(w, buf) = in_msg start items CompressNone (zeros (GetKeySize m)) (zeros (GetValueSize m))"
    by (rule that [OF surjective_pairing [symmetric]])
  note fill = fill_msg [OF length_key_value(1) [OF assms] length_key_value(2) [of m] ws, unfolded fst_conv snd_conv]
  show ?thesis
    unfolding serialize_to_set_def OpenMsg_eq ws [symmetric] bindF_simps prod.case fill(1,2) fill(3) [symmetric]
      CloseMsg_eq msg_item_def ..
qed

lemma pf_counters_twice: "f\<lparr>pf_counters := c, pf_counters := c'\<rparr> = f\<lparr>pf_counters := c'\<rparr>" for f :: TProduceRequestFactory
  by simp

lemma compression_buf_loop_eq:
  assumes "\<forall>m \<in> set ms. msg_wf m"
  shows "\<exists>c. compression_buf_loop crc ms (in_set start items, f) =
    Inr (in_set start (items @ map (msg_item crc) ms), f\<lparr>pf_counters := c\<rparr>)"
  using assms
proof (induction ms arbitrary: items f)
  case Nil
  show ?case by (rule exI [of _ "pf_counters f"]) simp
next
  case (Cons m ms)
  have wf: "\<forall>m \<in> set ms. msg_wf m" "msg_wf m" using Cons.prems by simp_all
  from Cons.IH [OF wf(1)] obtain c where
    "compression_buf_loop crc ms (in_set start (items @ [msg_item crc m]), pf_count ''SerializeMsg'' f) =
       Inr (in_set start ((items @ [msg_item crc m]) @ map (msg_item crc) ms), (pf_count ''SerializeMsg'' f)\<lparr>pf_counters := c\<rparr>)"
    by blast
  then show ?case
    by (intro exI [of _ c])
      (simp only: compression_buf_loop.simps serialize_to_set_eq [OF wf(2)] bindF_simps pf_count_def pf_counters_twice
        append_assoc append_Cons append_Nil list.map)
qed

lemma SerializeToCompressionBuf_eq:
  assumes "\<forall>m \<in> set ms. msg_wf m"
  shows "\<exists>c. SerializeToCompressionBuf crc ms cbuf f = Inr (enc_msgs crc (plain (map msg_kv ms)), f\<lparr>pf_counters := c\<rparr>)"
  using compression_buf_loop_eq [OF assms, of crc "[]" "[]" f]
  by (auto simp: SerializeToCompressionBuf_def msw_OpenMsgSet_eq in_set_def enc_msgs_def enc_plain msw_CloseMsgSet_def)

text \<open>The same in the request, in which a message set is open.\<close>

lemma prw_in_msg_set_write:
  assumes "prw_in_msg_set rh topics name pts p ws (w, buf)"
  shows "ws = (prw_MsgSetWriter w, buf)" "prw_in_msg_set rh topics name pts p (prw_MsgSetWriter w, buf') (w, buf')"
  using assms by (auto simp: prw_in_msg_set_def)

lemma serialize_msg_spec:
  assumes "msg_wf m" and wb: "prw_in_msg_set rh topics name pts p (in_set start items) wb"
  shows "\<exists>wb'. serialize_msg crc m wb = Inr wb' \<and>
    prw_in_msg_set rh topics name pts p (in_set start (items @ [msg_item crc m])) wb'"
proof -
  from prw_msg_ops(1) [OF wb OpenMsg_eq [of CompressNone "GetKeySize m" "GetValueSize m"]] obtain w buf where
    o: "prw_OpenMsg CompressNone (GetKeySize m) (GetValueSize m) wb = Inr (w, buf)"
    "prw_in_msg_set rh topics name pts p
       (in_msg start items CompressNone (zeros (GetKeySize m)) (zeros (GetValueSize m))) (w, buf)"
    unfolding split_paired_Ex by (elim exE conjE) (rule that)
  note fill = fill_msg [OF length_key_value(1) [OF assms(1)] length_key_value(2) [of m]
      prw_in_msg_set_write(1) [OF o(2), symmetric], unfolded fst_conv snd_conv]
  let ?b = "snd (in_msg start items CompressNone (msg_key m) (msg_value m))"
  have "prw_in_msg_set rh topics name pts p (in_msg start items CompressNone (msg_key m) (msg_value m)) (w, ?b)"
    by (subst fill(3)) (rule prw_in_msg_set_write(2) [OF o(2)])
  from prw_msg_ops(2) [OF this CloseMsg_eq, of crc] obtain wb' where
    "prw_CloseMsg crc (w, ?b) = Inr wb'"
    "prw_in_msg_set rh topics name pts p (in_set start (items @ [msg_item crc m])) wb'"
    unfolding msg_item_def [symmetric] by (elim exE conjE) (rule that)
  then show ?thesis
    by (simp add: serialize_msg_def o(1) prw_GetCurrentMsgKeyOffset_def prw_GetCurrentMsgValueOffset_def fill(1,2))
qed

lemma SerializeUncompressedMsgSet_spec:
  assumes "\<forall>m \<in> set ms. msg_wf m" "prw_in_msg_set rh topics name pts p (in_set start items) wb"
  shows "\<exists>wb' c. SerializeUncompressedMsgSet crc ms (wb, f) = Inr (wb', f\<lparr>pf_counters := c\<rparr>) \<and>
    prw_in_msg_set rh topics name pts p (in_set start (items @ map (msg_item crc) ms)) wb'"
  using assms
proof (induction ms arbitrary: items wb f)
  case Nil
  show ?case by (rule exI [of _ wb], rule exI [of _ "pf_counters f"]) (use Nil.prems in simp)
next
  case (Cons m ms)
  have wf: "msg_wf m" "\<forall>m \<in> set ms. msg_wf m" using Cons.prems(1) by simp_all
  from serialize_msg_spec [OF wf(1) Cons.prems(2)] obtain wb1 where wb1: "serialize_msg crc m wb = Inr wb1"
    "prw_in_msg_set rh topics name pts p (in_set start (items @ [msg_item crc m])) wb1"
    by blast
  from Cons.IH [OF wf(2) wb1(2)] obtain wb' c where
    "SerializeUncompressedMsgSet crc ms (wb1, pf_count ''SerializeMsg'' f) =
       Inr (wb', (pf_count ''SerializeMsg'' f)\<lparr>pf_counters := c\<rparr>)"
    "prw_in_msg_set rh topics name pts p (in_set start ((items @ [msg_item crc m]) @ map (msg_item crc) ms)) wb'"
    by blast
  then show ?case
    by (intro exI [of _ wb'] exI [of _ c] conjI)
      (simp_all only: SerializeUncompressedMsgSet.simps wb1(1) bindF_simps pf_count_def pf_counters_twice
        append_assoc append_Cons append_Nil list.map)
qed

lemma write_plain_spec:
  assumes "\<forall>m \<in> set ms. msg_wf m" "prw_in_msg_set rh topics name pts p (in_set start []) wb"
  shows "\<exists>wb' c. write_plain crc ms wb (f\<lparr>pf_counters := c0\<rparr>) = Inr (wb', f\<lparr>pf_counters := c\<rparr>) \<and>
    prw_in_msg_set rh topics name pts p (in_set start (map (enc_msg crc) (plain (map msg_kv ms)))) wb'"
  using SerializeUncompressedMsgSet_spec [OF assms, of crc "f\<lparr>pf_counters := c0\<rparr>"]
  by (auto simp: write_plain_def pf_count_def enc_plain)

text \<open>Compressed data that takes up less than the space reserved for it.\<close>

lemma write_compressed_eq:
  assumes "length data \<le> n" and ws: "(w, buf) = in_msg start items ct [] (zeros n)"
  shows "mem_write (msw_CurrentMsgValueOffset w) data buf =
      Inr (snd (in_msg start items ct [] (data @ zeros (n - length data))))"
    "in_msg start items ct [] (data @ zeros (n - length data)) =
      (w, snd (in_msg start items ct [] (data @ zeros (n - length data))))"
    "msw_AdjustValueSize (length data) (in_msg start items ct [] (data @ zeros (n - length data))) =
      in_msg start items ct [] data"
proof -
  have n: "length (data @ zeros (n - length data)) = n" using assms(1) by simp
  show "in_msg start items ct [] (data @ zeros (n - length data)) =
      (w, snd (in_msg start items ct [] (data @ zeros (n - length data))))"
    using ws assms(1) by (simp add: in_msg_def in_msg_writer_def Let_def)
  have w: "buf = flat (open_fields (start @ concat items) ct [] (zeros n))"
    "msw_CurrentMsgValueOffset w = length (start @ concat items) + 26"
    using ws by (simp_all add: in_msg_def in_msg_writer_def Let_def)
  show "mem_write (msw_CurrentMsgValueOffset w) data buf =
      Inr (snd (in_msg start items ct [] (data @ zeros (n - length data))))"
    unfolding w using assms(1) by (simp add: in_msg_def mem_write_def open_fields_def flat_def)
  show "msw_AdjustValueSize (length data) (in_msg start items ct [] (data @ zeros (n - length data))) =
      in_msg start items ct [] data"
    by (simp add: AdjustValueSize_eq resize_def)
qed

text \<open>What the code relies on in a codec: the compressed data fit into the space given, and
  uncompressing gives the data back.  Without compression there is no codec.\<close>

definition codec_ok :: "(TCompressionType \<Rightarrow> byte list \<Rightarrow> byte list option) \<Rightarrow> TCompressionInfo \<Rightarrow> bool" where
  "codec_ok u info \<longleftrightarrow>
     (\<forall>codec. ci_CompressionCodec info = Some codec \<longrightarrow> ci_CompressionType info \<noteq> CompressNone \<and>
        (\<forall>x n level data. cc_Compress codec x n level = Some data \<longrightarrow>
           length data \<le> n \<and> u (ci_CompressionType info) data = Some x))"

definition set_fits :: "(byte list \<Rightarrow> 32 word) \<Rightarrow> TMsg list \<Rightarrow> bool" where
  "set_fits crc ms \<longleftrightarrow> (\<forall>m \<in> set ms. msg_wf m) \<and> length (enc_msgs crc (plain (map msg_kv ms))) < 2 ^ 31"

lemma compressed_msg_spec:
  assumes wb: "prw_in_msg_set rh topics name pts p (in_set start []) wb" and len: "length data \<le> n"
  shows "\<exists>w buf buf' wb'. prw_OpenMsg ct 0 n wb = Inr (w, buf) \<and>
    prw_in_msg_set rh topics name pts p (in_set start []) (prw_RollbackOpenMsg (w, buf)) \<and>
    mem_write (prw_GetCurrentMsgValueOffset (w, buf)) data buf = (Inr buf' :: TProtoError fault + byte list) \<and>
    prw_in_msg_set rh topics name pts p (in_set start []) (prw_RollbackOpenMsg (w, buf')) \<and>
    prw_CloseMsg crc (prw_AdjustValueSize (length data) (w, buf')) = Inr wb' \<and>
    prw_in_msg_set rh topics name pts p (in_set start [enc_msg crc (ct, [], data)]) wb'"
proof -
  from prw_msg_ops(1) [OF wb OpenMsg_eq [of ct 0 n]] obtain w buf where o: "prw_OpenMsg ct 0 n wb = Inr (w, buf)"
    "prw_in_msg_set rh topics name pts p (in_msg start [] ct (zeros 0) (zeros n)) (w, buf)"
    unfolding split_paired_Ex by (elim exE conjE) (rule that)
  have ws: "(prw_MsgSetWriter w, buf) = in_msg start [] ct [] (zeros n)"
    using prw_in_msg_set_write(1) [OF o(2)] by simp
  note c = write_compressed_eq [OF len ws]
  let ?m = "in_msg start [] ct [] (data @ zeros (n - length data))"
  have b: "prw_in_msg_set rh topics name pts p ?m (w, snd ?m)"
    by (subst c(2)) (rule prw_in_msg_set_write(2) [OF o(2)])
  have r: "prw_in_msg_set rh topics name pts p (in_set start []) (prw_RollbackOpenMsg (w, buf))"
    "prw_in_msg_set rh topics name pts p (in_set start []) (prw_RollbackOpenMsg (w, snd ?m))"
    using prw_msg_ops(5) [OF o(2)] prw_msg_ops(5) [OF b] unfolding RollbackOpenMsg_eq .
  have "prw_in_msg_set rh topics name pts p (in_msg start [] ct [] data) (prw_AdjustValueSize (length data) (w, snd ?m))"
    using prw_msg_ops(4) [OF b, of "length data"] unfolding c(3) .
  from prw_msg_ops(2) [OF this CloseMsg_eq, of crc] obtain wb' where
    "prw_CloseMsg crc (prw_AdjustValueSize (length data) (w, snd ?m)) = Inr wb'"
    "prw_in_msg_set rh topics name pts p (in_set start [enc_msg crc (ct, [], data)]) wb'"
    by (auto simp: enc_msg_def)
  with o(1) r c(1) show ?thesis
    by (intro exI [of _ w] exI [of _ buf] exI [of _ "snd ?m"] exI [of _ wb'] conjI)
      (simp_all add: prw_GetCurrentMsgValueOffset_def)
qed

text \<open>A message set has been written in one of the two ways.\<close>

definition written ::
  "(byte list \<Rightarrow> 32 word) \<Rightarrow> (TCompressionType \<Rightarrow> byte list \<Rightarrow> byte list option) \<Rightarrow>
   (TMsgSetWriter \<times> byte list \<Rightarrow> request_writer \<Rightarrow> bool) \<Rightarrow> byte list \<Rightarrow> TMsg list \<Rightarrow> TProduceRequestFactory \<Rightarrow>
   TProtoError fault + request_writer \<times> TProduceRequestFactory \<Rightarrow> bool" where
  "written crc u P start contents f r \<longleftrightarrow>
     (\<exists>wb c ms ct. r = Inr (wb, f\<lparr>pf_counters := c\<rparr>) \<and> encodes crc u ms ct (map msg_kv contents) \<and>
        P (in_set start (map (enc_msg crc) ms)) wb)"

lemma written_plain:
  assumes "set_fits crc contents" "prw_in_msg_set rh topics name pts p (in_set start []) wb"
  shows "written crc u (prw_in_msg_set rh topics name pts p) start contents f (write_plain crc contents wb (f\<lparr>pf_counters := c\<rparr>))"
    "written crc u (prw_in_msg_set rh topics name pts p) start contents f
       (write_plain crc contents wb (pf_count counter (f\<lparr>pf_counters := c\<rparr>)))"
proof -
  have "\<forall>m \<in> set contents. msg_wf m" using assms(1) by (simp add: set_fits_def)
  note w = write_plain_spec [OF this assms(2)]
  show 1: "written crc u (prw_in_msg_set rh topics name pts p) start contents f (write_plain crc contents wb (f\<lparr>pf_counters := c\<rparr>))" for c
    using w [where crc = crc and f = f and ?c0.0 = c] unfolding written_def encodes_def
    by (elim exE conjE) (intro exI conjI, assumption, rule if_P [THEN iffD2, OF refl], rule refl)
  show "written crc u (prw_in_msg_set rh topics name pts p) start contents f
       (write_plain crc contents wb (pf_count counter (f\<lparr>pf_counters := c\<rparr>)))"
    using 1 [of "Increment counter c"] by (simp add: pf_count_def)
qed

lemma WriteOneMsgSet_spec:
  assumes fits: "set_fits crc (ms_Contents s)" and codec: "codec_ok u info"
    and wb: "prw_in_msg_set rh topics name pts p (in_set start []) wb"
  shows "written crc u (prw_in_msg_set rh topics name pts p) start (ms_Contents s) f (WriteOneMsgSet crc s info wb f)"
    (is "?W (WriteOneMsgSet crc s info wb f)")
proof (cases "\<exists>codec. ci_CompressionCodec info = Some codec \<and> \<not> ms_DataSize s < ci_MinCompressionSize info")
  case False
  then have "WriteOneMsgSet crc s info wb f = write_plain crc (ms_Contents s) wb (f\<lparr>pf_counters := pf_counters f\<rparr>)"
    by (auto simp: WriteOneMsgSet_def split: option.split)
  then show ?thesis using written_plain(1) [OF fits wb] by metis
next
  case True
  then obtain codec where c: "ci_CompressionCodec info = Some codec" "\<not> ms_DataSize s < ci_MinCompressionSize info"
    by blast
  let ?set = "enc_msgs crc (plain (map msg_kv (ms_Contents s)))"
  obtain c0 where s: "SerializeToCompressionBuf crc (ms_Contents s) [] f = Inr (?set, f\<lparr>pf_counters := c0\<rparr>)"
    using SerializeToCompressionBuf_eq fits unfolding set_fits_def by blast
  show ?thesis
  proof (cases "cc_ComputeCompressedResultBufSpace codec ?set (ci_CompressionLevel info)")
    case None
    then show ?thesis using written_plain(2) [OF fits wb] by (simp add: WriteOneMsgSet_def c s)
  next
    case (Some n)
    let ?f = "f\<lparr>pf_counters := c0\<rparr>"
    show ?thesis
    proof (cases "cc_Compress codec ?set n (ci_CompressionLevel info)")
      case None
      from compressed_msg_spec [OF wb, of "[]" n "ci_CompressionType info" crc] obtain w buf where
        o: "prw_OpenMsg (ci_CompressionType info) 0 n wb = Inr (w, buf)"
        "prw_in_msg_set rh topics name pts p (in_set start []) (prw_RollbackOpenMsg (w, buf))" by auto
      show ?thesis using written_plain(2) [OF fits o(2)] by (simp add: WriteOneMsgSet_def c s Some None o(1))
    next
      case data: (Some data)
      have d: "length data \<le> n" "u (ci_CompressionType info) data = Some ?set" "ci_CompressionType info \<noteq> CompressNone"
        using codec data c(1) unfolding codec_ok_def by blast+
      from compressed_msg_spec [OF wb d(1), of "ci_CompressionType info" crc] obtain w buf buf' wb' where
        o: "prw_OpenMsg (ci_CompressionType info) 0 n wb = Inr (w, buf)"
        "mem_write (prw_GetCurrentMsgValueOffset (w, buf)) data buf = (Inr buf' :: TProtoError fault + byte list)"
        "prw_in_msg_set rh topics name pts p (in_set start []) (prw_RollbackOpenMsg (w, buf'))"
        "prw_CloseMsg crc (prw_AdjustValueSize (length data) (w, buf')) = Inr wb'"
        "prw_in_msg_set rh topics name pts p (in_set start [enc_msg crc (ci_CompressionType info, [], data)]) wb'"
        by (elim exE conjE) (rule that)
      have "?W (Inr (wb', pf_count ''MsgSetCompressionYes'' ?f))"
        unfolding written_def
        by (rule exI [of _ wb'], rule exI, rule exI [of _ "[(ci_CompressionType info, [], data)]"],
            rule exI [of _ "ci_CompressionType info"])
          (use o(5) d fits in \<open>simp add: pf_count_def encodes_def set_fits_def\<close>)
      with written_plain(2) [OF fits o(3)] show ?thesis
        by (simp add: WriteOneMsgSet_def c s Some data o(1,2,4))
    qed
  qed
qed

section \<open>The request as a whole\<close>

text \<open>Serializing counts, and may add entries for new topics with the default settings.\<close>

definition serialized :: "TProduceRequestFactory \<Rightarrow> TProduceRequestFactory \<Rightarrow> bool" where
  "serialized f f' \<longleftrightarrow> same_setup f f' \<and> (\<forall>t. topic_data t f' = topic_data t f)"

lemma serialized_refl: "serialized f f"
  by (simp add: serialized_def same_setup_refl)

lemma serialized_trans: "serialized f f1 \<Longrightarrow> serialized f1 f2 \<Longrightarrow> serialized f f2"
  by (auto simp: serialized_def intro: same_setup_trans)

lemma serialized_steps:
  "serialized f (pf_count name f)" "serialized f (pf_GetTopicData topic f)" "serialized f (f\<lparr>pf_counters := c\<rparr>)"
  by (simp_all add: serialized_def same_setup_def pf_count_def, simp add: pf_GetTopicData_def)

text \<open>The server's view of a partition and of a topic has the messages of the factory's.\<close>

definition carries_part :: "int \<times> TMsgSet \<Rightarrow> part_content \<Rightarrow> bool" where
  "carries_part = (\<lambda>(p, s) (p', ct, kvs). p' = p \<and> kvs = map msg_kv (ms_Contents s))"

definition carries_topic :: "string \<times> TMultiPartitionGroup \<Rightarrow> topic_content \<Rightarrow> bool" where
  "carries_topic = (\<lambda>(t, g) (name, cs). name = to_bytes t \<and> list_all2 carries_part g cs)"

lemma write_group_spec:
  assumes "\<forall>(p, s) \<in> set g. fits32 p \<and> set_fits crc (ms_Contents s)"
    and "codec_ok u (td_CompressionInfo (topic_data topic f))"
    and "prw_in_topic rh topics name pts wb"
  shows "\<exists>wb' f' wps cs. write_group crc topic g (wb, f) = Inr (wb', f') \<and> serialized f f' \<and>
    list_all2 (part_ok crc u) wps cs \<and> list_all2 carries_part g cs \<and>
    prw_in_topic rh topics name (pts @ map (enc_part crc) wps) wb'"
  using assms
proof (induction g arbitrary: wb f pts)
  case Nil
  then show ?case by (intro exI [of _ wb] exI [of _ f] exI [of _ "[]"]) (simp add: serialized_refl)
next
  case (Cons x g)
  obtain p s where x: "x = (p, s)" by fastforce
  have ps: "fits32 p" "set_fits crc (ms_Contents s)" using Cons.prems(1) x by simp_all
  obtain wb1 where 1: "prw_OpenMsgSet p wb = Inr wb1"
    "prw_in_msg_set rh topics name pts p (in_set (msg_set_start rh topics name pts p) []) wb1"
    using OpenMsgSet_spec [OF Cons.prems(3)] by blast
  let ?f = "pf_GetTopicData topic f"
  have "codec_ok u (td_CompressionInfo (topic_data topic ?f))" using Cons.prems(2) by simp
  from WriteOneMsgSet_spec [OF ps(2) this 1(2), of ?f, unfolded written_def] obtain wb2 c ms ct where
    2: "WriteOneMsgSet crc s (td_CompressionInfo (topic_data topic ?f)) wb1 ?f = Inr (wb2, ?f\<lparr>pf_counters := c\<rparr>)"
    "encodes crc u ms ct (map msg_kv (ms_Contents s))"
    "prw_in_msg_set rh topics name pts p (in_set (msg_set_start rh topics name pts p) (map (enc_msg crc) ms)) wb2"
    by (elim exE conjE) (rule that)
  from CloseMsgSet_spec [OF 2(3)] obtain wb3 where 3: "prw_CloseMsgSet wb2 = Inr wb3"
    "prw_in_topic rh topics name (pts @ [enc_part crc (p, ms)]) wb3"
    by (auto simp: enc_part_def enc_msgs_def)
  let ?f3 = "pf_count ''SerializeMsgSet'' (?f\<lparr>pf_counters := c\<rparr>)"
  have s3: "serialized f ?f3"
    by (rule serialized_trans [OF serialized_steps(2) serialized_trans [OF serialized_steps(3) serialized_steps(1)]])
  then have "codec_ok u (td_CompressionInfo (topic_data topic ?f3))" using Cons.prems(2) by (simp add: serialized_def)
  from Cons.IH [OF _ this 3(2)] Cons.prems(1) obtain wb4 f4 wps cs where
    4: "write_group crc topic g (wb3, ?f3) = Inr (wb4, f4)" "serialized ?f3 f4" "list_all2 (part_ok crc u) wps cs"
    "list_all2 carries_part g cs" "prw_in_topic rh topics name ((pts @ [enc_part crc (p, ms)]) @ map (enc_part crc) wps) wb4"
    by auto
  show ?case
  proof (intro exI [of _ wb4] exI [of _ f4] exI [of _ "(p, ms) # wps"]
      exI [of _ "(p, ct, map msg_kv (ms_Contents s)) # cs"] conjI)
    show "write_group crc topic (x # g) (wb, f) = Inr (wb4, f4)"
      using 1(1) 2(1) 3(1) 4(1) by (simp add: x Let_def)
    show "serialized f f4" using s3 4(2) by (rule serialized_trans)
  qed (use 2(2) 4(3-5) ps(1) in \<open>simp_all add: part_ok_def carries_part_def x\<close>)
qed

lemma write_topics_spec:
  assumes "\<forall>(t, g) \<in> set r. length t < 2 ^ 15 \<and> codec_ok u (td_CompressionInfo (topic_data t f)) \<and>
      (\<forall>(p, s) \<in> set g. fits32 p \<and> set_fits crc (ms_Contents s))"
    and "prw_in_request rh topics wb"
  shows "\<exists>wb' f' wts cs. write_topics crc r (wb, f) = Inr (wb', f') \<and> serialized f f' \<and>
    list_all2 (topic_ok crc u) wts cs \<and> list_all2 carries_topic r cs \<and>
    prw_in_request rh (topics @ map (enc_topic crc) wts) wb'"
  using assms
proof (induction r arbitrary: wb f topics)
  case Nil
  then show ?case by (intro exI [of _ wb] exI [of _ f] exI [of _ "[]"]) (simp add: serialized_refl)
next
  case (Cons x r)
  obtain t g where x: "x = (t, g)" by fastforce
  have tg: "length t < 2 ^ 15" "codec_ok u (td_CompressionInfo (topic_data t f))"
    "\<forall>(p, s) \<in> set g. fits32 p \<and> set_fits crc (ms_Contents s)" using Cons.prems(1) x by simp_all
  obtain wb1 where 1: "prw_OpenTopic (to_bytes t) wb = Inr wb1" "prw_in_topic rh topics (to_bytes t) [] wb1"
    using OpenTopic_spec [OF Cons.prems(2)] by blast
  from write_group_spec [OF tg(3,2) 1(2)] obtain wb2 f2 wps cs where
    2: "write_group crc t g (wb1, f) = Inr (wb2, f2)" "serialized f f2" "list_all2 (part_ok crc u) wps cs"
    "list_all2 carries_part g cs" "prw_in_topic rh topics (to_bytes t) ([] @ map (enc_part crc) wps) wb2"
    by (elim exE conjE) (rule that)
  obtain wb3 where 3: "prw_CloseTopic wb2 = Inr wb3"
    "prw_in_request rh (topics @ [enc_topic crc (to_bytes t, wps)]) wb3"
    using CloseTopic_spec [OF 2(5)] by (auto simp only: enc_topic_def topic_head_def append_assoc append_Nil length_map prod.case)
  let ?f3 = "pf_count ''SerializeTopicGroup'' f2"
  have s3: "serialized f ?f3" by (rule serialized_trans [OF 2(2) serialized_steps(1)])
  then have "\<forall>(t, g) \<in> set r. length t < 2 ^ 15 \<and> codec_ok u (td_CompressionInfo (topic_data t ?f3)) \<and>
      (\<forall>(p, s) \<in> set g. fits32 p \<and> set_fits crc (ms_Contents s))"
    using Cons.prems(1) by (simp add: serialized_def)
  from Cons.IH [OF this 3(2)] obtain wb4 f4 wts ds where
    4: "write_topics crc r (wb3, ?f3) = Inr (wb4, f4)" "serialized ?f3 f4" "list_all2 (topic_ok crc u) wts ds"
    "list_all2 carries_topic r ds"
    "prw_in_request rh ((topics @ [enc_topic crc (to_bytes t, wps)]) @ map (enc_topic crc) wts) wb4"
    by (elim exE conjE) (rule that)
  show ?case
  proof (intro exI [of _ wb4] exI [of _ f4] exI [of _ "(to_bytes t, wps) # wts"] exI [of _ "(to_bytes t, cs) # ds"] conjI)
    show "write_topics crc (x # r) (wb, f) = Inr (wb4, f4)"
      using 1(1) 2(1) 3(1) 4(1) by (simp only: x write_topics.simps bindF_simps prod.case)
    show "serialized f f4" using s3 4(2) by (rule serialized_trans)
  qed (use 2(3,4) 4(3-5) tg(1) in \<open>simp_all add: topic_ok_def carries_topic_def x to_bytes_def\<close>)
qed

lemma write_request_spec:
  assumes "\<forall>(t, g) \<in> set r. length t < 2 ^ 15 \<and> codec_ok u (td_CompressionInfo (topic_data t f)) \<and>
      (\<forall>(p, s) \<in> set g. fits32 p \<and> set_fits crc (ms_Contents s))"
  shows "\<exists>wb wb' w f' wts cs. prw_OpenRequest corr_id client_id acks timeout dst = Inr wb \<and>
    write_topics crc r (wb, f) = Inr (wb', f') \<and>
    prw_CloseRequest wb' = Inr (w, enc_request crc corr_id client_id acks timeout wts) \<and> serialized f f' \<and>
    list_all2 (topic_ok crc u) wts cs \<and> list_all2 carries_topic r cs"
proof -
  from OpenRequest_spec [of corr_id client_id acks timeout dst] obtain sf cf wb where
    o: "length sf = 4" "length cf = 4" "prw_OpenRequest corr_id client_id acks timeout dst = Inr wb"
    "prw_in_request (flat (request_head sf corr_id client_id acks timeout cf)) [] wb"
    by (elim exE conjE) (rule that)
  from write_topics_spec [OF assms o(4)] obtain wb' f' wts cs where
    t: "write_topics crc r (wb, f) = Inr (wb', f')" "serialized f f'" "list_all2 (topic_ok crc u) wts cs"
    "list_all2 carries_topic r cs"
    "prw_in_request (flat (request_head sf corr_id client_id acks timeout cf)) ([] @ map (enc_topic crc) wts) wb'"
    by (elim exE conjE) (rule that)
  from CloseRequest_spec [OF t(5) o(1,2)] obtain w where
    "prw_CloseRequest wb' = Inr (w, enc_request crc corr_id client_id acks timeout wts)"
    by (auto simp: enc_request_def Let_def)
  with o(3) t(1-4) show ?thesis by blast
qed

section \<open>From the queue to the server\<close>

lemma get_msg_set_member:
  assumes "result_ok r" "(t, g) \<in> set r" "(p, s) \<in> set g"
  shows "get_msg_set t p r = s"
proof -
  have "map_of r t = Some g" using assms(1,2) by (simp add: result_ok_def omap_ok_distinct)
  moreover have "map_of g p = Some s" using assms by (auto simp: result_ok_def intro!: map_of_is_SomeI omap_ok_distinct)
  ultimately show ?thesis by (simp add: get_msg_set_def)
qed

text \<open>The conditions under which the messages of a queue can be sent: the sizes fit the fields of the
  protocol, and the codecs work.\<close>

definition msg_sendable :: "TProduceRequestFactory \<Rightarrow> TMsg \<Rightarrow> bool" where
  "msg_sendable f m \<longleftrightarrow> msg_wf m \<and> length (GetTopic m) < 2 ^ 15 \<and> fits32 (GetPartition (assigned f m))"

definition queue_sendable :: "(TCompressionType \<Rightarrow> byte list \<Rightarrow> byte list option) \<Rightarrow> TProduceRequestFactory \<Rightarrow> bool" where
  "queue_sendable u f \<longleftrightarrow>
     (\<forall>t. codec_ok u (td_CompressionInfo (topic_data t f))) \<and>
     (\<forall>m \<in> set (concat (pf_InputQueue f)). msg_sendable f m) \<and>
     (\<Sum>m \<leftarrow> concat (pf_InputQueue f). 26 + length (GetKeyAndValue m)) < 2 ^ 31"

definition sendable :: "(TCompressionType \<Rightarrow> byte list \<Rightarrow> byte list option) \<Rightarrow> TProduceRequestFactory \<Rightarrow> bool" where
  "sendable u f \<longleftrightarrow>
     length (pf_ClientId f) < 2 ^ 15 \<and> 0 \<le> pf_CorrIdCounter f \<and> pf_CorrIdCounter f < 2 ^ 31 - 1 \<and> queue_sendable u f"

lemma length_msg_item: "msg_wf m \<Longrightarrow> length (msg_item crc m) = 26 + length (GetKeyAndValue m)"
  by (simp add: msg_item_def length_msg_set_item msg_wf_def msg_key_def msg_value_def GetValueSize_def)

lemma length_enc_kv:
  assumes "\<forall>m \<in> set ms. msg_wf m"
  shows "length (enc_msgs crc (plain (map msg_kv ms))) = (\<Sum>m \<leftarrow> ms. 26 + length (GetKeyAndValue m))"
  using assms unfolding enc_msgs_def enc_plain by (induction ms) (simp_all add: length_msg_item)

lemma sum_list_filter_le: "(\<Sum>x \<leftarrow> filter P xs. h x) \<le> (\<Sum>x \<leftarrow> xs. h x)" for h :: "'a \<Rightarrow> nat"
  by (induction xs) auto

lemma sum_list_take_le: "(\<Sum>x \<leftarrow> take k xs. h x) \<le> (\<Sum>x \<leftarrow> xs. h x)" for h :: "'a \<Rightarrow> nat"
proof -
  have "(\<Sum>x \<leftarrow> xs. h x) = (\<Sum>x \<leftarrow> take k xs. h x) + (\<Sum>x \<leftarrow> drop k xs. h x)"
    by (simp flip: sum_list_append map_append)
  then show ?thesis by simp
qed

lemma request_writable:
  assumes s: "queue_sendable u f" and made: "request_made f k r f'"
  shows "\<forall>(t, g) \<in> set r. length t < 2 ^ 15 \<and> codec_ok u (td_CompressionInfo (topic_data t f')) \<and>
      (\<forall>(p, s) \<in> set g. fits32 p \<and> set_fits crc (ms_Contents s))"
proof -
  let ?q = "concat (pf_InputQueue f)"
  let ?taken = "map (assigned f) (take k ?q)"
  from made have r: "result_ok r" "\<forall>(t, g) \<in> set r. g \<noteq> [] \<and> (\<forall>(p, s) \<in> set g. ms_Contents s \<noteq> [])"
    "\<And>t p. ms_Contents (get_msg_set t p r) = in_set_of t p ?taken" "turns_taken f ?taken f'"
    by (simp_all add: request_made_def Let_def)
  have codec: "codec_ok u (td_CompressionInfo (topic_data t f'))" for t
    using r(4) s by (simp add: turns_taken_def queue_sendable_def)
  have ok: "msg_sendable f m" if "m \<in> set (take k ?q)" for m
    using s in_set_takeD [OF that] unfolding queue_sendable_def by blast
  have size: "(\<Sum>m \<leftarrow> in_set_of t p ?taken. 26 + length (GetKeyAndValue m)) < 2 ^ 31" for t p
  proof -
    have "(\<Sum>m \<leftarrow> in_set_of t p ?taken. 26 + length (GetKeyAndValue m)) \<le> (\<Sum>m \<leftarrow> ?taken. 26 + length (GetKeyAndValue m))"
      by (rule sum_list_filter_le)
    also have "\<dots> = (\<Sum>m \<leftarrow> take k ?q. 26 + length (GetKeyAndValue m))" by (simp add: o_def)
    also have "\<dots> \<le> (\<Sum>m \<leftarrow> ?q. 26 + length (GetKeyAndValue m))" by (rule sum_list_take_le)
    finally show ?thesis using s by (simp add: queue_sendable_def)
  qed
  have part: "fits32 p \<and> set_fits crc (ms_Contents s) \<and> length t < 2 ^ 15" if tg: "(t, g) \<in> set r" "(p, s) \<in> set g" for t g p s
  proof -
    have c: "ms_Contents s = in_set_of t p ?taken" using get_msg_set_member [OF r(1) tg] r(3) by metis
    have wf: "\<forall>m \<in> set (ms_Contents s). msg_wf m"
      using ok unfolding c by (auto simp: msg_sendable_def msg_wf_def)
    have "ms_Contents s \<noteq> []" using r(2) tg by auto
    then obtain m where "m \<in> set (ms_Contents s)" by (cases "ms_Contents s") auto
    then have "fits32 p \<and> length t < 2 ^ 15" using ok unfolding c by (auto simp: msg_sendable_def)
    then show ?thesis using wf size [of t p] by (simp add: set_fits_def length_enc_kv c [symmetric])
  qed
  show ?thesis
  proof (clarify, intro conjI)
    fix t g
    assume tg: "(t, g) \<in> set r"
    then obtain p s where "(p, s) \<in> set g" using r(2) by (cases g) auto
    with part [OF tg] show "length t < 2 ^ 15" by blast
    show "codec_ok u (td_CompressionInfo (topic_data t f'))" by (rule codec)
    show "\<forall>(p, s) \<in> set g. fits32 p \<and> set_fits crc (ms_Contents s)" using part [OF tg] by blast
  qed
qed

lemma corr_id_simps [simp]:
  "topic_data t (f\<lparr>pf_CorrIdCounter := x\<rparr>) = topic_data t f"
  "choices (f\<lparr>pf_CorrIdCounter := x\<rparr>) t = choices f t"
  by (simp_all add: topic_data_def choices_def cong: option.case_cong)

lemma corr_id_simps2 [simp]:
  "pick (f\<lparr>pf_CorrIdCounter := x\<rparr>) t = pick f t" "assigned (f\<lparr>pf_CorrIdCounter := x\<rparr>) m = assigned f m"
  "pf_wf (f\<lparr>pf_CorrIdCounter := x\<rparr>) = pf_wf f" "used (f\<lparr>pf_CorrIdCounter := x\<rparr>) t = used f t"
  by (simp_all add: pick_def assigned_def pf_wf_def used_def)

lemma corr_id_simps3 [simp]:
  "assigned (f\<lparr>pf_CorrIdCounter := x\<rparr>) = assigned f"
  "left_over (f\<lparr>pf_CorrIdCounter := x\<rparr>) = left_over f"
  "msg_sendable (f\<lparr>pf_CorrIdCounter := x\<rparr>) = msg_sendable f"
  "queue_sendable u (f\<lparr>pf_CorrIdCounter := x\<rparr>) = queue_sendable u f"
  by (simp_all add: fun_eq_iff left_over_def msg_sendable_def queue_sendable_def split: list.split)

lemma request_made_settings:
  assumes "request_made f k r f'"
  shows "pf_ClientId f' = pf_ClientId f" "pf_ReplicationTimeout f' = pf_ReplicationTimeout f" "r \<noteq> []"
proof -
  from assms have f': "f' = f\<lparr>pf_counters := pf_counters f', pf_TopicDataMap := pf_TopicDataMap f', pf_InputQueue := pf_InputQueue f'\<rparr>"
    unfolding request_made_def Let_def by blast
  show "pf_ClientId f' = pf_ClientId f" "pf_ReplicationTimeout f' = pf_ReplicationTimeout f" by (subst f', simp)+
  from assms obtain m ms where m: "map (assigned f) (take k (concat (pf_InputQueue f))) = m # ms"
    by (cases "concat (pf_InputQueue f)"; cases k) (auto simp: request_made_def Let_def)
  have "ms_Contents (get_msg_set (GetTopic m) (GetPartition m) r) =
      in_set_of (GetTopic m) (GetPartition m) (map (assigned f) (take k (concat (pf_InputQueue f))))"
    using assms by (simp only: request_made_def Let_def)
  then have "ms_Contents (get_msg_set (GetTopic m) (GetPartition m) r) \<noteq> []" unfolding m by simp
  then show "r \<noteq> []" by (auto simp: get_msg_set_def)
qed

lemma BuildRequest_ok:
  assumes "pf_wf f" "\<forall>t. \<not> used f t" "pf_InputQueue f \<noteq> []" "\<forall>b \<in> set (pf_InputQueue f). batch_ok b"
    and "\<forall>m \<in> set (concat (pf_InputQueue f)). GetRoutingType m = AnyPartition \<longrightarrow> choices f (GetTopic m) \<noteq> []"
    and send: "sendable u f"
  shows "\<exists>k r f1 f' wts cs. request_made (f\<lparr>pf_CorrIdCounter := pf_CorrIdCounter f + 1\<rparr>) k r f1 \<and> serialized f1 f' \<and>
    BuildRequest crc dst f = Inr (Some (pf_CorrIdCounter f + 1, r),
      enc_request crc (pf_CorrIdCounter f + 1) (pf_ClientId f) (-1) (i32 (int (pf_ReplicationTimeout f))) wts, f') \<and>
    list_all2 (topic_ok crc u) wts cs \<and> list_all2 carries_topic r cs"
proof -
  let ?c = "pf_CorrIdCounter f + 1"
  let ?f = "f\<lparr>pf_CorrIdCounter := ?c\<rparr>"
  have "\<exists>k r f1. BuildRequestContents ?f = Inr (r, f1) \<and> request_made ?f k r f1"
    by (rule BuildRequestContents_ok) (use assms(1-5) in simp_all)
  then obtain k r f1 where r: "BuildRequestContents ?f = Inr (r, f1)" "request_made ?f k r f1" by blast
  have "queue_sendable u ?f" using send by (simp add: sendable_def)
  from write_request_spec [OF request_writable [OF this r(2), where crc = crc], of ?c "pf_ClientId f" "-1" "i32 (int (pf_ReplicationTimeout f))" dst]
  obtain wb wb' w f2 wts cs where
    o: "prw_OpenRequest ?c (pf_ClientId f) (-1) (i32 (int (pf_ReplicationTimeout f))) dst = Inr wb"
    "write_topics crc r (wb, f1) = Inr (wb', f2)"
    "prw_CloseRequest wb' = Inr (w, enc_request crc ?c (pf_ClientId f) (-1) (i32 (int (pf_ReplicationTimeout f))) wts)"
    "serialized f1 f2" "list_all2 (topic_ok crc u) wts cs" "list_all2 carries_topic r cs"
    by (elim exE conjE) (rule that)
  note settings = request_made_settings [OF r(2), simplified]
  have "chk32 ?c = (Inr ?c :: TProtoError fault + int)" using send by (simp add: chk32_def fits32_def sendable_def)
  then have "BuildRequest crc dst f = Inr (Some (?c, r),
      enc_request crc ?c (pf_ClientId f) (-1) (i32 (int (pf_ReplicationTimeout f))) wts, pf_count ''SerializeProduceRequest'' f2)"
    using o(1-3) settings r(1) assms(3) by (simp add: BuildRequest_def pf_IsEmpty_def)
  moreover have "serialized f1 (pf_count ''SerializeProduceRequest'' f2)"
    by (rule serialized_trans [OF o(4) serialized_steps(1)])
  ultimately show ?thesis using r(2) o(5,6) by blast
qed

lemma fits32_i32: "fits32 (i32 x)"
  using signed_take_bit_int_greater_eq_minus_exp [of 31 x] signed_take_bit_int_less_exp [of 31 x]
  by (simp add: fits32_def i32_def)

text \<open>An example with a codec that compresses the one message set it is made for.\<close>

definition ex_set :: "byte list" where
  "ex_set = enc_msgs ex_crc (plain [([], [1, 2])])"

definition ex_codec :: TCompressionCodecApi where
  "ex_codec =
     \<lparr>cc_GetRealCompressionLevel = (\<lambda>level. None),
      cc_ComputeCompressedResultBufSpace = (\<lambda>x level. Some (length x)),
      cc_Compress = (\<lambda>x n level. if x = ex_set \<and> 0 < n then Some [7] else None)\<rparr>"

definition ex_inflate :: "TCompressionType \<Rightarrow> byte list \<Rightarrow> byte list option" where
  "ex_inflate ct data = (if data = [7] then Some ex_set else None)"

definition ex_codecs :: codec_table where
  "ex_codecs ct = (if ct = Snappy then Some ex_codec else None)"

definition ex_compression :: TCompressionConf where
  "ex_compression = \<lparr>cz_SizeThresholdPercent = 75,
     cz_DefaultTopicConfig = \<lparr>cz_Type = Snappy, cz_MinSize = 0, cz_Level = None\<rparr>, cz_TopicConfigs = []\<rparr>"

definition ex_sender :: TProduceRequestFactory where
  "ex_sender =
     pf_Put_lists [[CreateAnyPartitionMsg 0 0 ''t'' [] [1, 2] False],
         [CreatePartitionKeyMsg 9 0 0 ''t'' [3] [] False, CreateAnyPartitionMsg 0 0 ''t'' [] [4, 5] False]]
       (pf_Init ex_codecs ex_compression (fst (mb_Build ex_reorder ex_builder))
       (new_TProduceRequestFactory ex_codecs [100] 1000 4 1000 26 ex_compression 0 (\<lambda>_. 0)))"

lemma ex_sender_start:
  "pf_TopicDataMap ex_sender = []" "pf_wf ex_sender" "\<forall>t. \<not> used ex_sender t"
proof -
  show m: "pf_TopicDataMap ex_sender = []"
    by (simp add: ex_sender_def ex_compression_def pf_Put_lists_def pf_Init_def InitTopicDataMap_def)
  show "pf_wf ex_sender" "\<forall>t. \<not> used ex_sender t"
    by (simp_all add: pf_wf_def used_def topic_data_def m new_TTopicData_def new_TAnyPartitionChooser_def)
qed

lemma ex_sender_queue:
  "concat (pf_InputQueue ex_sender) = [CreateAnyPartitionMsg 0 0 ''t'' [] [1, 2] False,
     CreatePartitionKeyMsg 9 0 0 ''t'' [3] [] False, CreateAnyPartitionMsg 0 0 ''t'' [] [4, 5] False]"
  by (simp add: ex_sender_def pf_Put_lists_def pf_Init_def InitTopicDataMap_def new_TProduceRequestFactory_def)

lemma ex_sender_ready:
  "pf_InputQueue ex_sender \<noteq> []" "\<forall>b \<in> set (pf_InputQueue ex_sender). batch_ok b"
  "\<forall>m \<in> set (concat (pf_InputQueue ex_sender)). GetRoutingType m = AnyPartition \<longrightarrow> choices ex_sender (GetTopic m) \<noteq> []"
  "sendable ex_inflate ex_sender"
proof -
  have c: "choices ex_sender ''t'' = [1, 3]" "pick ex_sender ''t'' = 1" by code_simp+
  show "pf_InputQueue ex_sender \<noteq> []" by code_simp
  show "\<forall>b \<in> set (pf_InputQueue ex_sender). batch_ok b" by code_simp
  show "\<forall>m \<in> set (concat (pf_InputQueue ex_sender)). GetRoutingType m = AnyPartition \<longrightarrow> choices ex_sender (GetTopic m) \<noteq> []"
    unfolding ex_sender_queue using c(1) by (simp add: CreateAnyPartitionMsg_def CreatePartitionKeyMsg_def TMsg_ctor_def)
  have d: "pf_DefaultTopicCompressionInfo ex_sender =
      \<lparr>ci_CompressionCodec = Some ex_codec, ci_MinCompressionSize = 0, ci_CompressionType = Snappy, ci_CompressionLevel = None\<rparr>"
    by (simp add: ex_sender_def ex_compression_def pf_Put_lists_def pf_Init_def InitTopicDataMap_def new_TCompressionInfo_def
        pf_GetRealCompressionLevel_def ex_codecs_def ex_codec_def)
  then have "codec_ok ex_inflate (td_CompressionInfo (topic_data t ex_sender))" for t
    by (simp add: topic_data_def ex_sender_start(1) new_TTopicData_def codec_ok_def ex_codec_def ex_inflate_def)
  moreover have "\<forall>m \<in> set (concat (pf_InputQueue ex_sender)). msg_sendable ex_sender m"
    unfolding ex_sender_queue using c(2)
    by (simp add: msg_sendable_def msg_wf_def assigned_def fits32_def CreateAnyPartitionMsg_def CreatePartitionKeyMsg_def
        TMsg_ctor_def MakeKeyAndValue_def SetPartition_def)
  moreover have "(\<Sum>m \<leftarrow> concat (pf_InputQueue ex_sender). 26 + length (GetKeyAndValue m)) < 2 ^ 31"
    unfolding ex_sender_queue by (simp add: CreateAnyPartitionMsg_def CreatePartitionKeyMsg_def TMsg_ctor_def MakeKeyAndValue_def)
  moreover have "pf_ClientId ex_sender = [100]" "pf_CorrIdCounter ex_sender = 0" by code_simp+
  ultimately show "sendable ex_inflate ex_sender" by (simp add: sendable_def queue_sendable_def)
qed

lemma ex_sender_bytes:
  "map_sum (\<lambda>_. ()) (\<lambda>(request, bytes, f).
     (length bytes, pf_counters f ''MsgSetCompressionYes'', pf_counters f ''MsgSetCompressionError''))
     (BuildRequest ex_crc [] ex_sender) = Inr (102, 1, 1)"
  by code_simp

text \<open>
  C2. The server receives what was queued.  From a queue of batches \<open>BuildRequest\<close> makes a request of
  messages from the front of the queue, grouped by topic and partition with their partitions assigned and
  in order; and a server that takes the bytes apart gets the correlation ID, the client ID and the
  settings, and exactly these topics and partitions with exactly the keys and values of their messages in
  order, whichever message sets were sent compressed.  It does so also when codecs fail or do not
  compress well.  Assumed of the codecs is only that uncompressing gives back what was compressed and that the
  result fits into the space asked for; and that sizes fit the fields of the protocol.
\<close>

theorem request_reaches_server:
  assumes "pf_wf f" "\<forall>t. \<not> used f t" "pf_InputQueue f \<noteq> []" "\<forall>b \<in> set (pf_InputQueue f). batch_ok b"
    and "\<forall>m \<in> set (concat (pf_InputQueue f)). GetRoutingType m = AnyPartition \<longrightarrow> choices f (GetTopic m) \<noteq> []"
    and "sendable u f"
  shows "\<exists>k request bytes f' contents.
    BuildRequest crc dst f = Inr (Some (pf_CorrIdCounter f + 1, request), bytes, f') \<and>
    0 < k \<and> k \<le> length (concat (pf_InputQueue f)) \<and>
    (\<forall>t p. ms_Contents (get_msg_set t p request) =
       filter (\<lambda>m. GetTopic m = t \<and> GetPartition m = p) (map (assigned f) (take k (concat (pf_InputQueue f))))) \<and>
    list_all2 carries_topic request contents \<and>
    (length bytes < 2 ^ 31 \<longrightarrow>
       prb_BuildProdReq crc u bytes =
         Inr \<lparr>pr_CorrelationId = pf_CorrIdCounter f + 1, pr_ClientId = pf_ClientId f, pr_RequiredAcks = -1,
              pr_ReplicationTimeout = i32 (int (pf_ReplicationTimeout f)), pr_TopicGroupVec = map srv_topic contents\<rparr>)"
proof -
  from BuildRequest_ok [OF assms, of crc dst] obtain k r f1 f' wts cs where
    made: "request_made (f\<lparr>pf_CorrIdCounter := pf_CorrIdCounter f + 1\<rparr>) k r f1" and
    b: "BuildRequest crc dst f = Inr (Some (pf_CorrIdCounter f + 1, r),
      enc_request crc (pf_CorrIdCounter f + 1) (pf_ClientId f) (-1) (i32 (int (pf_ReplicationTimeout f))) wts, f')" and
    cs: "list_all2 (topic_ok crc u) wts cs" "list_all2 carries_topic r cs"
    by (elim exE conjE) (rule that)
  from made have k: "0 < k" "k \<le> length (concat (pf_InputQueue f))"
    "\<forall>t p. ms_Contents (get_msg_set t p r) =
       filter (\<lambda>m. GetTopic m = t \<and> GetPartition m = p) (map (assigned f) (take k (concat (pf_InputQueue f))))"
    by (simp_all add: request_made_def Let_def)
  have fits: "length (pf_ClientId f) < 2 ^ 15" "fits32 (pf_CorrIdCounter f + 1)" "fits16 (-1)"
    "fits32 (i32 (int (pf_ReplicationTimeout f)))"
    using assms(6) by (simp_all add: fits32_i32) (simp_all add: sendable_def fits32_def fits16_def)
  show ?thesis
    by (rule exI [of _ k], rule exI [of _ r], rule exI, rule exI [of _ f'], rule exI [of _ cs], intro conjI impI)
      (rule b k cs(2) BuildProdReq_enc [OF cs(1) _ fits] | assumption)+
qed

theorem request_reaches_server_witness:
  "sendable ex_inflate ex_sender \<and>
   (\<exists>request bytes f' contents. BuildRequest ex_crc [] ex_sender = Inr (Some (1, request), bytes, f') \<and>
     length bytes = 102 \<and> list_all2 carries_topic request contents \<and>
     prb_BuildProdReq ex_crc ex_inflate bytes =
       Inr \<lparr>pr_CorrelationId = 1, pr_ClientId = [100], pr_RequiredAcks = -1,
            pr_ReplicationTimeout = 1000, pr_TopicGroupVec = map srv_topic contents\<rparr>)"
proof -
  from request_reaches_server [OF ex_sender_start(2,3) ex_sender_ready, of ex_crc "[]"] obtain k request bytes f' contents where
    r: "BuildRequest ex_crc [] ex_sender = Inr (Some (pf_CorrIdCounter ex_sender + 1, request), bytes, f')"
    "list_all2 carries_topic request contents"
    "length bytes < 2 ^ 31 \<longrightarrow> prb_BuildProdReq ex_crc ex_inflate bytes =
         Inr \<lparr>pr_CorrelationId = pf_CorrIdCounter ex_sender + 1, pr_ClientId = pf_ClientId ex_sender, pr_RequiredAcks = -1,
              pr_ReplicationTimeout = i32 (int (pf_ReplicationTimeout ex_sender)), pr_TopicGroupVec = map srv_topic contents\<rparr>"
    by (elim exE conjE) (rule that)
  have v: "pf_CorrIdCounter ex_sender = 0" "pf_ClientId ex_sender = [100]" "i32 (int (pf_ReplicationTimeout ex_sender)) = 1000"
    by code_simp+
  have len: "length bytes = 102" using ex_sender_bytes r(1) by simp
  then have "length bytes < 2 ^ 31" by simp
  with r len v ex_sender_ready(4) show ?thesis
    by (intro conjI exI [of _ request] exI [of _ bytes] exI [of _ f'] exI [of _ contents]) simp_all
qed

end
