(* ===== verification/Metadata_Check.thy ===== *)
theory Metadata_Check
  imports Metadata_Build
begin

text \<open>
  The metadata's own consistency check, \<open>SanityCheck\<close> of \<open>src/dory/metadata.cc\<close>, and the proof that
  metadata from the builder always passes it.  Each function of the check returns its verdict with
  the reference parameters it has updated.
\<close>

section \<open>The check\<close>

text \<open>\<open>std::lower_bound\<close> in \<open>AllPartitions\<close>, and the comparison with the element found.\<close>

definition lower_bound_id :: "TPartition list \<Rightarrow> TPartition \<Rightarrow> TPartition option" where
  "lower_bound_id xs p =
     (case dropWhile (\<lambda>x. pa_Id x < pa_Id p) xs of [] \<Rightarrow> None | x # _ \<Rightarrow> Some x)"

definition found_in_all :: "TTopic \<Rightarrow> TPartition \<Rightarrow> bool" where
  "found_in_all t p =
     (case lower_bound_id (tp_AllPartitions t) p of
        None \<Rightarrow> False
      | Some x \<Rightarrow> pa_Id x = pa_Id p \<and> pa_BrokerIndex x = pa_BrokerIndex p \<and>
                  pa_ErrorCode x = pa_ErrorCode p)"

definition bpm_get :: "(nat \<times> int set) list \<Rightarrow> nat \<Rightarrow> int set" where
  "bpm_get m b = (case map_of m b of None \<Rightarrow> {} | Some s \<Rightarrow> s)"

fun sc_ok_loop ::
  "nat \<Rightarrow> TTopic \<Rightarrow> TPartition list \<Rightarrow> nat set \<Rightarrow> int set \<Rightarrow> (nat \<times> int set) list \<Rightarrow>
   bool \<times> nat set \<times> int set \<times> (nat \<times> int set) list" where
  "sc_ok_loop nb t [] in_svc ids bpm = (True, in_svc, ids, bpm)"
| "sc_ok_loop nb t (p # ps) in_svc ids bpm =
     (let ids = insert (pa_Id p) ids
      in if pa_BrokerIndex p \<ge> nb then (False, in_svc, ids, bpm)
         else
           let bpm = AList.update (pa_BrokerIndex p) (insert (pa_Id p) (bpm_get bpm (pa_BrokerIndex p))) bpm;
               in_svc = insert (pa_BrokerIndex p) in_svc
           in if \<not> found_in_all t p then (False, in_svc, ids, bpm)
              else sc_ok_loop nb t ps in_svc ids bpm)"

definition SanityCheckOkPartitions ::
  "TMetadata \<Rightarrow> TTopic \<Rightarrow> nat set \<Rightarrow> bool \<times> nat set \<times> int set \<times> (nat \<times> int set) list" where
  "SanityCheckOkPartitions m t in_svc =
     (case sc_ok_loop (length (md_Brokers m)) t (tp_OkPartitions t) in_svc {} [] of
        (ok, in_svc, ids, bpm) \<Rightarrow> (ok \<and> card ids = length (tp_OkPartitions t), in_svc, ids, bpm))"

fun sc_bad_loop :: "nat \<Rightarrow> TTopic \<Rightarrow> TPartition list \<Rightarrow> int set \<Rightarrow> bool \<times> int set" where
  "sc_bad_loop nb t [] ids = (True, ids)"
| "sc_bad_loop nb t (p # ps) ids =
     (let ids = insert (pa_Id p) ids
      in if pa_BrokerIndex p \<ge> nb \<or> \<not> found_in_all t p then (False, ids)
         else sc_bad_loop nb t ps ids)"

definition SanityCheckOutOfServicePartitions :: "TMetadata \<Rightarrow> TTopic \<Rightarrow> bool \<times> int set" where
  "SanityCheckOutOfServicePartitions m t =
     (case sc_bad_loop (length (md_Brokers m)) t (tp_OutOfServicePartitions t) {} of
        (ok, ids) \<Rightarrow> (ok \<and> card ids = length (tp_OutOfServicePartitions t), ids))"

text \<open>The inner loop over one chunk, from vector index \<open>j\<close>; \<open>prev\<close> is the previous element.\<close>

fun sc_chunk_loop :: "int option \<Rightarrow> int list \<Rightarrow> nat \<Rightarrow> nat list \<Rightarrow> bool \<times> nat list" where
  "sc_chunk_loop prev [] j access = (True, access)"
| "sc_chunk_loop prev (x # xs) j access =
     (if (case prev of None \<Rightarrow> False | Some y \<Rightarrow> x \<le> y) then (False, access)
      else sc_chunk_loop (Some x) xs (Suc j) (access[j := access ! j + 1]))"

fun SanityCheckBrokerPartitionMap ::
  "TMetadata \<Rightarrow> TTopic \<Rightarrow> (nat \<times> int set) list \<Rightarrow> nat list \<Rightarrow> bool \<times> nat list" where
  "SanityCheckBrokerPartitionMap m t [] access = (True, access)"
| "SanityCheckBrokerPartitionMap m t ((broker_index, ids) # bpm) access =
     (case map_of (tp_PartitionChoiceMap t) broker_index of
        None \<Rightarrow> (False, access)
      | Some choices \<Rightarrow>
          let i = pc_TopicBrokerVecIndex choices;
              n = pc_TopicBrokerVecNumItems choices;
              chunk = take n (drop i (md_TopicBrokerVec m))
          in if i \<ge> length (md_TopicBrokerVec m) then (False, access)
             else if n > length (md_TopicBrokerVec m) - i then (False, access)
             else if set chunk \<noteq> ids then (False, access)
             else case sc_chunk_loop None chunk i access of (ok, access) \<Rightarrow>
               if \<not> ok then (False, access) else SanityCheckBrokerPartitionMap m t bpm access)"

definition SanityCheckOneTopic ::
  "TMetadata \<Rightarrow> TTopic \<Rightarrow> nat set \<Rightarrow> nat list \<Rightarrow> bool \<times> nat set \<times> nat list" where
  "SanityCheckOneTopic m t in_svc access =
     (if length (tp_AllPartitions t) \<noteq>
         length (tp_OkPartitions t) + length (tp_OutOfServicePartitions t) then (False, in_svc, access)
      else if list_ex (\<lambda>i. pa_Id (tp_AllPartitions t ! i) \<le> pa_Id (tp_AllPartitions t ! (i - 1)))
                [1..<length (tp_AllPartitions t)] then (False, in_svc, access)
      else case SanityCheckOkPartitions m t in_svc of (ok, in_svc, id_set_ok, bpm) \<Rightarrow>
        if \<not> ok then (False, in_svc, access)
        else case SanityCheckOutOfServicePartitions m t of (ok, id_set_bad) \<Rightarrow>
          if \<not> ok then (False, in_svc, access)
          else if id_set_ok \<inter> id_set_bad \<noteq> {} then (False, in_svc, access)
          else if length bpm \<noteq> length (tp_PartitionChoiceMap t) then (False, in_svc, access)
          else case SanityCheckBrokerPartitionMap m t bpm access of (ok, access) \<Rightarrow> (ok, in_svc, access))"

fun sc_topics_loop :: "TMetadata \<Rightarrow> TTopic list \<Rightarrow> nat set \<Rightarrow> nat list \<Rightarrow> bool \<times> nat set \<times> nat list" where
  "sc_topics_loop m [] in_svc access = (True, in_svc, access)"
| "sc_topics_loop m (t # ts) in_svc access =
     (case SanityCheckOneTopic m t in_svc access of (ok, in_svc, access) \<Rightarrow>
        if \<not> ok then (False, in_svc, access) else sc_topics_loop m ts in_svc access)"

definition SanityCheckTopics :: "TMetadata \<Rightarrow> nat set \<Rightarrow> bool \<times> nat set" where
  "SanityCheckTopics m in_svc =
     (if list_ex (\<lambda>(_, i). i \<ge> length (md_Topics m)) (md_TopicNameToIndex m) then (False, in_svc)
      else if card (set (map snd (md_TopicNameToIndex m))) \<noteq> length (md_Topics m) then (False, in_svc)
      else case sc_topics_loop m (md_Topics m) in_svc (replicate (length (md_TopicBrokerVec m)) 0) of
        (ok, in_svc, access) \<Rightarrow> (ok \<and> list_all (\<lambda>n. n = 1) access, in_svc))"

text \<open>The loop over the brokers counts those in service, and those before the first that is not.\<close>

fun sc_brokers_loop :: "nat set \<Rightarrow> nat \<Rightarrow> TBroker list \<Rightarrow> nat \<Rightarrow> bool \<Rightarrow> nat \<Rightarrow> (nat \<times> nat) option" where
  "sc_brokers_loop in_svc i [] cnt found_out adjacent = Some (cnt, adjacent)"
| "sc_brokers_loop in_svc i (b # bs) cnt found_out adjacent =
     (let cnt' = (if br_InService b then cnt + 1 else cnt);
          adjacent' = (if br_InService b \<and> \<not> found_out then adjacent + 1 else adjacent);
          found_out' = (found_out \<or> \<not> br_InService b)
      in if br_InService b \<noteq> (i \<in> in_svc) then None
         else sc_brokers_loop in_svc (Suc i) bs cnt' found_out' adjacent')"

text \<open>The last condition is only logged.\<close>

definition DoSanityCheck :: "TMetadata \<Rightarrow> bool" where
  "DoSanityCheck m =
     (case SanityCheckTopics m {} of (ok, in_svc) \<Rightarrow>
        if \<not> ok then False
        else case sc_brokers_loop in_svc 0 (md_Brokers m) 0 False 0 of
          None \<Rightarrow> False
        | Some (cnt, adjacent) \<Rightarrow>
            if md_InServiceBrokerCount m \<noteq> cnt then False else True)"

definition SanityCheck :: "TMetadata \<Rightarrow> TCounters \<Rightarrow> bool \<times> TCounters" where
  "SanityCheck m counters =
     (if DoSanityCheck m then (True, Increment ''MetadataSanityCheckSuccess'' counters)
      else (False, Increment ''MetadataSanityCheckFail'' counters))"

section \<open>Access counts\<close>

definition covers :: "TPartitionChoices \<Rightarrow> nat \<Rightarrow> bool" where
  "covers c j \<longleftrightarrow> pc_TopicBrokerVecIndex c \<le> j \<and> j < pc_TopicBrokerVecIndex c + pc_TopicBrokerVecNumItems c"

definition bump :: "TPartitionChoices list \<Rightarrow> nat list \<Rightarrow> nat list" where
  "bump cs access = map (\<lambda>j. access ! j + length (filter (\<lambda>c. covers c j) cs)) [0..<length access]"

lemma length_bump [simp]: "length (bump cs access) = length access"
  by (simp add: bump_def)

lemma bump_Nil [simp]: "bump [] access = access"
  by (simp add: bump_def map_nth)

lemma bump_append: "bump ds (bump cs access) = bump (cs @ ds) access"
  by (rule nth_equalityI) (auto simp: bump_def)

lemma bump_mset: "mset cs = mset ds \<Longrightarrow> bump cs access = bump ds access"
  unfolding bump_def by (metis mset_filter size_mset)

lemma tiles_cover:
  "tiles a cs z \<Longrightarrow> length (filter (\<lambda>c. covers c j) cs) = (if a \<le> j \<and> j < z then 1 else 0)"
proof (induction cs arbitrary: a)
  case (Cons c cs)
  from Cons.prems tiles_le [of "a + pc_TopicBrokerVecNumItems c" cs z]
  show ?case using Cons.IH [of "a + pc_TopicBrokerVecNumItems c"] by (auto simp: covers_def)
qed simp

lemma chunk_loop_ok:
  assumes "sorted_wrt (<) xs" "\<forall>y. prev = Some y \<longrightarrow> (\<forall>x \<in> set xs. y < x)" "j + length xs \<le> length access"
  shows "sc_chunk_loop prev xs j access =
    (True, bump [\<lparr>pc_TopicBrokerVecIndex = j, pc_TopicBrokerVecNumItems = length xs\<rparr>] access)"
  using assms
proof (induction prev xs j access rule: sc_chunk_loop.induct)
  case (1 prev j access)
  have "bump [\<lparr>pc_TopicBrokerVecIndex = j, pc_TopicBrokerVecNumItems = 0\<rparr>] access = access"
    by (rule nth_equalityI) (auto simp: bump_def covers_def)
  then show ?case by simp
next
  case (2 prev x xs j access)
  have "\<not> (case prev of None \<Rightarrow> False | Some y \<Rightarrow> x \<le> y)" using "2.prems" by (auto split: option.splits)
  moreover have "bump [\<lparr>pc_TopicBrokerVecIndex = Suc j, pc_TopicBrokerVecNumItems = length xs\<rparr>]
        (access[j := access ! j + 1]) =
      bump [\<lparr>pc_TopicBrokerVecIndex = j, pc_TopicBrokerVecNumItems = length (x # xs)\<rparr>] access"
    using "2.prems"(3) by (intro nth_equalityI) (auto simp: bump_def covers_def nth_list_update)
  ultimately show ?case using "2.IH" "2.prems" by auto
qed

section \<open>Built metadata passes\<close>

lemma found_in_all_ok:
  assumes "parts_wf nb t" "all_wf t" "p \<in> set (parts t)"
  shows "found_in_all t p"
proof -
  let ?all = "tp_AllPartitions t"
  have all: "set ?all = set (parts t)" using assms(2) unfolding all_wf_def by (metis mset_eq_setD)
  have inj: "x = p" if "x \<in> set ?all" "pa_Id x = pa_Id p" for x
    using that assms(1,3) unfolding all parts_wf_def by (metis distinct_map inj_onD)
  have "\<exists>x xs. dropWhile (\<lambda>x. pa_Id x < pa_Id p) ?all = x # xs \<and> pa_Id x = pa_Id p \<and> x \<in> set ?all"
  proof -
    obtain ys zs where split: "?all = ys @ p # zs" using assms(3) all by (metis split_list)
    have "sorted (map pa_Id ?all)" using assms(2) by (simp add: all_wf_def)
    then have le: "\<forall>y \<in> set ys. pa_Id y \<le> pa_Id p" by (simp add: split sorted_append)
    show ?thesis
    proof (cases "\<forall>y \<in> set ys. pa_Id y < pa_Id p")
      case True
      then show ?thesis by (simp add: split dropWhile_append2)
    next
      case False
      with le obtain y where y: "y \<in> set ys" "pa_Id y = pa_Id p" by force
      then have "y = p" using inj [of y] split by simp
      moreover have "distinct ?all"
      proof -
        have "distinct (parts t)" using assms(1) unfolding parts_wf_def by (metis distinct_map)
        then show ?thesis using assms(2) mset_eq_imp_distinct_iff unfolding all_wf_def by metis
      qed
      ultimately show ?thesis using y(1) split by auto
    qed
  qed
  then show ?thesis using inj by (fastforce simp: found_in_all_def lower_bound_id_def)
qed

lemma ok_loop_ok:
  assumes "\<forall>p \<in> set ps. pa_BrokerIndex p < nb \<and> found_in_all t p" "distinct (map fst bpm)"
  shows "\<exists>bpm'. sc_ok_loop nb t ps in_svc ids bpm =
      (True, in_svc \<union> pa_BrokerIndex ` set ps, ids \<union> pa_Id ` set ps, bpm') \<and>
    distinct (map fst bpm') \<and> fst ` set bpm' = fst ` set bpm \<union> pa_BrokerIndex ` set ps \<and>
    (\<forall>b. bpm_get bpm' b = bpm_get bpm b \<union> pa_Id ` {p \<in> set ps. pa_BrokerIndex p = b})"
  using assms
proof (induction ps arbitrary: in_svc ids bpm)
  case (Cons p ps)
  let ?bpm = "AList.update (pa_BrokerIndex p) (insert (pa_Id p) (bpm_get bpm (pa_BrokerIndex p))) bpm"
  from Cons.IH [of ?bpm "insert (pa_BrokerIndex p) in_svc" "insert (pa_Id p) ids"] Cons.prems
  obtain bpm' where bpm': "sc_ok_loop nb t ps (insert (pa_BrokerIndex p) in_svc) (insert (pa_Id p) ids) ?bpm =
      (True, insert (pa_BrokerIndex p) in_svc \<union> pa_BrokerIndex ` set ps,
       insert (pa_Id p) ids \<union> pa_Id ` set ps, bpm')"
    "distinct (map fst bpm')" "fst ` set bpm' = fst ` set ?bpm \<union> pa_BrokerIndex ` set ps"
    "\<forall>b. bpm_get bpm' b = bpm_get ?bpm b \<union> pa_Id ` {p \<in> set ps. pa_BrokerIndex p = b}"
    by auto
  have "bpm_get ?bpm b = bpm_get bpm b \<union> (if pa_BrokerIndex p = b then {pa_Id p} else {})" for b
    by (auto simp: bpm_get_def)
  then have "bpm_get bpm' b = bpm_get bpm b \<union> pa_Id ` {q \<in> set (p # ps). pa_BrokerIndex q = b}" for b
    using bpm'(4) by auto
  then show ?case using bpm'(1-3) Cons.prems by (intro exI [of _ bpm']) (simp add: Let_def)
qed simp

lemma bad_loop_ok:
  assumes "\<forall>p \<in> set ps. pa_BrokerIndex p < nb \<and> found_in_all t p"
  shows "sc_bad_loop nb t ps ids = (True, ids \<union> pa_Id ` set ps)"
  using assms by (induction ps arbitrary: ids) auto

lemma map_check_ok:
  assumes "choices_wf (md_TopicBrokerVec m) t" "parts_wf nb t" "length access = length (md_TopicBrokerVec m)"
    and "\<forall>(b, ids) \<in> set bpm. b \<in> fst ` set (tp_PartitionChoiceMap t) \<and>
      ids = pa_Id ` {p \<in> set (tp_OkPartitions t). pa_BrokerIndex p = b}"
  shows "SanityCheckBrokerPartitionMap m t bpm access =
    (True, bump (map (\<lambda>(b, _). the (map_of (tp_PartitionChoiceMap t) b)) bpm) access)"
  using assms(3,4)
proof (induction bpm arbitrary: access)
  case (Cons x bpm)
  obtain b ids where x: "x = (b, ids)" by force
  with Cons.prems(2) obtain c where c: "map_of (tp_PartitionChoiceMap t) b = Some c"
    by (auto simp: map_of_eq_None_iff dest: weak_map_of_SomeI)
  then have "(b, c) \<in> set (tp_PartitionChoiceMap t)" by (rule map_of_SomeD)
  then have wf: "0 < pc_TopicBrokerVecNumItems c"
    "pc_TopicBrokerVecIndex c + pc_TopicBrokerVecNumItems c \<le> length (md_TopicBrokerVec m)"
    "chunk_of (md_TopicBrokerVec m) c = choice_ids t b"
    using assms(1) by (auto simp: choices_wf_def)
  have ids: "choice_ids t b = sorted_list_of_set ids"
    using choice_ids_set [OF assms(2), of b] Cons.prems(2) x by simp
  have fin: "finite ids" using Cons.prems(2) x by simp
  have len: "length (choice_ids t b) = pc_TopicBrokerVecNumItems c"
    using wf by (simp flip: wf(3) add: chunk_of_def)
  have same: "\<lparr>pc_TopicBrokerVecIndex = pc_TopicBrokerVecIndex c,
      pc_TopicBrokerVecNumItems = pc_TopicBrokerVecNumItems c\<rparr> = c"
    by (cases c) simp
  have "sc_chunk_loop None (choice_ids t b) (pc_TopicBrokerVecIndex c) access = (True, bump [c] access)"
    using chunk_loop_ok [of "choice_ids t b" None "pc_TopicBrokerVecIndex c" access] wf(2) len Cons.prems(1)
    by (simp add: ids same)
  moreover have "SanityCheckBrokerPartitionMap m t bpm (bump [c] access) =
      (True, bump (map (\<lambda>(b, _). the (map_of (tp_PartitionChoiceMap t) b)) bpm) (bump [c] access))"
    using Cons.prems by (intro Cons.IH) auto
  ultimately show ?case
    using c wf fin by (simp add: x Let_def bump_append ids flip: chunk_of_def)
qed simp

lemma all_sorted_ok:
  assumes "parts_wf nb t" "all_wf t"
  shows "\<not> list_ex (\<lambda>i. pa_Id (tp_AllPartitions t ! i) \<le> pa_Id (tp_AllPartitions t ! (i - 1)))
    [1..<length (tp_AllPartitions t)]"
proof -
  have "mset (map pa_Id (tp_AllPartitions t)) = mset (map pa_Id (parts t))"
    using assms(2) unfolding all_wf_def mset_map by metis
  then have "distinct (map pa_Id (tp_AllPartitions t))"
    using assms(1) mset_eq_imp_distinct_iff unfolding parts_wf_def by metis
  moreover have "sorted (map pa_Id (tp_AllPartitions t))" using assms(2) by (simp add: all_wf_def)
  ultimately have "sorted_wrt (<) (map pa_Id (tp_AllPartitions t))" by (simp add: strict_sorted_iff)
  then have "pa_Id (tp_AllPartitions t ! (i - 1)) < pa_Id (tp_AllPartitions t ! i)"
    if "1 \<le> i" "i < length (tp_AllPartitions t)" for i
    using that sorted_wrt_nth_less [of "(<)" "map pa_Id (tp_AllPartitions t)" "i - 1" i] by simp
  then show ?thesis by (force simp: list_ex_iff not_le)
qed

lemma one_topic_ok:
  assumes "topic_wf (length (md_Brokers m)) (md_TopicBrokerVec m) t"
    and "length access = length (md_TopicBrokerVec m)"
  shows "SanityCheckOneTopic m t in_svc access =
    (True, in_svc \<union> pa_BrokerIndex ` set (tp_OkPartitions t), bump (vals (tp_PartitionChoiceMap t)) access)"
proof -
  let ?nb = "length (md_Brokers m)" and ?cm = "tp_PartitionChoiceMap t"
  have wf: "parts_wf ?nb t" "all_wf t" "choices_wf (md_TopicBrokerVec m) t"
    using assms(1) by (simp_all add: topic_wf_def)
  have in_all: "pa_BrokerIndex p < ?nb \<and> found_in_all t p" if "p \<in> set (parts t)" for p
    using that wf(1) found_in_all_ok [OF wf(1,2) that] by (simp add: parts_wf_def)
  have keys: "distinct (map fst ?cm)" "fst ` set ?cm = pa_BrokerIndex ` set (tp_OkPartitions t)"
    using wf(3) by (simp_all add: choices_wf_def)
  from ok_loop_ok [of "tp_OkPartitions t" ?nb t "[]" in_svc "{}"] in_all obtain bpm where
    bpm: "sc_ok_loop ?nb t (tp_OkPartitions t) in_svc {} [] =
      (True, in_svc \<union> pa_BrokerIndex ` set (tp_OkPartitions t), pa_Id ` set (tp_OkPartitions t), bpm)"
    "distinct (map fst bpm)" "fst ` set bpm = fst ` set ?cm"
    "\<forall>b. bpm_get bpm b = pa_Id ` {p \<in> set (tp_OkPartitions t). pa_BrokerIndex p = b}"
    unfolding keys(2) by (auto simp: bpm_get_def)
  have perm: "mset (map fst bpm) = mset (map fst ?cm)"
    using bpm(2,3) keys(1) by (metis list.set_map set_eq_iff_mset_eq_distinct)
  then have "length bpm = length ?cm" by (metis length_map mset_eq_length)
  moreover have "SanityCheckBrokerPartitionMap m t bpm access = (True, bump (vals ?cm) access)"
  proof -
    have "\<forall>(b, ids) \<in> set bpm. b \<in> fst ` set ?cm \<and>
        ids = pa_Id ` {p \<in> set (tp_OkPartitions t). pa_BrokerIndex p = b}"
    proof (clarify)
      fix b ids
      assume "(b, ids) \<in> set bpm"
      with bpm show "b \<in> fst ` set ?cm \<and>
        ids = pa_Id ` {p \<in> set (tp_OkPartitions t). pa_BrokerIndex p = b}"
        by (metis (no_types, lifting) bpm_get_def fst_conv image_eqI map_of_is_SomeI option.simps(5))
    qed
    note map_check_ok [OF wf(3,1) assms(2) this]
    moreover have "mset (map (\<lambda>(b, _). the (map_of ?cm b)) bpm) = mset (vals ?cm)"
    proof -
      have "map (\<lambda>(b, _). the (map_of ?cm b)) bpm = map (\<lambda>b. the (map_of ?cm b)) (map fst bpm)"
        by (simp add: comp_def case_prod_beta)
      then have "mset (map (\<lambda>(b, _). the (map_of ?cm b)) bpm) = mset (map (\<lambda>b. the (map_of ?cm b)) (map fst ?cm))"
        using perm by (metis mset_map)
      also have "map (\<lambda>b. the (map_of ?cm b)) (map fst ?cm) = vals ?cm"
        using keys(1) by (auto simp: comp_def)
      finally show ?thesis .
    qed
    ultimately show ?thesis by (simp add: bump_mset)
  qed
  moreover have "length (tp_AllPartitions t) = length (parts t)"
    using wf(2) unfolding all_wf_def by (metis mset_eq_length)
  moreover have "card (pa_Id ` set (tp_OkPartitions t)) = length (tp_OkPartitions t)"
    "card (pa_Id ` set (tp_OutOfServicePartitions t)) = length (tp_OutOfServicePartitions t)"
    "pa_Id ` set (tp_OkPartitions t) \<inter> pa_Id ` set (tp_OutOfServicePartitions t) = {}"
    using wf(1) distinct_card [of "map pa_Id (tp_OkPartitions t)"]
      distinct_card [of "map pa_Id (tp_OutOfServicePartitions t)"]
    by (simp_all add: parts_wf_def)
  ultimately show ?thesis
    using all_sorted_ok [OF wf(1,2)] bpm(1) bad_loop_ok [of "tp_OutOfServicePartitions t" ?nb t "{}"] in_all
    by (simp add: SanityCheckOneTopic_def SanityCheckOkPartitions_def SanityCheckOutOfServicePartitions_def)
qed

lemma topics_loop_ok:
  assumes "\<forall>t \<in> set ts. topic_wf (length (md_Brokers m)) (md_TopicBrokerVec m) t"
    and "length access = length (md_TopicBrokerVec m)"
  shows "sc_topics_loop m ts in_svc access =
    (True, in_svc \<union> (\<Union>t \<in> set ts. pa_BrokerIndex ` set (tp_OkPartitions t)), bump (all_chunks ts) access)"
  using assms
proof (induction ts arbitrary: in_svc access)
  case (Cons t ts)
  then show ?case by (simp add: one_topic_ok bump_append all_chunks_def Un_assoc)
qed (simp add: all_chunks_def)

lemma brokers_loop_ok:
  assumes "\<forall>k < length bs. br_InService (bs ! k) \<longleftrightarrow> i + k \<in> in_svc"
  shows "\<exists>adjacent'. sc_brokers_loop in_svc i bs cnt found_out adjacent =
    Some (cnt + length (filter br_InService bs), adjacent')"
  using assms
proof (induction bs arbitrary: i cnt found_out adjacent)
  case (Cons b bs)
  from Cons.prems have b: "br_InService b \<longleftrightarrow> i \<in> in_svc" by (metis add_0_right length_pos_if_in_set list.set_intros(1) nth_Cons_0)
  from Cons.prems have "\<forall>k < length bs. br_InService (bs ! k) \<longleftrightarrow> Suc i + k \<in> in_svc"
    by (metis Suc_less_eq add_Suc_shift length_Cons nth_Cons_Suc)
  from Cons.IH [OF this, of "Suc cnt" False "Suc adjacent"] Cons.IH [OF this, of "Suc cnt" True adjacent]
    Cons.IH [OF this, of cnt True adjacent] b
  show ?case by (cases found_out) (simp_all add: Let_def)
qed simp

lemma DoSanityCheck_ok:
  assumes "md_ok m"
  shows "DoSanityCheck m"
proof -
  let ?vec = "md_TopicBrokerVec m" and ?names = "md_TopicNameToIndex m"
  have wf: "md_wf (md_Brokers m) ?vec (md_Topics m)" "names_wf ?names (length (md_Topics m))"
    "md_InServiceBrokerCount m = length (filter br_InService (md_Brokers m))"
    using assms by (simp_all add: md_ok_def)
  have snds: "snd ` set ?names = {..<length (md_Topics m)}"
    using wf(2) unfolding names_wf_def by (metis atLeast0LessThan list.set_map set_upt)
  have "i < length (md_Topics m)" if "(x, i) \<in> set ?names" for x i
    using snds that by (metis imageI snd_conv lessThan_iff)
  then have names: "\<not> list_ex (\<lambda>(_, i). i \<ge> length (md_Topics m)) ?names"
    by (fastforce simp: list_ex_iff)
  have "bump (all_chunks (md_Topics m)) (replicate (length ?vec) 0) = replicate (length ?vec) 1"
  proof -
    have "tiles 0 (all_chunks (md_Topics m)) (length ?vec)" using wf(1) by (simp add: md_wf_def)
    from tiles_cover [OF this] show ?thesis by (intro nth_equalityI) (simp_all add: bump_def)
  qed
  moreover have "sc_topics_loop m (md_Topics m) {} (replicate (length ?vec) 0) =
      (True, \<Union>t \<in> set (md_Topics m). pa_BrokerIndex ` set (tp_OkPartitions t),
       bump (all_chunks (md_Topics m)) (replicate (length ?vec) 0))"
    using wf(1) topics_loop_ok [of "md_Topics m" m "replicate (length ?vec) 0" "{}"] by (simp add: md_wf_def)
  ultimately have "SanityCheckTopics m {} =
      (True, \<Union>t \<in> set (md_Topics m). pa_BrokerIndex ` set (tp_OkPartitions t))"
    using names snds by (simp add: SanityCheckTopics_def list_all_iff)
  moreover obtain adjacent where
    "sc_brokers_loop (\<Union>t \<in> set (md_Topics m). pa_BrokerIndex ` set (tp_OkPartitions t)) 0
       (md_Brokers m) 0 False 0 = Some (length (filter br_InService (md_Brokers m)), adjacent)"
  proof -
    have "\<forall>k < length (md_Brokers m). br_InService (md_Brokers m ! k) \<longleftrightarrow>
        0 + k \<in> (\<Union>t \<in> set (md_Topics m). pa_BrokerIndex ` set (tp_OkPartitions t))"
      using wf(1) by (simp add: md_wf_def)
    from brokers_loop_ok [OF this, of 0 False 0] that show ?thesis by auto
  qed
  ultimately show ?thesis using wf(3) by (simp add: DoSanityCheck_def)
qed

text \<open>
  C22. Metadata that the builder makes, for every history of calls, passes the code's own
  consistency check, and its brokers in service are at the start of the broker list, where
  \<open>NumInServiceBrokers\<close> counts them.
\<close>

theorem built_metadata_sane:
  assumes "is_built cs m"
  shows "SanityCheck m counters = (True, Increment ''MetadataSanityCheckSuccess'' counters) \<and>
    (\<forall>i < length (md_Brokers m). br_InService (md_Brokers m ! i) \<longleftrightarrow> i < md_InServiceBrokerCount m)"
proof -
  have ok: "md_ok m" using assms by (rule is_built_ok)
  then have t: "takeWhile br_InService (md_Brokers m) = filter br_InService (md_Brokers m)"
    "md_InServiceBrokerCount m = length (takeWhile br_InService (md_Brokers m))"
    by (simp_all add: md_ok_def)
  have "br_InService (md_Brokers m ! i) \<longleftrightarrow> i < md_InServiceBrokerCount m" if i: "i < length (md_Brokers m)" for i
  proof
    assume "i < md_InServiceBrokerCount m"
    then show "br_InService (md_Brokers m ! i)"
      unfolding t(2) by (metis nth_mem set_takeWhileD takeWhile_nth)
  next
    assume svc: "br_InService (md_Brokers m ! i)"
    have "\<forall>b \<in> set (dropWhile br_InService (md_Brokers m)). \<not> br_InService b"
    proof -
      have "filter br_InService (md_Brokers m) = takeWhile br_InService (md_Brokers m) @
          filter br_InService (dropWhile br_InService (md_Brokers m))"
        by (subst takeWhile_dropWhile_id [of br_InService "md_Brokers m", symmetric], subst filter_append)
          (metis filter_True set_takeWhileD)
      with t(1) show ?thesis by (simp add: filter_empty_conv)
    qed
    moreover have "md_Brokers m ! i \<in> set (dropWhile br_InService (md_Brokers m))"
      if "\<not> i < length (takeWhile br_InService (md_Brokers m))"
    proof -
      let ?tw = "takeWhile br_InService (md_Brokers m)" and ?dw = "dropWhile br_InService (md_Brokers m)"
      have "md_Brokers m ! i = (?tw @ ?dw) ! i" by simp
      then have "md_Brokers m ! i = ?dw ! (i - length ?tw)"
        using that by (simp only: nth_append if_False)
      moreover have "i - length ?tw < length ?dw"
        using i that by (metis add_diff_inverse_nat length_append nat_add_left_cancel_less takeWhile_dropWhile_id)
      ultimately show ?thesis by simp
    qed
    ultimately show "i < md_InServiceBrokerCount m" using svc t(2) by auto
  qed
  with DoSanityCheck_ok [OF ok] show ?thesis by (simp add: SanityCheck_def)
qed

theorem built_metadata_sane_witness:
  "is_built ex_calls (fst (mb_Build ex_reorder ex_builder)) \<and>
   SanityCheck (fst (mb_Build ex_reorder ex_builder)) (\<lambda>_. 0) =
     (True, Increment ''MetadataSanityCheckSuccess'' (\<lambda>_. 0)) \<and>
   map br_InService (md_Brokers (fst (mb_Build ex_reorder ex_builder))) = [True, False]"
proof -
  let ?m = "fst (mb_Build ex_reorder ex_builder)"
  have state: "mb_State ex_builder \<in> {MInitial, AddingTopics}" by code_simp
  then have built: "is_built ex_calls ?m" using ex_builder_run ex_reorder_ok unfolding is_built_def by blast
  have "map br_InService (md_Brokers ?m) = [True, False]" by code_simp
  with built_metadata_sane [OF built] built show ?thesis by blast
qed

text \<open>Two brokers, the second of which is in service.\<close>

definition ungrouped_metadata :: TMetadata where
  "ungrouped_metadata = \<lparr>
     md_Brokers = [new_TBroker 1 ''a'' 9092, MarkInService (new_TBroker 2 ''b'' 9092)],
     md_InServiceBrokerCount = 1, md_TopicBrokerVec = [0],
     md_Topics = [\<lparr>tp_OkPartitions = [\<lparr>pa_Id = 0, pa_BrokerIndex = 1, pa_ErrorCode = 0\<rparr>],
       tp_OutOfServicePartitions = [],
       tp_AllPartitions = [\<lparr>pa_Id = 0, pa_BrokerIndex = 1, pa_ErrorCode = 0\<rparr>],
       tp_PartitionChoiceMap = [(1, \<lparr>pc_TopicBrokerVecIndex = 0, pc_TopicBrokerVecNumItems = 1\<rparr>)]\<rparr>],
     md_TopicNameToIndex = [(''t'', 0)]\<rparr>"

text \<open>
  C24. \<open>DoSanityCheck\<close> logs a broker list whose in-service brokers are not at the start, but does not
  fail: the check succeeds for metadata whose only in-service broker is the last one.
\<close>

theorem ungrouped_brokers_pass:
  "fst (SanityCheck ungrouped_metadata counters) \<and>
   map br_InService (md_Brokers ungrouped_metadata) = [False, True]"
  unfolding SanityCheck_def by code_simp

end
