(* ===== verification/Metadata_Compare.thy ===== *)
theory Metadata_Compare
  imports Metadata_Check
begin

text \<open>
  Comparison of metadata, \<open>operator==\<close> of \<open>src/dory/metadata.cc\<close>, which decides whether a metadata
  update changes anything.  It compares with hash sets, sizes and lookups; on metadata from the
  builder it decides equality of what the metadata describes.
\<close>

section \<open>The comparison\<close>

definition CompareBrokers :: "TMetadata \<Rightarrow> TMetadata \<Rightarrow> bool" where
  "CompareBrokers m that = list_all (\<lambda>b. b \<in> set (md_Brokers m)) (md_Brokers that)"

definition part_key :: "TMetadata \<Rightarrow> TPartition \<Rightarrow> int \<times> int \<times> int" where
  "part_key m p = (pa_Id p, br_Id (md_Brokers m ! pa_BrokerIndex p), pa_ErrorCode p)"

definition SingleTopicCompare :: "TMetadata \<Rightarrow> TMetadata \<Rightarrow> TTopic \<Rightarrow> TTopic \<Rightarrow> bool" where
  "SingleTopicCompare m that this_topic that_topic =
     (if length (tp_OkPartitions this_topic) \<noteq> length (tp_OkPartitions that_topic) \<or>
         length (tp_OutOfServicePartitions this_topic) \<noteq> length (tp_OutOfServicePartitions that_topic)
      then False
      else
        let part_set = set (map (part_key m) (tp_OkPartitions this_topic))
        in if list_ex (\<lambda>p. part_key that p \<notin> part_set) (tp_OkPartitions that_topic) then False
           else
             let part_set = set (map (part_key m) (tp_OutOfServicePartitions this_topic))
             in \<not> list_ex (\<lambda>p. part_key that p \<notin> part_set) (tp_OutOfServicePartitions that_topic))"

definition CompareTopics :: "TMetadata \<Rightarrow> TMetadata \<Rightarrow> bool" where
  "CompareTopics m that =
     list_all (\<lambda>(name, i).
       case map_of (md_TopicNameToIndex that) name of
         None \<Rightarrow> False
       | Some j \<Rightarrow> SingleTopicCompare m that (md_Topics m ! i) (md_Topics that ! j))
     (md_TopicNameToIndex m)"

definition metadata_eq :: "TMetadata \<Rightarrow> TMetadata \<Rightarrow> bool" where
  "metadata_eq m that =
     (if length (md_Brokers m) \<noteq> length (md_Brokers that) \<or>
         length (md_TopicBrokerVec m) \<noteq> length (md_TopicBrokerVec that) \<or>
         length (md_Topics m) \<noteq> length (md_Topics that) then False
      else CompareBrokers m that \<and> CompareTopics m that)"

section \<open>Topics\<close>

lemma part_keys_distinct:
  assumes "distinct (map pa_Id ps)"
  shows "distinct (map (part_key m) ps)"
proof -
  have "map pa_Id ps = map fst (map (part_key m) ps)" by (simp add: part_key_def comp_def)
  with assms show ?thesis by (metis distinct_map)
qed

lemma subset_same_length:
  assumes "distinct xs" "distinct ys" "length xs = length ys" "set ys \<subseteq> set xs"
  shows "set ys = set xs"
  using assms by (metis List.finite_set card_subset_eq distinct_card)

lemma SingleTopicCompare_iff:
  assumes "parts_wf (length (md_Brokers m)) t" "parts_wf (length (md_Brokers that)) u"
  shows "SingleTopicCompare m that t u \<longleftrightarrow>
    set (map (part_key m) (tp_OkPartitions t)) = set (map (part_key that) (tp_OkPartitions u)) \<and>
    set (map (part_key m) (tp_OutOfServicePartitions t)) =
      set (map (part_key that) (tp_OutOfServicePartitions u))"
    (is "_ \<longleftrightarrow> set ?a = set ?a' \<and> set ?b = set ?b'")
proof -
  have d: "distinct ?a" "distinct ?a'" "distinct ?b" "distinct ?b'"
    using assms by (auto simp: parts_wf_def intro!: part_keys_distinct)
  have len: "set ?a = set ?a' \<Longrightarrow> length ?a = length ?a'" "set ?b = set ?b' \<Longrightarrow> length ?b = length ?b'"
    using d by (metis distinct_card)+
  have "SingleTopicCompare m that t u \<longleftrightarrow>
      length ?a = length ?a' \<and> length ?b = length ?b' \<and> set ?a' \<subseteq> set ?a \<and> set ?b' \<subseteq> set ?b"
    by (auto simp: SingleTopicCompare_def Let_def list_ex_iff)
  then show ?thesis using len subset_same_length [OF d(1,2)] subset_same_length [OF d(3,4)] by auto
qed

lemma topic_alist_key:
  "set (topic_alist (md_Brokers m) t) =
     (\<lambda>(i, b, e). (i, b, True, e)) ` set (map (part_key m) (tp_OkPartitions t)) \<union>
     (\<lambda>(i, b, e). (i, b, False, e)) ` set (map (part_key m) (tp_OutOfServicePartitions t))"
  by (auto simp: topic_alist_def part_view_def part_key_def image_iff)

lemma tagged_eqD:
  assumes "(\<lambda>(i, b, e). (i, b, True, e)) ` A \<union> (\<lambda>(i, b, e). (i, b, False, e)) ` B =
    (\<lambda>(i, b, e). (i, b, True, e)) ` A' \<union> (\<lambda>(i, b, e). (i, b, False, e)) ` B'"
  shows "A = A'" "B = B'"
proof -
  have in_union: "(i, b, f, e) \<in> (\<lambda>(i, b, e). (i, b, True, e)) ` X \<union> (\<lambda>(i, b, e). (i, b, False, e)) ` Y \<longleftrightarrow>
      (if f then (i, b, e) \<in> X else (i, b, e) \<in> Y)" for i b f e and X Y :: "('a \<times> 'b \<times> 'c) set"
    by (cases f) force+
  have "(i, b, e) \<in> A \<longleftrightarrow> (i, b, e) \<in> A'" for i b e
    using in_union [of i b True e A B] in_union [of i b True e A' B'] by (simp add: assms)
  moreover have "(i, b, e) \<in> B \<longleftrightarrow> (i, b, e) \<in> B'" for i b e
    using in_union [of i b False e A B] in_union [of i b False e A' B'] by (simp add: assms)
  ultimately show "A = A'" "B = B'" by auto
qed

lemma tagged_eq:
  "(\<lambda>(i, b, e). (i, b, True, e)) ` A \<union> (\<lambda>(i, b, e). (i, b, False, e)) ` B =
    (\<lambda>(i, b, e). (i, b, True, e)) ` A' \<union> (\<lambda>(i, b, e). (i, b, False, e)) ` B' \<longleftrightarrow> A = A' \<and> B = B'"
  by (metis tagged_eqD)

lemma SingleTopicCompare_view:
  assumes "parts_wf (length (md_Brokers m)) t" "parts_wf (length (md_Brokers that)) u"
  shows "SingleTopicCompare m that t u \<longleftrightarrow>
    map_of (topic_alist (md_Brokers m) t) = map_of (topic_alist (md_Brokers that) u)"
proof -
  have "map_of (topic_alist (md_Brokers m) t) = map_of (topic_alist (md_Brokers that) u) \<longleftrightarrow>
      set (topic_alist (md_Brokers m) t) = set (topic_alist (md_Brokers that) u)"
    using assms by (intro map_of_inject_set) (simp_all only: topic_alist_keys parts_wf_def)
  then show ?thesis
    unfolding SingleTopicCompare_iff [OF assms] topic_alist_key by (simp only: tagged_eq)
qed

lemma topics_view_names:
  assumes "names_wf names (length ts)"
  shows "dom (topics_view brokers names ts) = fst ` set names" "card (fst ` set names) = length ts"
proof -
  show "dom (topics_view brokers names ts) = fst ` set names"
    by (auto simp: topics_view_def dom_def) (metis map_of_eq_None_iff not_None_eq fst_conv image_eqI)+
  show "card (fst ` set names) = length ts"
    using assms unfolding names_wf_def
    by (metis diff_zero distinct_card length_map length_upt list.set_map)
qed

lemma CompareTopics_view:
  assumes "md_ok m" "md_ok that" "length (md_Topics m) = length (md_Topics that)"
  shows "CompareTopics m that \<longleftrightarrow> snd (md_abs m) = snd (md_abs that)"
proof -
  let ?n = "md_TopicNameToIndex m" and ?n' = "md_TopicNameToIndex that"
  let ?v = "topics_view (md_Brokers m) ?n (md_Topics m)"
  let ?v' = "topics_view (md_Brokers that) ?n' (md_Topics that)"
  have wf: "names_wf ?n (length (md_Topics m))" "names_wf ?n' (length (md_Topics that))"
    using assms by (simp_all add: md_ok_def)
  note dom = topics_view_names [OF wf(1)] topics_view_names [OF wf(2)]
  have one: "(case map_of ?n' x of None \<Rightarrow> False
      | Some j \<Rightarrow> SingleTopicCompare m that (md_Topics m ! i) (md_Topics that ! j)) \<longleftrightarrow> ?v' x = ?v x"
    if "(x, i) \<in> set ?n" for x i
  proof -
    have i: "map_of ?n x = Some i" using that wf(1) by (simp add: names_wf_def)
    have p: "parts_wf (length (md_Brokers m)) (md_Topics m ! i)"
      using names_wf_index [OF wf(1) i] assms(1) by (simp add: md_ok_def md_wf_def topic_wf_def)
    show ?thesis
    proof (cases "map_of ?n' x")
      case (Some j)
      then have "parts_wf (length (md_Brokers that)) (md_Topics that ! j)"
        using names_wf_index [OF wf(2) Some] assms(2) by (simp add: md_ok_def md_wf_def topic_wf_def)
      from SingleTopicCompare_view [OF p this] Some i show ?thesis by (auto simp: topics_view_def)
    qed (simp add: topics_view_def i)
  qed
  then have "CompareTopics m that \<longleftrightarrow> (\<forall>x \<in> dom ?v. ?v' x = ?v x)"
    unfolding dom(1) by (fastforce simp: CompareTopics_def list_all_iff)
  also have "\<dots> \<longleftrightarrow> ?v = ?v'"
  proof
    assume eq: "\<forall>x \<in> dom ?v. ?v' x = ?v x"
    then have "dom ?v \<subseteq> dom ?v'" by (metis domIff subsetI)
    then have "dom ?v = dom ?v'"
      using dom assms(3) by (metis List.finite_set card_subset_eq finite_imageI)
    with eq show "?v = ?v'" by (metis domIff ext)
  qed simp
  finally show ?thesis by (simp add: md_abs_def)
qed

section \<open>Brokers and sizes\<close>

text \<open>The flags of the brokers and the size of \<open>TopicBrokerVec\<close> depend on the topics only.\<close>

definition serves :: "(string \<rightharpoonup> (int \<rightharpoonup> partition_info)) \<Rightarrow> int \<Rightarrow> bool" where
  "serves v i \<longleftrightarrow> (\<exists>x ps pid err. v x = Some ps \<and> ps pid = Some (i, True, err))"

lemma topic_serves:
  assumes "parts_wf (length brokers) t" "distinct (map br_Id brokers)" "i < length brokers"
  shows "i \<in> pa_BrokerIndex ` set (tp_OkPartitions t) \<longleftrightarrow>
    (\<exists>pid err. map_of (topic_alist brokers t) pid = Some (br_Id (brokers ! i), True, err))"
  using topic_view_choices [OF assms] by (auto simp: set_eq_iff image_iff)

lemma in_service_iff:
  assumes "md_ok m" "i < length (md_Brokers m)"
  shows "br_InService (md_Brokers m ! i) \<longleftrightarrow> serves (snd (md_abs m)) (br_Id (md_Brokers m ! i))"
proof -
  let ?n = "md_TopicNameToIndex m" and ?ts = "md_Topics m" and ?br = "md_Brokers m"
  have wf: "md_wf ?br (md_TopicBrokerVec m) ?ts" "names_wf ?n (length ?ts)"
    using assms(1) by (simp_all add: md_ok_def)
  have "br_InService (?br ! i) \<longleftrightarrow> (\<exists>t \<in> set ?ts. i \<in> pa_BrokerIndex ` set (tp_OkPartitions t))"
    using wf(1) assms(2) by (simp add: md_wf_def)
  also have "\<dots> \<longleftrightarrow> (\<exists>k < length ?ts. i \<in> pa_BrokerIndex ` set (tp_OkPartitions (?ts ! k)))"
    unfolding Bex_def in_set_conv_nth by blast
  also have "\<dots> \<longleftrightarrow> (\<exists>k < length ?ts. \<exists>pid err. map_of (topic_alist ?br (?ts ! k)) pid = Some (br_Id (?br ! i), True, err))"
  proof -
    have "parts_wf (length ?br) (?ts ! k)" if "k < length ?ts" for k
      using wf(1) that by (simp add: md_wf_def topic_wf_def)
    moreover have "distinct (map br_Id ?br)" using wf(1) by (simp add: md_wf_def)
    ultimately show ?thesis using topic_serves [of ?br _ i] assms(2) by (simp cong: conj_cong)
  qed
  also have "\<dots> \<longleftrightarrow> serves (snd (md_abs m)) (br_Id (?br ! i))"
  proof -
    have name: "\<exists>x. map_of ?n x = Some k" if "k < length ?ts" for k
    proof -
      have "k \<in> set (map snd ?n)" using that wf(2) by (simp add: names_wf_def)
      then obtain x where "(x, k) \<in> set ?n" by auto
      moreover have "distinct (map fst ?n)" using wf(2) by (simp add: names_wf_def)
      ultimately show ?thesis by auto
    qed
    have serve: "serves (snd (md_abs m)) j \<longleftrightarrow>
        (\<exists>x k pid err. map_of ?n x = Some k \<and> map_of (topic_alist ?br (?ts ! k)) pid = Some (j, True, err))" for j
      by (auto simp: serves_def md_abs_def topics_view_def)
    show ?thesis
      unfolding serve
    proof (intro iffI; elim exE conjE)
      fix k pid err
      assume k: "k < length ?ts" "map_of (topic_alist ?br (?ts ! k)) pid = Some (br_Id (?br ! i), True, err)"
      from name [OF k(1)] k(2) show "\<exists>x k pid err. map_of ?n x = Some k \<and>
          map_of (topic_alist ?br (?ts ! k)) pid = Some (br_Id (?br ! i), True, err)" by blast
    next
      fix x k pid err
      assume "map_of ?n x = Some k" "map_of (topic_alist ?br (?ts ! k)) pid = Some (br_Id (?br ! i), True, err)"
      with names_wf_index [OF wf(2)] show "\<exists>k < length ?ts. \<exists>pid err.
          map_of (topic_alist ?br (?ts ! k)) pid = Some (br_Id (?br ! i), True, err)" by blast
    qed
  qed
  finally show ?thesis .
qed

lemma set_brokers:
  assumes "md_ok m"
  shows "set (md_Brokers m) =
    {b. fst (md_abs m) (br_Id b) = Some (br_Hostname b, br_Port b) \<and>
        (br_InService b \<longleftrightarrow> serves (snd (md_abs m)) (br_Id b))}"
proof -
  let ?f = "\<lambda>b :: TBroker. (br_Id b, (br_Hostname b, br_Port b))"
  have d: "distinct (map fst (map ?f (md_Brokers m)))"
    using assms by (simp add: md_ok_def md_wf_def comp_def)
  have view: "fst (md_abs m) x = Some y \<longleftrightarrow> (x, y) \<in> ?f ` set (md_Brokers m)" for x y
    using map_of_eq_Some_iff_distinct [OF d] by (simp add: md_abs_def broker_view_def)
  have svc: "br_InService b \<longleftrightarrow> serves (snd (md_abs m)) (br_Id b)" if "b \<in> set (md_Brokers m)" for b
    using that in_service_iff [OF assms] by (metis in_set_conv_nth)
  have "b \<in> set (md_Brokers m)"
    if "?f b \<in> ?f ` set (md_Brokers m)" "br_InService b \<longleftrightarrow> serves (snd (md_abs m)) (br_Id b)" for b :: TBroker
  proof -
    from that(1) obtain b' where b': "b' \<in> set (md_Brokers m)" "?f b' = ?f b" by auto
    with svc [OF b'(1)] that(2) have "br_InService b' = br_InService b" by simp
    with b'(2) have "b' = b" by (intro TBroker.equality) auto
    with b' show ?thesis by simp
  qed
  note member = this
  show ?thesis
  proof (intro equalityI subsetI CollectI)
    fix b :: TBroker
    assume b: "b \<in> set (md_Brokers m)"
    then have "?f b \<in> ?f ` set (md_Brokers m)" by (rule imageI)
    with b show "fst (md_abs m) (br_Id b) = Some (br_Hostname b, br_Port b) \<and>
        br_InService b = serves (snd (md_abs m)) (br_Id b)"
      unfolding view by (simp only: svc)
  next
    fix b :: TBroker
    assume "b \<in> {b. fst (md_abs m) (br_Id b) = Some (br_Hostname b, br_Port b) \<and>
        br_InService b = serves (snd (md_abs m)) (br_Id b)}"
    then show "b \<in> set (md_Brokers m)" unfolding view mem_Collect_eq by (intro member) auto
  qed
qed

lemma chunk_sizes:
  assumes "choices_wf vec t"
  shows "sum_list (map pc_TopicBrokerVecNumItems (vals (tp_PartitionChoiceMap t))) = length (tp_OkPartitions t)"
proof -
  let ?cm = "tp_PartitionChoiceMap t" and ?ok = "tp_OkPartitions t"
  have "pc_TopicBrokerVecNumItems c = length (filter (\<lambda>p. pa_BrokerIndex p = b) ?ok)"
    if "(b, c) \<in> set ?cm" for b c
  proof -
    have "chunk_of vec c = choice_ids t b"
      "pc_TopicBrokerVecIndex c + pc_TopicBrokerVecNumItems c \<le> length vec"
      using assms that by (auto simp: choices_wf_def)
    then have "pc_TopicBrokerVecNumItems c = length (choice_ids t b)"
      by (metis chunk_of_def length_take length_drop min.absorb2 add_le_imp_le_diff add.commute)
    then show ?thesis by (simp add: choice_ids_def)
  qed
  then have "sum_list (map pc_TopicBrokerVecNumItems (vals ?cm)) =
      sum_list (map (\<lambda>b. length (filter (\<lambda>p. pa_BrokerIndex p = b) ?ok)) (map fst ?cm))"
    by (auto simp: comp_def intro!: arg_cong [where f=sum_list] map_cong)
  also have "\<dots> = (\<Sum>b \<in> pa_BrokerIndex ` set ?ok. length (filter (\<lambda>p. pa_BrokerIndex p = b) ?ok))"
    using assms unfolding choices_wf_def by (metis (no_types, lifting) list.set_map sum_list_distinct_conv_sum_set)
  also have "\<dots> = length ?ok"
  proof -
    have "(\<Sum>b \<in> B. length (filter (\<lambda>p. pa_BrokerIndex p = b) ps)) = length ps"
      if "finite B" "pa_BrokerIndex ` set ps \<subseteq> B" for B and ps :: "TPartition list"
      using that
    proof (induction ps)
      case (Cons p ps)
      have "(\<Sum>b \<in> B. length (filter (\<lambda>q. pa_BrokerIndex q = b) (p # ps))) =
          (\<Sum>b \<in> B. (if b = pa_BrokerIndex p then 1 else 0) + length (filter (\<lambda>q. pa_BrokerIndex q = b) ps))"
        by (rule sum.cong) auto
      with Cons show ?case by (simp add: sum.distrib)
    qed simp
    then show ?thesis by simp
  qed
  finally show ?thesis .
qed

lemma tiles_sum: "tiles a cs z \<Longrightarrow> z = a + sum_list (map pc_TopicBrokerVecNumItems cs)"
proof (induction cs arbitrary: a)
  case (Cons c cs)
  from Cons.IH [of "a + pc_TopicBrokerVecNumItems c"] Cons.prems show ?case by simp
qed simp

lemma vec_size:
  assumes "md_ok m"
  shows "length (md_TopicBrokerVec m) = sum_list (map (\<lambda>t. length (tp_OkPartitions t)) (md_Topics m))"
proof -
  have "sum_list (map pc_TopicBrokerVecNumItems (all_chunks ts)) = sum_list (map (\<lambda>t. length (tp_OkPartitions t)) ts)"
    if "\<forall>t \<in> set ts. choices_wf (md_TopicBrokerVec m) t" for ts
    using that by (induction ts) (simp_all add: all_chunks_def comp_def
        chunk_sizes [of "md_TopicBrokerVec m", unfolded map_map comp_def])
  then show ?thesis
    using assms tiles_sum [of 0 "all_chunks (md_Topics m)" "length (md_TopicBrokerVec m)"]
    by (simp add: md_ok_def md_wf_def topic_wf_def)
qed

definition ok_count :: "(int \<rightharpoonup> partition_info) \<Rightarrow> nat" where
  "ok_count ps = card {pid. \<exists>b err. ps pid = Some (b, True, err)}"

lemma ok_count_topic:
  assumes "parts_wf n t"
  shows "ok_count (map_of (topic_alist brokers t)) = length (tp_OkPartitions t)"
proof -
  have keys: "distinct (map fst (topic_alist brokers t))"
    using assms by (simp only: topic_alist_keys parts_wf_def)
  have "{pid. \<exists>b err. map_of (topic_alist brokers t) pid = Some (b, True, err)} =
      set (map pa_Id (tp_OkPartitions t))"
    unfolding map_of_eq_Some_iff_distinct [OF keys]
    by (auto simp: topic_alist_def part_view_def image_iff)
  moreover have "distinct (map pa_Id (tp_OkPartitions t))" using assms by (simp add: parts_wf_def)
  ultimately show ?thesis by (simp only: ok_count_def distinct_card length_map)
qed

lemma vec_size_view:
  assumes "md_ok m"
  shows "length (md_TopicBrokerVec m) = (\<Sum>x \<in> dom (snd (md_abs m)). ok_count (the (snd (md_abs m) x)))"
proof -
  let ?n = "md_TopicNameToIndex m" and ?ts = "md_Topics m" and ?v = "snd (md_abs m)"
  have names: "names_wf ?n (length ?ts)" using assms by (simp add: md_ok_def)
  then have d: "distinct (map fst ?n)" "map snd ?n = [0..<length ?ts]" by (simp_all add: names_wf_def)
  have "ok_count (the (?v (fst e))) = length (tp_OkPartitions (?ts ! snd e))" if e: "e \<in> set ?n" for e
  proof -
    have i: "map_of ?n (fst e) = Some (snd e)" using e d(1) by simp
    have "parts_wf (length (md_Brokers m)) (?ts ! snd e)"
      using names_wf_index [OF names i] assms by (simp add: md_ok_def md_wf_def topic_wf_def)
    then show ?thesis using i by (simp add: md_abs_def topics_view_def ok_count_topic)
  qed
  then have "map (\<lambda>x. ok_count (the (?v x))) (map fst ?n) =
      map (\<lambda>i. length (tp_OkPartitions (?ts ! i))) (map snd ?n)"
    by simp
  also have "\<dots> = map (\<lambda>t. length (tp_OkPartitions t)) ?ts"
    unfolding d(2) by (rule nth_equalityI) simp_all
  finally have "sum_list (map (\<lambda>x. ok_count (the (?v x))) (map fst ?n)) =
      length (md_TopicBrokerVec m)"
    using vec_size [OF assms] by simp
  then show ?thesis
    using sum_list_distinct_conv_sum_set [OF d(1), of "\<lambda>x. ok_count (the (?v x))"]
      topics_view_names(1) [OF names, of "md_Brokers m"] by (simp add: md_abs_def)
qed

lemma metadata_eq_abs:
  assumes "md_ok m" "md_ok that"
  shows "metadata_eq m that \<longleftrightarrow> md_abs m = md_abs that"
proof
  have d: "distinct (md_Brokers m)" "distinct (md_Brokers that)"
    using assms unfolding md_ok_def md_wf_def by (metis distinct_map)+
  {
    assume eq: "metadata_eq m that"
    then have len: "length (md_Brokers m) = length (md_Brokers that)" "length (md_Topics m) = length (md_Topics that)"
      and sub: "set (md_Brokers that) \<subseteq> set (md_Brokers m)" and topics: "CompareTopics m that"
      by (auto simp: metadata_eq_def CompareBrokers_def list_all_iff split: if_splits)
    have set: "set (md_Brokers that) = set (md_Brokers m)"
      using subset_same_length [OF d len(1) sub] .
    have "broker_view (md_Brokers that) = broker_view (md_Brokers m)"
      unfolding broker_view_def using assms set
      by (intro map_of_inject_set [THEN iffD2]) (simp_all add: md_ok_def md_wf_def comp_def)
    with CompareTopics_view [OF assms len(2)] topics show "md_abs m = md_abs that"
      by (simp add: md_abs_def)
  next
    assume eq: "md_abs m = md_abs that"
    then have set: "set (md_Brokers m) = set (md_Brokers that)"
      using set_brokers [OF assms(1)] set_brokers [OF assms(2)] by simp
    then have "length (md_Brokers m) = length (md_Brokers that)" using d by (metis distinct_card)
    moreover have "length (md_TopicBrokerVec m) = length (md_TopicBrokerVec that)"
      using vec_size_view [OF assms(1)] vec_size_view [OF assms(2)] eq by simp
    moreover have topics: "length (md_Topics m) = length (md_Topics that)"
    proof -
      have "names_wf (md_TopicNameToIndex m) (length (md_Topics m))"
        "names_wf (md_TopicNameToIndex that) (length (md_Topics that))"
        using assms by (simp_all add: md_ok_def)
      from topics_view_names(1) [OF this(1), of "md_Brokers m"] topics_view_names(2) [OF this(1)]
        topics_view_names(1) [OF this(2), of "md_Brokers that"] topics_view_names(2) [OF this(2)] eq
      show ?thesis by (simp add: md_abs_def)
    qed
    moreover have "CompareTopics m that" using CompareTopics_view [OF assms topics] eq by simp
    moreover have "CompareBrokers m that" using set by (simp add: CompareBrokers_def list_all_iff)
    ultimately show "metadata_eq m that" by (simp add: metadata_eq_def)
  }
qed

text \<open>
  C23. On metadata from the builder, \<open>operator==\<close> decides whether the two describe the same brokers
  and the same topics, however the calls were ordered and whatever order the brokers and partitions
  are stored in.
\<close>

theorem metadata_eq_decides:
  assumes "is_built cs m" "is_built cs' m'"
  shows "metadata_eq m m' \<longleftrightarrow>
    sp_brokers (spec_run cs) = sp_brokers (spec_run cs') \<and> sp_topics (spec_run cs) = sp_topics (spec_run cs')"
  using metadata_eq_abs [OF is_built_ok(1) [OF assms(1)] is_built_ok(1) [OF assms(2)]]
    is_built_ok(2) [OF assms(1)] is_built_ok(2) [OF assms(2)] by simp

theorem metadata_eq_decides_witness:
  "is_built ex_calls (fst (mb_Build ex_reorder ex_builder)) \<and> is_built [] (fst (mb_Build ex_reorder (new_TMetaBuilder (\<lambda>_. 0)))) \<and>
   \<not> metadata_eq (fst (mb_Build ex_reorder ex_builder)) (fst (mb_Build ex_reorder (new_TMetaBuilder (\<lambda>_. 0))))"
proof -
  have "mb_State ex_builder \<in> {MInitial, AddingTopics}" by code_simp
  then have b: "is_built ex_calls (fst (mb_Build ex_reorder ex_builder))"
    using ex_builder_run ex_reorder_ok unfolding is_built_def by blast
  have "mb_State (new_TMetaBuilder (\<lambda>_. 0)) \<in> {MInitial, AddingTopics}" by code_simp
  then have e: "is_built [] (fst (mb_Build ex_reorder (new_TMetaBuilder (\<lambda>_. 0))))"
    using run_start ex_reorder_ok unfolding is_built_def by blast
  have "sp_brokers (spec_run ex_calls) 5 \<noteq> sp_brokers (spec_run []) 5" by code_simp
  then have "sp_brokers (spec_run ex_calls) \<noteq> sp_brokers (spec_run [])" by metis
  with metadata_eq_decides [OF b e] b e show ?thesis by simp
qed

end
