(* ===== verification/Metadata_Response_Reader.thy ===== *)
theory Metadata_Response_Reader
  imports Field_Access
begin

text \<open>
  The reader of Kafka metadata responses,
  \<open>src/dory/kafka_proto/metadata/v0/metadata_response_reader.{h,cc}\<close> with the field layout of
  \<open>metadata_response_fields.h\<close>.

  The response is a byte list.  Values of type \<open>size_t\<close> are integers, and sums that involve a length
  from the response wrap at 64 bits, as a length is an \<open>int16_t\<close> that has been converted to
  \<open>size_t\<close>.  An exception carries the name of the counter that is incremented where it is thrown.
  The item counters are decremented only when positive, as the code asserts.
\<close>

section \<open>Field layout\<close>

definition MR_STRING_SIZE_FIELD_SIZE :: int where "MR_STRING_SIZE_FIELD_SIZE = 2"
definition MR_CORRELATION_ID_SIZE :: int where "MR_CORRELATION_ID_SIZE = 4"
definition MR_BROKER_COUNT_SIZE :: int where "MR_BROKER_COUNT_SIZE = 4"
definition MR_BROKER_NODE_ID_SIZE :: int where "MR_BROKER_NODE_ID_SIZE = 4"
definition MR_BROKER_HOST_LENGTH_SIZE :: int where
  "MR_BROKER_HOST_LENGTH_SIZE = MR_STRING_SIZE_FIELD_SIZE"
definition MR_BROKER_PORT_SIZE :: int where "MR_BROKER_PORT_SIZE = 4"
definition MR_TOPIC_COUNT_SIZE :: int where "MR_TOPIC_COUNT_SIZE = 4"
definition MR_TOPIC_ERROR_CODE_SIZE :: int where "MR_TOPIC_ERROR_CODE_SIZE = 2"
definition MR_TOPIC_NAME_LENGTH_SIZE :: int where
  "MR_TOPIC_NAME_LENGTH_SIZE = MR_STRING_SIZE_FIELD_SIZE"
definition MR_PARTITION_COUNT_SIZE :: int where "MR_PARTITION_COUNT_SIZE = 4"
definition MR_PARTITION_ERROR_CODE_SIZE :: int where "MR_PARTITION_ERROR_CODE_SIZE = 2"
definition MR_PARTITION_ID_SIZE :: int where "MR_PARTITION_ID_SIZE = 4"
definition MR_LEADER_NODE_ID_SIZE :: int where "MR_LEADER_NODE_ID_SIZE = 4"
definition MR_REPLICA_COUNT_SIZE :: int where "MR_REPLICA_COUNT_SIZE = 4"
definition MR_REPLICA_NODE_ID_SIZE :: int where "MR_REPLICA_NODE_ID_SIZE = 4"
definition MR_CAUGHT_UP_REPLICA_COUNT_SIZE :: int where "MR_CAUGHT_UP_REPLICA_COUNT_SIZE = 4"
definition MR_CAUGHT_UP_REPLICA_NODE_ID_SIZE :: int where "MR_CAUGHT_UP_REPLICA_NODE_ID_SIZE = 4"

definition MR_RESPONSE_SIZE_OFFSET :: int where "MR_RESPONSE_SIZE_OFFSET = 0"
definition MR_CORRELATION_ID_OFFSET :: int where
  "MR_CORRELATION_ID_OFFSET = MR_RESPONSE_SIZE_OFFSET + int REQUEST_OR_RESPONSE_SIZE_SIZE"
definition MR_BROKER_COUNT_OFFSET :: int where
  "MR_BROKER_COUNT_OFFSET = MR_CORRELATION_ID_OFFSET + MR_CORRELATION_ID_SIZE"
definition MR_BROKER_LIST_OFFSET :: int where
  "MR_BROKER_LIST_OFFSET = MR_BROKER_COUNT_OFFSET + MR_BROKER_COUNT_SIZE"
definition MR_REL_BROKER_NODE_ID_OFFSET :: int where "MR_REL_BROKER_NODE_ID_OFFSET = 0"
definition MR_REL_BROKER_HOST_LENGTH_OFFSET :: int where
  "MR_REL_BROKER_HOST_LENGTH_OFFSET = MR_REL_BROKER_NODE_ID_OFFSET + MR_BROKER_NODE_ID_SIZE"
definition MR_REL_BROKER_HOST_OFFSET :: int where
  "MR_REL_BROKER_HOST_OFFSET = MR_REL_BROKER_HOST_LENGTH_OFFSET + MR_BROKER_HOST_LENGTH_SIZE"
definition MR_REL_TOPIC_COUNT_OFFSET :: int where "MR_REL_TOPIC_COUNT_OFFSET = 0"
definition MR_REL_TOPIC_ERROR_CODE_OFFSET :: int where "MR_REL_TOPIC_ERROR_CODE_OFFSET = 0"
definition MR_REL_TOPIC_NAME_LENGTH_OFFSET :: int where
  "MR_REL_TOPIC_NAME_LENGTH_OFFSET = MR_REL_TOPIC_ERROR_CODE_OFFSET + MR_TOPIC_ERROR_CODE_SIZE"
definition MR_REL_TOPIC_NAME_OFFSET :: int where
  "MR_REL_TOPIC_NAME_OFFSET = MR_REL_TOPIC_NAME_LENGTH_OFFSET + MR_TOPIC_NAME_LENGTH_SIZE"
definition MR_REL_PARTITION_ERROR_CODE_OFFSET :: int where "MR_REL_PARTITION_ERROR_CODE_OFFSET = 0"
definition MR_REL_PARTITION_ID_OFFSET :: int where
  "MR_REL_PARTITION_ID_OFFSET = MR_REL_PARTITION_ERROR_CODE_OFFSET + MR_PARTITION_ERROR_CODE_SIZE"
definition MR_REL_LEADER_NODE_ID_OFFSET :: int where
  "MR_REL_LEADER_NODE_ID_OFFSET = MR_REL_PARTITION_ID_OFFSET + MR_PARTITION_ID_SIZE"
definition MR_REL_REPLICA_COUNT_OFFSET :: int where
  "MR_REL_REPLICA_COUNT_OFFSET = MR_REL_LEADER_NODE_ID_OFFSET + MR_LEADER_NODE_ID_SIZE"

text \<open>\<open>size_t\<close> arithmetic.\<close>

definition u64 :: "int \<Rightarrow> int" where
  "u64 x = x mod 2 ^ 64"

definition BrokerListItemSize :: "int \<Rightarrow> int" where
  "BrokerListItemSize host_length =
     u64 (MR_BROKER_NODE_ID_SIZE + MR_BROKER_HOST_LENGTH_SIZE + host_length + MR_BROKER_PORT_SIZE)"

definition RelBrokerPortOffset :: "int \<Rightarrow> int" where
  "RelBrokerPortOffset host_length = u64 (MR_REL_BROKER_HOST_OFFSET + host_length)"

definition RelPartitionCountOffset :: "int \<Rightarrow> int" where
  "RelPartitionCountOffset name_length = u64 (MR_REL_TOPIC_NAME_OFFSET + name_length)"

lemmas meta_consts =
  MR_STRING_SIZE_FIELD_SIZE_def MR_CORRELATION_ID_SIZE_def MR_BROKER_COUNT_SIZE_def
  MR_BROKER_NODE_ID_SIZE_def MR_BROKER_HOST_LENGTH_SIZE_def MR_BROKER_PORT_SIZE_def
  MR_TOPIC_COUNT_SIZE_def MR_TOPIC_ERROR_CODE_SIZE_def MR_TOPIC_NAME_LENGTH_SIZE_def
  MR_PARTITION_COUNT_SIZE_def MR_PARTITION_ERROR_CODE_SIZE_def MR_PARTITION_ID_SIZE_def
  MR_LEADER_NODE_ID_SIZE_def MR_REPLICA_COUNT_SIZE_def MR_REPLICA_NODE_ID_SIZE_def
  MR_CAUGHT_UP_REPLICA_COUNT_SIZE_def MR_CAUGHT_UP_REPLICA_NODE_ID_SIZE_def
  MR_RESPONSE_SIZE_OFFSET_def MR_CORRELATION_ID_OFFSET_def MR_BROKER_COUNT_OFFSET_def
  MR_BROKER_LIST_OFFSET_def MR_REL_BROKER_NODE_ID_OFFSET_def MR_REL_BROKER_HOST_LENGTH_OFFSET_def
  MR_REL_BROKER_HOST_OFFSET_def MR_REL_TOPIC_COUNT_OFFSET_def MR_REL_TOPIC_ERROR_CODE_OFFSET_def
  MR_REL_TOPIC_NAME_LENGTH_OFFSET_def MR_REL_TOPIC_NAME_OFFSET_def
  MR_REL_PARTITION_ERROR_CODE_OFFSET_def MR_REL_PARTITION_ID_OFFSET_def
  MR_REL_LEADER_NODE_ID_OFFSET_def MR_REL_REPLICA_COUNT_OFFSET_def REQUEST_OR_RESPONSE_SIZE_SIZE_def

section \<open>The reader\<close>

datatype TMetaError =
    TNegativeBrokerCount | TIncompleteMetadataResponse | TBadBrokerHostLen | TNegativeBrokerNodeId
  | TBadBrokerPort | TNegativeTopicCount | TBadMetaTopicNameLen | TNegativePartitionCount
  | TNegativePartitionId | TInvalidLeaderNodeId | TNegativePartitionReplicaCount
  | TNegativeReplicaNodeId | TNegativePartitionCaughtUpReplicaCount | TNegativeCaughtUpReplicaNodeId

type_synonym 'a meta_result = "(TMetaError \<times> string) fault + 'a"

definition throw_counted :: "string \<Rightarrow> TMetaError \<Rightarrow> 'a meta_result" where
  "throw_counted counter e = Inl (Thrown (e, counter))"

datatype TMetaReaderState =
  MRInitial | InBrokerList | InTopicList | InPartitionList | InReplicaList | InCaughtUpReplicaList

fun st_num :: "TMetaReaderState \<Rightarrow> nat" where
  "st_num MRInitial = 0"
| "st_num InBrokerList = 1"
| "st_num InTopicList = 2"
| "st_num InPartitionList = 3"
| "st_num InReplicaList = 4"
| "st_num InCaughtUpReplicaList = 5"

record TMetadataResponseReader =
  mr_State :: TMetaReaderState
  mr_BrokersLeft :: nat
  mr_CurrentBrokerOffset :: int
  mr_CurrentBrokerHostLength :: int
  mr_TopicsLeft :: nat
  mr_CurrentTopicOffset :: int
  mr_CurrentTopicNameLength :: int
  mr_PartitionsLeftInTopic :: nat
  mr_CurrentPartitionOffset :: int
  mr_ReplicasLeftInPartition :: nat
  mr_CurrentReplicaOffset :: int
  mr_CaughtUpReplicasLeftInPartition :: nat
  mr_CurrentCaughtUpReplicaOffset :: int

definition new_TMetadataResponseReader :: TMetadataResponseReader where
  "new_TMetadataResponseReader = \<lparr>mr_State = MRInitial, mr_BrokersLeft = 0, mr_CurrentBrokerOffset = 0,
     mr_CurrentBrokerHostLength = 0, mr_TopicsLeft = 0, mr_CurrentTopicOffset = 0,
     mr_CurrentTopicNameLength = 0, mr_PartitionsLeftInTopic = 0, mr_CurrentPartitionOffset = 0,
     mr_ReplicasLeftInPartition = 0, mr_CurrentReplicaOffset = 0,
     mr_CaughtUpReplicasLeftInPartition = 0, mr_CurrentCaughtUpReplicaOffset = 0\<rparr>"

definition mr_MinSize :: int where
  "mr_MinSize = int REQUEST_OR_RESPONSE_SIZE_SIZE + MR_CORRELATION_ID_SIZE + MR_BROKER_COUNT_SIZE +
     MR_TOPIC_COUNT_SIZE"

definition mr_BrokerSize :: "int \<Rightarrow> int" where
  "mr_BrokerSize host_length = u64 (RelBrokerPortOffset host_length + MR_BROKER_PORT_SIZE)"

definition mr_ClearStateVariables :: "TMetadataResponseReader \<Rightarrow> TMetadataResponseReader" where
  "mr_ClearStateVariables r =
     (let s = st_num (mr_State r);
          r = (if s \<le> 0 then r\<lparr>mr_BrokersLeft := 0, mr_CurrentBrokerOffset := 0,
                 mr_CurrentBrokerHostLength := 0\<rparr> else r);
          r = (if s \<le> 1 then r\<lparr>mr_TopicsLeft := 0, mr_CurrentTopicOffset := 0,
                 mr_CurrentTopicNameLength := 0\<rparr> else r);
          r = (if s \<le> 2 then r\<lparr>mr_PartitionsLeftInTopic := 0, mr_CurrentPartitionOffset := 0\<rparr> else r);
          r = (if s \<le> 3 then r\<lparr>mr_ReplicasLeftInPartition := 0, mr_CurrentReplicaOffset := 0\<rparr> else r)
      in if s \<le> 4 then r\<lparr>mr_CaughtUpReplicasLeftInPartition := 0, mr_CurrentCaughtUpReplicaOffset := 0\<rparr>
         else r)"

definition space_after :: "byte list \<Rightarrow> int \<Rightarrow> int" where
  "space_after mem offset = u64 (int (length mem) - offset)"

subsection \<open>Brokers\<close>

definition mr_GetCorrelationId :: "byte list \<Rightarrow> int meta_result" where
  "mr_GetCorrelationId mem = ReadInt32FromHeader mem MR_CORRELATION_ID_OFFSET"

definition mr_GetBrokerCount :: "byte list \<Rightarrow> nat meta_result" where
  "mr_GetBrokerCount mem =
     bindF (ReadInt32FromHeader mem MR_BROKER_COUNT_OFFSET) (\<lambda>n.
     if n < 0 then throw_counted ''MetadataResponseNegativeBrokerCount'' TNegativeBrokerCount
     else Inr (nat n))"

definition mr_InitBroker :: "byte list \<Rightarrow> TMetadataResponseReader \<Rightarrow> (bool \<times> TMetadataResponseReader) meta_result" where
  "mr_InitBroker mem r =
     (let r = r\<lparr>mr_CurrentBrokerHostLength := 0\<rparr>
      in if mr_BrokersLeft r = 0 then Inr (False, r)
         else
           let broker_space = space_after mem (mr_CurrentBrokerOffset r)
           in if broker_space < MR_REL_BROKER_HOST_LENGTH_OFFSET + MR_BROKER_HOST_LENGTH_SIZE
              then throw_counted ''MetadataResponseIncomplete4'' TIncompleteMetadataResponse
              else bindF (ReadInt16FromHeader mem
                            (mr_CurrentBrokerOffset r + MR_REL_BROKER_HOST_LENGTH_OFFSET)) (\<lambda>len.
                if u64 len < 1 then throw_counted ''MetadataResponseBadBrokerHostLen'' TBadBrokerHostLen
                else if broker_space < mr_BrokerSize (u64 len)
                then throw_counted ''MetadataResponseIncomplete5'' TIncompleteMetadataResponse
                else Inr (True, r\<lparr>mr_CurrentBrokerHostLength := u64 len\<rparr>)))"

definition mr_FirstBroker :: "byte list \<Rightarrow> TMetadataResponseReader \<Rightarrow> (bool \<times> TMetadataResponseReader) meta_result" where
  "mr_FirstBroker mem r =
     (if int (length mem) < mr_MinSize
      then throw_counted ''MetadataResponseIncomplete1'' TIncompleteMetadataResponse
      else bindF (mr_GetBrokerCount mem) (\<lambda>n.
        mr_InitBroker mem (mr_ClearStateVariables
          (r\<lparr>mr_State := InBrokerList, mr_BrokersLeft := n,
             mr_CurrentBrokerOffset := MR_BROKER_LIST_OFFSET\<rparr>))))"

definition mr_NextBroker :: "byte list \<Rightarrow> TMetadataResponseReader \<Rightarrow> (bool \<times> TMetadataResponseReader) meta_result" where
  "mr_NextBroker mem r =
     (if mr_State r = MRInitial then mr_FirstBroker mem r
      else mr_InitBroker mem
        (r\<lparr>mr_BrokersLeft := mr_BrokersLeft r - 1,
           mr_CurrentBrokerOffset :=
             u64 (mr_CurrentBrokerOffset r + mr_BrokerSize (mr_CurrentBrokerHostLength r))\<rparr>))"

lemma InitBroker_keeps:
  "mr_InitBroker mem r = Inr (ok, r') \<Longrightarrow>
   mr_State r' = mr_State r \<and> mr_BrokersLeft r' = mr_BrokersLeft r \<and>
   mr_CurrentBrokerOffset r' = mr_CurrentBrokerOffset r \<and>
   mr_TopicsLeft r' = mr_TopicsLeft r \<and> (ok \<longleftrightarrow> 0 < mr_BrokersLeft r)"
  by (auto simp: mr_InitBroker_def Let_def bindF_eq_Inr throw_counted_def split: if_splits)

lemma NextBroker_progress:
  assumes "mr_NextBroker mem r = Inr (ok, r')"
  shows "mr_State r' \<noteq> MRInitial"
    and "mr_State r \<noteq> MRInitial \<Longrightarrow> mr_State r' = mr_State r \<and> mr_BrokersLeft r' = mr_BrokersLeft r - 1"
    and "ok \<longleftrightarrow> 0 < mr_BrokersLeft r'"
  using assms
  by (auto simp: mr_NextBroker_def mr_FirstBroker_def bindF_eq_Inr throw_counted_def
      mr_ClearStateVariables_def Let_def split: if_splits dest!: InitBroker_keeps)

text \<open>The loop of \<open>SkipRemainingBrokers\<close>.\<close>

function mr_skip_brokers :: "byte list \<Rightarrow> TMetadataResponseReader \<Rightarrow> TMetadataResponseReader meta_result" where
  "mr_skip_brokers mem r =
     (if mr_BrokersLeft r = 0 then Inr r
      else bindF (mr_NextBroker mem r) (\<lambda>(_, r'). mr_skip_brokers mem r'))"
  by pat_completeness auto
termination
proof (relation "measures [\<lambda>(mem, r). if mr_State r = MRInitial then 1 else 0, \<lambda>(mem, r). mr_BrokersLeft r]")
  fix mem r x ok r'
  assume "mr_BrokersLeft r \<noteq> 0" "mr_NextBroker mem r = Inr x" "(ok, r') = x"
  with NextBroker_progress [of mem r ok r']
  show "((mem, r'), (mem, r)) \<in> measures [\<lambda>(mem, r). if mr_State r = MRInitial then 1 else 0, \<lambda>(mem, r). mr_BrokersLeft r]"
    by auto
qed auto

declare mr_skip_brokers.simps [simp del]

definition mr_SkipRemainingBrokers :: "byte list \<Rightarrow> TMetadataResponseReader \<Rightarrow> TMetadataResponseReader meta_result" where
  "mr_SkipRemainingBrokers mem r =
     (if mr_State r = MRInitial
      then bindF (mr_FirstBroker mem r) (\<lambda>(ok, r). if \<not> ok then Inr r else mr_skip_brokers mem r)
      else mr_skip_brokers mem r)"

definition mr_GetCurrentBrokerNodeId :: "byte list \<Rightarrow> TMetadataResponseReader \<Rightarrow> int meta_result" where
  "mr_GetCurrentBrokerNodeId mem r =
     bindF (ReadInt32FromHeader mem (mr_CurrentBrokerOffset r + MR_REL_BROKER_NODE_ID_OFFSET)) (\<lambda>result.
     if result < 0 then throw_counted ''MetadataResponseNegativeBrokerNodeId'' TNegativeBrokerNodeId
     else Inr result)"

text \<open>The host name between \<open>GetCurrentBrokerHostBegin\<close> and \<open>GetCurrentBrokerHostEnd\<close>.\<close>

definition mr_GetCurrentBrokerHost :: "byte list \<Rightarrow> TMetadataResponseReader \<Rightarrow> byte list meta_result" where
  "mr_GetCurrentBrokerHost mem r =
     (let b = mr_CurrentBrokerOffset r + MR_REL_BROKER_HOST_OFFSET
      in mem_range mem b (u64 (b + mr_CurrentBrokerHostLength r)))"

definition mr_GetCurrentBrokerPort :: "byte list \<Rightarrow> TMetadataResponseReader \<Rightarrow> int meta_result" where
  "mr_GetCurrentBrokerPort mem r =
     bindF (ReadInt32FromHeader mem
              (u64 (mr_CurrentBrokerOffset r + RelBrokerPortOffset (mr_CurrentBrokerHostLength r)))) (\<lambda>port.
     if port < 0 \<or> port > 65535 then throw_counted ''MetadataResponseBadBrokerPort'' TBadBrokerPort
     else Inr port)"

subsection \<open>Replicas\<close>

definition mr_GetCurrentPartitionReplicaCount :: "byte list \<Rightarrow> TMetadataResponseReader \<Rightarrow> nat meta_result" where
  "mr_GetCurrentPartitionReplicaCount mem r =
     bindF (ReadInt32FromHeader mem (mr_CurrentPartitionOffset r + MR_REL_REPLICA_COUNT_OFFSET)) (\<lambda>n.
     if n < 0 then throw_counted ''MetadataResponseNegativePartitionReplicaCount'' TNegativePartitionReplicaCount
     else Inr (nat n))"

definition mr_InitReplica :: "byte list \<Rightarrow> TMetadataResponseReader \<Rightarrow> (bool \<times> TMetadataResponseReader) meta_result" where
  "mr_InitReplica mem r =
     (if mr_ReplicasLeftInPartition r = 0 then Inr (False, r)
      else if space_after mem (mr_CurrentReplicaOffset r) < MR_REPLICA_NODE_ID_SIZE
      then throw_counted ''MetadataResponseIncomplete9'' TIncompleteMetadataResponse
      else Inr (True, r))"

definition mr_FirstReplicaInPartition ::
  "byte list \<Rightarrow> TMetadataResponseReader \<Rightarrow> (bool \<times> TMetadataResponseReader) meta_result" where
  "mr_FirstReplicaInPartition mem r =
     bindF (mr_GetCurrentPartitionReplicaCount mem r) (\<lambda>n.
     mr_InitReplica mem (mr_ClearStateVariables
       (r\<lparr>mr_ReplicasLeftInPartition := n, mr_State := InReplicaList,
          mr_CurrentReplicaOffset :=
            mr_CurrentPartitionOffset r + MR_REL_REPLICA_COUNT_OFFSET + MR_REPLICA_COUNT_SIZE\<rparr>)))"

definition mr_NextReplicaInPartition ::
  "byte list \<Rightarrow> TMetadataResponseReader \<Rightarrow> (bool \<times> TMetadataResponseReader) meta_result" where
  "mr_NextReplicaInPartition mem r =
     (if mr_State r = InPartitionList then mr_FirstReplicaInPartition mem r
      else mr_InitReplica mem
        (r\<lparr>mr_ReplicasLeftInPartition := mr_ReplicasLeftInPartition r - 1,
           mr_CurrentReplicaOffset := mr_CurrentReplicaOffset r + MR_REPLICA_NODE_ID_SIZE\<rparr>))"

text \<open>What the operations on replicas leave alone.\<close>

definition same_partition :: "TMetadataResponseReader \<Rightarrow> TMetadataResponseReader \<Rightarrow> bool" where
  "same_partition r r' \<longleftrightarrow>
     mr_BrokersLeft r' = mr_BrokersLeft r \<and> mr_CurrentBrokerOffset r' = mr_CurrentBrokerOffset r \<and>
     mr_CurrentBrokerHostLength r' = mr_CurrentBrokerHostLength r \<and>
     mr_TopicsLeft r' = mr_TopicsLeft r \<and> mr_CurrentTopicOffset r' = mr_CurrentTopicOffset r \<and>
     mr_CurrentTopicNameLength r' = mr_CurrentTopicNameLength r \<and>
     mr_PartitionsLeftInTopic r' = mr_PartitionsLeftInTopic r \<and>
     mr_CurrentPartitionOffset r' = mr_CurrentPartitionOffset r"

lemma same_partition_refl [simp]: "same_partition r r"
  by (simp add: same_partition_def)

lemma same_partition_trans: "same_partition r r1 \<Longrightarrow> same_partition r1 r2 \<Longrightarrow> same_partition r r2"
  by (simp add: same_partition_def)

lemma FirstReplica_progress:
  assumes "mr_FirstReplicaInPartition mem r = Inr (ok, r')"
  shows "mr_State r' = InReplicaList" "same_partition r r'" "ok \<longleftrightarrow> 0 < mr_ReplicasLeftInPartition r'"
  using assms
  by (auto simp: mr_FirstReplicaInPartition_def mr_InitReplica_def bindF_eq_Inr throw_counted_def
      mr_ClearStateVariables_def Let_def same_partition_def split: if_splits)

lemma NextReplica_progress:
  assumes "mr_NextReplicaInPartition mem r = Inr (ok, r')"
  shows "mr_State r' \<noteq> InPartitionList" "same_partition r r'"
    and "mr_State r \<noteq> InPartitionList \<Longrightarrow>
      mr_State r' = mr_State r \<and> mr_ReplicasLeftInPartition r' = mr_ReplicasLeftInPartition r - 1"
  using assms
  by (auto simp: mr_NextReplicaInPartition_def mr_InitReplica_def throw_counted_def same_partition_def
      split: if_splits dest: FirstReplica_progress)

function mr_skip_replicas :: "byte list \<Rightarrow> TMetadataResponseReader \<Rightarrow> TMetadataResponseReader meta_result" where
  "mr_skip_replicas mem r =
     (if mr_ReplicasLeftInPartition r = 0 then Inr r
      else bindF (mr_NextReplicaInPartition mem r) (\<lambda>(_, r'). mr_skip_replicas mem r'))"
  by pat_completeness auto
termination
proof (relation "measures [\<lambda>(mem, r). if mr_State r = InPartitionList then 1 else 0,
    \<lambda>(mem, r). mr_ReplicasLeftInPartition r]")
  fix mem r x ok r'
  assume "mr_ReplicasLeftInPartition r \<noteq> 0" "mr_NextReplicaInPartition mem r = Inr x" "(ok, r') = x"
  with NextReplica_progress [of mem r ok r']
  show "((mem, r'), (mem, r)) \<in> measures [\<lambda>(mem, r). if mr_State r = InPartitionList then 1 else 0,
      \<lambda>(mem, r). mr_ReplicasLeftInPartition r]"
    by auto
qed auto

declare mr_skip_replicas.simps [simp del]

definition mr_SkipRemainingReplicas :: "byte list \<Rightarrow> TMetadataResponseReader \<Rightarrow> TMetadataResponseReader meta_result" where
  "mr_SkipRemainingReplicas mem r =
     (if mr_State r = InPartitionList
      then bindF (mr_FirstReplicaInPartition mem r) (\<lambda>(ok, r). if \<not> ok then Inr r else mr_skip_replicas mem r)
      else mr_skip_replicas mem r)"

definition mr_GetCurrentReplicaNodeId :: "byte list \<Rightarrow> TMetadataResponseReader \<Rightarrow> int meta_result" where
  "mr_GetCurrentReplicaNodeId mem r =
     bindF (ReadInt32FromHeader mem (mr_CurrentReplicaOffset r)) (\<lambda>i.
     if i < 0 then throw_counted ''MetadataResponseNegativeReplicaNodeId'' TNegativeReplicaNodeId
     else Inr i)"

lemma skip_replicas_keeps:
  "mr_skip_replicas mem r = Inr r' \<Longrightarrow> mr_State r \<noteq> InPartitionList \<Longrightarrow>
   same_partition r r' \<and> mr_State r' = mr_State r \<and> mr_ReplicasLeftInPartition r' = 0"
proof (induction mem r rule: mr_skip_replicas.induct)
  case (1 mem r)
  show ?case
  proof (cases "mr_ReplicasLeftInPartition r = 0")
    case True
    then show ?thesis using "1.prems" by (simp add: mr_skip_replicas.simps)
  next
    case False
    with "1.prems"(1) obtain ok r1 where r1: "mr_NextReplicaInPartition mem r = Inr (ok, r1)"
        "mr_skip_replicas mem r1 = Inr r'"
      by (subst (asm) mr_skip_replicas.simps) (auto simp: bindF_eq_Inr)
    note p = NextReplica_progress [OF r1(1)]
    from "1.IH" [OF False r1(1) refl r1(2) p(1)] p(2) p(3) [OF "1.prems"(2)]
    show ?thesis by (auto intro: same_partition_trans)
  qed
qed

lemma SkipRemainingReplicas_keeps:
  assumes "mr_SkipRemainingReplicas mem r = Inr r'"
  shows "same_partition r r' \<and> mr_ReplicasLeftInPartition r' = 0 \<and>
    mr_State r' = (if mr_State r = InPartitionList then InReplicaList else mr_State r)"
proof (cases "mr_State r = InPartitionList")
  case True
  with assms obtain ok r1 where r1: "mr_FirstReplicaInPartition mem r = Inr (ok, r1)"
    "(if \<not> ok then Inr r1 else mr_skip_replicas mem r1) = Inr r'"
    by (auto simp: mr_SkipRemainingReplicas_def bindF_eq_Inr)
  with FirstReplica_progress [OF r1(1)] skip_replicas_keeps [of mem r1 r'] True show ?thesis
    by (auto intro: same_partition_trans split: if_splits)
next
  case False
  with assms skip_replicas_keeps [of mem r r'] show ?thesis by (simp add: mr_SkipRemainingReplicas_def)
qed

subsection \<open>Caught up replicas\<close>

definition mr_GetCurrentPartitionCaughtUpReplicaCount ::
  "byte list \<Rightarrow> TMetadataResponseReader \<Rightarrow> nat meta_result" where
  "mr_GetCurrentPartitionCaughtUpReplicaCount mem r =
     (if space_after mem (mr_CurrentReplicaOffset r) < MR_CAUGHT_UP_REPLICA_COUNT_SIZE
      then throw_counted ''MetadataResponseIncomplete3'' TIncompleteMetadataResponse
      else bindF (ReadInt32FromHeader mem (mr_CurrentReplicaOffset r)) (\<lambda>n.
        if n < 0 then throw_counted ''MetadataResponseNegativePartitionCaughtUpReplicaCount''
          TNegativePartitionCaughtUpReplicaCount
        else Inr (nat n)))"

definition mr_InitCaughtUpReplica ::
  "byte list \<Rightarrow> TMetadataResponseReader \<Rightarrow> (bool \<times> TMetadataResponseReader) meta_result" where
  "mr_InitCaughtUpReplica mem r =
     (if mr_CaughtUpReplicasLeftInPartition r = 0 then Inr (False, r)
      else if space_after mem (mr_CurrentCaughtUpReplicaOffset r) < MR_CAUGHT_UP_REPLICA_NODE_ID_SIZE
      then throw_counted ''MetadataResponseIncomplete10'' TIncompleteMetadataResponse
      else Inr (True, r))"

definition mr_FirstCaughtUpReplicaInPartition ::
  "byte list \<Rightarrow> TMetadataResponseReader \<Rightarrow> (bool \<times> TMetadataResponseReader) meta_result" where
  "mr_FirstCaughtUpReplicaInPartition mem r =
     bindF (if st_num (mr_State r) \<le> st_num InReplicaList then mr_SkipRemainingReplicas mem r else Inr r) (\<lambda>r.
     bindF (mr_GetCurrentPartitionCaughtUpReplicaCount mem r) (\<lambda>n.
     mr_InitCaughtUpReplica mem (mr_ClearStateVariables
       (r\<lparr>mr_CaughtUpReplicasLeftInPartition := n, mr_State := InCaughtUpReplicaList,
          mr_CurrentCaughtUpReplicaOffset :=
            mr_CurrentReplicaOffset r + MR_CAUGHT_UP_REPLICA_COUNT_SIZE\<rparr>))))"

definition mr_NextCaughtUpReplicaInPartition ::
  "byte list \<Rightarrow> TMetadataResponseReader \<Rightarrow> (bool \<times> TMetadataResponseReader) meta_result" where
  "mr_NextCaughtUpReplicaInPartition mem r =
     (if st_num (mr_State r) < st_num InCaughtUpReplicaList then mr_FirstCaughtUpReplicaInPartition mem r
      else mr_InitCaughtUpReplica mem
        (r\<lparr>mr_CaughtUpReplicasLeftInPartition := mr_CaughtUpReplicasLeftInPartition r - 1,
           mr_CurrentCaughtUpReplicaOffset :=
             mr_CurrentCaughtUpReplicaOffset r + MR_CAUGHT_UP_REPLICA_NODE_ID_SIZE\<rparr>))"

lemma st_num_caught_up: "st_num s < 5 \<longleftrightarrow> s \<noteq> InCaughtUpReplicaList"
  by (cases s) simp_all

lemma FirstCaughtUp_progress:
  assumes "mr_FirstCaughtUpReplicaInPartition mem r = Inr (ok, r')"
  shows "mr_State r' = InCaughtUpReplicaList" "same_partition r r'"
    and "ok \<longleftrightarrow> 0 < mr_CaughtUpReplicasLeftInPartition r'"
proof -
  from assms obtain r1 n where r1:
    "(if st_num (mr_State r) \<le> st_num InReplicaList then mr_SkipRemainingReplicas mem r else Inr r) = Inr r1"
    "mr_InitCaughtUpReplica mem (mr_ClearStateVariables
       (r1\<lparr>mr_CaughtUpReplicasLeftInPartition := n, mr_State := InCaughtUpReplicaList,
          mr_CurrentCaughtUpReplicaOffset := mr_CurrentReplicaOffset r1 + MR_CAUGHT_UP_REPLICA_COUNT_SIZE\<rparr>)) =
     Inr (ok, r')"
    unfolding mr_FirstCaughtUpReplicaInPartition_def by (auto simp: bindF_eq_Inr)
  have s: "same_partition r r1"
    using r1(1) by (auto split: if_splits dest: SkipRemainingReplicas_keeps)
  have "mr_State r' = InCaughtUpReplicaList \<and> same_partition r1 r' \<and>
      (ok \<longleftrightarrow> 0 < mr_CaughtUpReplicasLeftInPartition r')"
    using r1(2) by (auto simp: mr_InitCaughtUpReplica_def throw_counted_def mr_ClearStateVariables_def
        Let_def same_partition_def split: if_splits)
  with s show "mr_State r' = InCaughtUpReplicaList" "same_partition r r'"
    "ok \<longleftrightarrow> 0 < mr_CaughtUpReplicasLeftInPartition r'"
    by (auto intro: same_partition_trans)
qed

lemma NextCaughtUp_progress:
  assumes "mr_NextCaughtUpReplicaInPartition mem r = Inr (ok, r')"
  shows "mr_State r' = InCaughtUpReplicaList" "same_partition r r'"
    and "mr_State r = InCaughtUpReplicaList \<Longrightarrow>
      mr_CaughtUpReplicasLeftInPartition r' = mr_CaughtUpReplicasLeftInPartition r - 1"
  using assms
  by (auto simp: mr_NextCaughtUpReplicaInPartition_def mr_InitCaughtUpReplica_def throw_counted_def
      same_partition_def st_num_caught_up split: if_splits dest: FirstCaughtUp_progress)

function mr_skip_caught_up :: "byte list \<Rightarrow> TMetadataResponseReader \<Rightarrow> TMetadataResponseReader meta_result" where
  "mr_skip_caught_up mem r =
     (if mr_CaughtUpReplicasLeftInPartition r = 0 then Inr r
      else bindF (mr_NextCaughtUpReplicaInPartition mem r) (\<lambda>(_, r'). mr_skip_caught_up mem r'))"
  by pat_completeness auto
termination
proof (relation "measures [\<lambda>(mem, r). if mr_State r = InCaughtUpReplicaList then 0 else 1,
    \<lambda>(mem, r). mr_CaughtUpReplicasLeftInPartition r]")
  fix mem r x ok r'
  assume "mr_CaughtUpReplicasLeftInPartition r \<noteq> 0" "mr_NextCaughtUpReplicaInPartition mem r = Inr x"
    "(ok, r') = x"
  with NextCaughtUp_progress [of mem r ok r']
  show "((mem, r'), (mem, r)) \<in> measures [\<lambda>(mem, r). if mr_State r = InCaughtUpReplicaList then 0 else 1,
      \<lambda>(mem, r). mr_CaughtUpReplicasLeftInPartition r]"
    by auto
qed auto

declare mr_skip_caught_up.simps [simp del]

definition mr_SkipRemainingCaughtUpReplicas ::
  "byte list \<Rightarrow> TMetadataResponseReader \<Rightarrow> TMetadataResponseReader meta_result" where
  "mr_SkipRemainingCaughtUpReplicas mem r =
     (if mr_State r = InReplicaList
      then bindF (mr_FirstCaughtUpReplicaInPartition mem r)
             (\<lambda>(ok, r). if \<not> ok then Inr r else mr_skip_caught_up mem r)
      else mr_skip_caught_up mem r)"

definition mr_GetCurrentCaughtUpReplicaNodeId :: "byte list \<Rightarrow> TMetadataResponseReader \<Rightarrow> int meta_result" where
  "mr_GetCurrentCaughtUpReplicaNodeId mem r =
     bindF (ReadInt32FromHeader mem (mr_CurrentCaughtUpReplicaOffset r)) (\<lambda>i.
     if i < 0 then throw_counted ''MetadataResponseNegativeCaughtUpReplicaNodeId'' TNegativeCaughtUpReplicaNodeId
     else Inr i)"

lemma skip_caught_up_keeps:
  "mr_skip_caught_up mem r = Inr r' \<Longrightarrow> same_partition r r' \<and>
   (mr_State r = InCaughtUpReplicaList \<longrightarrow> mr_State r' = InCaughtUpReplicaList)"
proof (induction mem r rule: mr_skip_caught_up.induct)
  case (1 mem r)
  show ?case
  proof (cases "mr_CaughtUpReplicasLeftInPartition r = 0")
    case True
    then show ?thesis using "1.prems" by (simp add: mr_skip_caught_up.simps)
  next
    case False
    with "1.prems" obtain ok r1 where r1: "mr_NextCaughtUpReplicaInPartition mem r = Inr (ok, r1)"
        "mr_skip_caught_up mem r1 = Inr r'"
      by (subst (asm) mr_skip_caught_up.simps) (auto simp: bindF_eq_Inr)
    from "1.IH" [OF False r1(1) refl r1(2)] NextCaughtUp_progress [OF r1(1)]
    show ?thesis by (auto intro: same_partition_trans)
  qed
qed

lemma SkipRemainingCaughtUp_keeps:
  assumes "mr_SkipRemainingCaughtUpReplicas mem r = Inr r'"
  shows "same_partition r r'"
  using assms
  by (auto simp: mr_SkipRemainingCaughtUpReplicas_def bindF_eq_Inr split: if_splits
      dest!: skip_caught_up_keeps FirstCaughtUp_progress(2) intro: same_partition_trans)

subsection \<open>Partitions\<close>

definition mr_GetCurrentTopicPartitionCount :: "byte list \<Rightarrow> TMetadataResponseReader \<Rightarrow> nat meta_result" where
  "mr_GetCurrentTopicPartitionCount mem r =
     bindF (ReadInt32FromHeader mem
              (u64 (mr_CurrentTopicOffset r + RelPartitionCountOffset (mr_CurrentTopicNameLength r)))) (\<lambda>n.
     if n < 0 then throw_counted ''MetadataResponseNegativePartitionCount'' TNegativePartitionCount
     else Inr (nat n))"

definition mr_InitPartition :: "byte list \<Rightarrow> TMetadataResponseReader \<Rightarrow> (bool \<times> TMetadataResponseReader) meta_result" where
  "mr_InitPartition mem r =
     (if mr_PartitionsLeftInTopic r = 0 then Inr (False, r)
      else if space_after mem (mr_CurrentPartitionOffset r) < MR_REL_REPLICA_COUNT_OFFSET + MR_REPLICA_COUNT_SIZE
      then throw_counted ''MetadataResponseIncomplete8'' TIncompleteMetadataResponse
      else Inr (True, r))"

definition mr_FirstPartitionInTopic ::
  "byte list \<Rightarrow> TMetadataResponseReader \<Rightarrow> (bool \<times> TMetadataResponseReader) meta_result" where
  "mr_FirstPartitionInTopic mem r =
     bindF (mr_GetCurrentTopicPartitionCount mem r) (\<lambda>n.
     mr_InitPartition mem (mr_ClearStateVariables
       (r\<lparr>mr_PartitionsLeftInTopic := n, mr_State := InPartitionList,
          mr_CurrentPartitionOffset :=
            u64 (mr_CurrentTopicOffset r + RelPartitionCountOffset (mr_CurrentTopicNameLength r) +
                 MR_PARTITION_COUNT_SIZE)\<rparr>)))"

text \<open>The fall-through of the \<open>switch\<close>: replicas first, then caught up replicas.\<close>

definition mr_NextPartitionInTopic ::
  "byte list \<Rightarrow> TMetadataResponseReader \<Rightarrow> (bool \<times> TMetadataResponseReader) meta_result" where
  "mr_NextPartitionInTopic mem r =
     (if mr_State r = InTopicList then mr_FirstPartitionInTopic mem r
      else
        bindF (if mr_State r = InPartitionList \<or> mr_State r = InReplicaList
               then mr_SkipRemainingReplicas mem r else Inr r) (\<lambda>r.
        bindF (mr_SkipRemainingCaughtUpReplicas mem r) (\<lambda>r.
        mr_InitPartition mem
          (r\<lparr>mr_State := InPartitionList, mr_PartitionsLeftInTopic := mr_PartitionsLeftInTopic r - 1,
             mr_CurrentPartitionOffset := mr_CurrentCaughtUpReplicaOffset r\<rparr>))))"

definition same_topic_list :: "TMetadataResponseReader \<Rightarrow> TMetadataResponseReader \<Rightarrow> bool" where
  "same_topic_list r r' \<longleftrightarrow>
     mr_BrokersLeft r' = mr_BrokersLeft r \<and> mr_CurrentBrokerOffset r' = mr_CurrentBrokerOffset r \<and>
     mr_CurrentBrokerHostLength r' = mr_CurrentBrokerHostLength r \<and>
     mr_TopicsLeft r' = mr_TopicsLeft r \<and> mr_CurrentTopicOffset r' = mr_CurrentTopicOffset r \<and>
     mr_CurrentTopicNameLength r' = mr_CurrentTopicNameLength r"

lemma same_topic_list_refl [simp]: "same_topic_list r r"
  by (simp add: same_topic_list_def)

lemma same_topic_list_trans: "same_topic_list r r1 \<Longrightarrow> same_topic_list r1 r2 \<Longrightarrow> same_topic_list r r2"
  by (simp add: same_topic_list_def)

lemma InitPartition_keeps:
  "mr_InitPartition mem r = Inr (ok, r') \<Longrightarrow> r' = r \<and> (ok \<longleftrightarrow> 0 < mr_PartitionsLeftInTopic r)"
  by (auto simp: mr_InitPartition_def throw_counted_def split: if_splits)

lemma FirstPartition_progress:
  assumes "mr_FirstPartitionInTopic mem r = Inr (ok, r')"
  shows "mr_State r' = InPartitionList" "same_topic_list r r'" "ok \<longleftrightarrow> 0 < mr_PartitionsLeftInTopic r'"
  using assms
  by (auto simp: mr_FirstPartitionInTopic_def bindF_eq_Inr mr_ClearStateVariables_def Let_def
      same_topic_list_def dest!: InitPartition_keeps)

lemma NextPartition_progress:
  assumes "mr_NextPartitionInTopic mem r = Inr (ok, r')"
  shows "mr_State r' = InPartitionList" "same_topic_list r r'" "ok \<longleftrightarrow> 0 < mr_PartitionsLeftInTopic r'"
    and "mr_State r \<noteq> InTopicList \<Longrightarrow> mr_PartitionsLeftInTopic r' = mr_PartitionsLeftInTopic r - 1"
proof -
  have "mr_State r' = InPartitionList \<and> same_topic_list r r' \<and> (ok \<longleftrightarrow> 0 < mr_PartitionsLeftInTopic r') \<and>
      (mr_State r \<noteq> InTopicList \<longrightarrow> mr_PartitionsLeftInTopic r' = mr_PartitionsLeftInTopic r - 1)"
  proof (cases "mr_State r = InTopicList")
    case True
    with assms FirstPartition_progress [of mem r ok r'] show ?thesis by (simp add: mr_NextPartitionInTopic_def)
  next
    case False
    with assms obtain r1 r2 where r:
      "(if mr_State r = InPartitionList \<or> mr_State r = InReplicaList
               then mr_SkipRemainingReplicas mem r else Inr r) = Inr r1"
      "mr_SkipRemainingCaughtUpReplicas mem r1 = Inr r2"
      "mr_InitPartition mem
          (r2\<lparr>mr_State := InPartitionList, mr_PartitionsLeftInTopic := mr_PartitionsLeftInTopic r2 - 1,
             mr_CurrentPartitionOffset := mr_CurrentCaughtUpReplicaOffset r2\<rparr>) = Inr (ok, r')"
      unfolding mr_NextPartitionInTopic_def by (auto simp: bindF_eq_Inr)
    have "same_partition r r1" using r(1) by (auto split: if_splits dest: SkipRemainingReplicas_keeps)
    then have "same_partition r r2"
      using SkipRemainingCaughtUp_keeps [OF r(2)] by (rule same_partition_trans)
    then show ?thesis
      using InitPartition_keeps [OF r(3)] by (auto simp: same_partition_def same_topic_list_def)
  qed
  then show "mr_State r' = InPartitionList" "same_topic_list r r'" "ok \<longleftrightarrow> 0 < mr_PartitionsLeftInTopic r'"
    "mr_State r \<noteq> InTopicList \<Longrightarrow> mr_PartitionsLeftInTopic r' = mr_PartitionsLeftInTopic r - 1" by blast+
qed

function mr_skip_partitions :: "byte list \<Rightarrow> TMetadataResponseReader \<Rightarrow> TMetadataResponseReader meta_result" where
  "mr_skip_partitions mem r =
     (if mr_PartitionsLeftInTopic r = 0 then Inr r
      else bindF (mr_NextPartitionInTopic mem r) (\<lambda>(_, r'). mr_skip_partitions mem r'))"
  by pat_completeness auto
termination
  by (relation "inv_image (measures [\<lambda>r. if mr_State r = InTopicList then 1 else 0, mr_PartitionsLeftInTopic]) snd")
    (auto dest: NextPartition_progress(1,4))

declare mr_skip_partitions.simps [simp del]

definition mr_SkipRemainingPartitions ::
  "byte list \<Rightarrow> TMetadataResponseReader \<Rightarrow> TMetadataResponseReader meta_result" where
  "mr_SkipRemainingPartitions mem r =
     (if mr_State r = InTopicList
      then bindF (mr_FirstPartitionInTopic mem r) (\<lambda>(ok, r). if \<not> ok then Inr r else mr_skip_partitions mem r)
      else mr_skip_partitions mem r)"

definition mr_GetCurrentPartitionErrorCode :: "byte list \<Rightarrow> TMetadataResponseReader \<Rightarrow> int meta_result" where
  "mr_GetCurrentPartitionErrorCode mem r =
     ReadInt16FromHeader mem (mr_CurrentPartitionOffset r + MR_REL_PARTITION_ERROR_CODE_OFFSET)"

definition mr_GetCurrentPartitionId :: "byte list \<Rightarrow> TMetadataResponseReader \<Rightarrow> int meta_result" where
  "mr_GetCurrentPartitionId mem r =
     bindF (ReadInt32FromHeader mem (mr_CurrentPartitionOffset r + MR_REL_PARTITION_ID_OFFSET)) (\<lambda>i.
     if i < 0 then throw_counted ''MetadataResponseNegativePartitionId'' TNegativePartitionId
     else Inr i)"

definition mr_GetCurrentPartitionLeaderId :: "byte list \<Rightarrow> TMetadataResponseReader \<Rightarrow> int meta_result" where
  "mr_GetCurrentPartitionLeaderId mem r =
     bindF (ReadInt32FromHeader mem (mr_CurrentPartitionOffset r + MR_REL_LEADER_NODE_ID_OFFSET)) (\<lambda>i.
     if i < -1 then throw_counted ''MetadataResponseInvalidLeaderNodeId'' TInvalidLeaderNodeId
     else Inr i)"

subsection \<open>Topics\<close>

definition mr_GetTopicCount :: "byte list \<Rightarrow> TMetadataResponseReader \<Rightarrow> nat meta_result" where
  "mr_GetTopicCount mem r =
     (if space_after mem (mr_CurrentBrokerOffset r) < MR_TOPIC_COUNT_SIZE
      then throw_counted ''MetadataResponseIncomplete2'' TIncompleteMetadataResponse
      else bindF (ReadInt32FromHeader mem (mr_CurrentBrokerOffset r + MR_REL_TOPIC_COUNT_OFFSET)) (\<lambda>n.
        if n < 0 then throw_counted ''MetadataResponseNegativeTopicCount'' TNegativeTopicCount
        else Inr (nat n)))"

definition mr_InitTopic :: "byte list \<Rightarrow> TMetadataResponseReader \<Rightarrow> (bool \<times> TMetadataResponseReader) meta_result" where
  "mr_InitTopic mem r =
     (let r = r\<lparr>mr_CurrentTopicNameLength := 0\<rparr>
      in if mr_TopicsLeft r = 0 then Inr (False, r)
         else
           let topic_space = space_after mem (mr_CurrentTopicOffset r)
           in if topic_space < MR_REL_TOPIC_NAME_LENGTH_OFFSET + MR_TOPIC_NAME_LENGTH_SIZE
              then throw_counted ''MetadataResponseIncomplete6'' TIncompleteMetadataResponse
              else bindF (ReadInt16FromHeader mem
                            (mr_CurrentTopicOffset r + MR_REL_TOPIC_NAME_LENGTH_OFFSET)) (\<lambda>len.
                if u64 len < 1 then throw_counted ''MetadataResponseBadTopicNameLen'' TBadMetaTopicNameLen
                else if topic_space < u64 (RelPartitionCountOffset (u64 len) + MR_PARTITION_COUNT_SIZE)
                then throw_counted ''MetadataResponseIncomplete7'' TIncompleteMetadataResponse
                else Inr (True, r\<lparr>mr_CurrentTopicNameLength := u64 len\<rparr>)))"

definition mr_FirstTopic :: "byte list \<Rightarrow> TMetadataResponseReader \<Rightarrow> (bool \<times> TMetadataResponseReader) meta_result" where
  "mr_FirstTopic mem r =
     bindF (if st_num (mr_State r) \<le> st_num InBrokerList then mr_SkipRemainingBrokers mem r else Inr r) (\<lambda>r.
     bindF (mr_GetTopicCount mem r) (\<lambda>n.
     mr_InitTopic mem (mr_ClearStateVariables
       (r\<lparr>mr_TopicsLeft := n, mr_State := InTopicList,
          mr_CurrentTopicOffset := mr_CurrentBrokerOffset r + MR_TOPIC_COUNT_SIZE\<rparr>))))"

definition mr_NextTopic :: "byte list \<Rightarrow> TMetadataResponseReader \<Rightarrow> (bool \<times> TMetadataResponseReader) meta_result" where
  "mr_NextTopic mem r =
     (if st_num (mr_State r) \<le> st_num InBrokerList then mr_FirstTopic mem r
      else bindF (mr_SkipRemainingPartitions mem r) (\<lambda>r.
        mr_InitTopic mem
          (r\<lparr>mr_State := InTopicList, mr_TopicsLeft := mr_TopicsLeft r - 1,
             mr_CurrentTopicOffset := mr_CurrentPartitionOffset r\<rparr>)))"

definition mr_GetCurrentTopicErrorCode :: "byte list \<Rightarrow> TMetadataResponseReader \<Rightarrow> int meta_result" where
  "mr_GetCurrentTopicErrorCode mem r =
     ReadInt16FromHeader mem (mr_CurrentTopicOffset r + MR_REL_TOPIC_ERROR_CODE_OFFSET)"

definition mr_GetCurrentTopicName :: "byte list \<Rightarrow> TMetadataResponseReader \<Rightarrow> byte list meta_result" where
  "mr_GetCurrentTopicName mem r =
     (let b = mr_CurrentTopicOffset r + MR_REL_TOPIC_NAME_OFFSET
      in mem_range mem b (u64 (b + mr_CurrentTopicNameLength r)))"

lemma skip_partitions_keeps: "mr_skip_partitions mem r = Inr r' \<Longrightarrow> same_topic_list r r'"
proof (induction mem r rule: mr_skip_partitions.induct)
  case (1 mem r)
  show ?case
  proof (cases "mr_PartitionsLeftInTopic r = 0")
    case True
    then show ?thesis using "1.prems" by (simp add: mr_skip_partitions.simps)
  next
    case False
    with "1.prems" obtain ok r1 where r1: "mr_NextPartitionInTopic mem r = Inr (ok, r1)"
        "mr_skip_partitions mem r1 = Inr r'"
      by (subst (asm) mr_skip_partitions.simps) (auto simp: bindF_eq_Inr)
    from NextPartition_progress(2) [OF r1(1)] "1.IH" [OF False r1(1) refl r1(2)]
    show ?thesis by (rule same_topic_list_trans)
  qed
qed

lemma SkipRemainingPartitions_keeps:
  "mr_SkipRemainingPartitions mem r = Inr r' \<Longrightarrow> same_topic_list r r'"
  by (auto simp: mr_SkipRemainingPartitions_def bindF_eq_Inr split: if_splits
      dest!: skip_partitions_keeps FirstPartition_progress(2) intro: same_topic_list_trans)

lemma InitTopic_keeps:
  "mr_InitTopic mem r = Inr (ok, r') \<Longrightarrow>
   mr_State r' = mr_State r \<and> mr_TopicsLeft r' = mr_TopicsLeft r \<and>
   mr_CurrentTopicOffset r' = mr_CurrentTopicOffset r \<and> (ok \<longleftrightarrow> 0 < mr_TopicsLeft r)"
  by (auto simp: mr_InitTopic_def Let_def bindF_eq_Inr throw_counted_def split: if_splits)

lemma meta_NextTopic_progress:
  assumes "mr_NextTopic mem r = Inr (ok, r')"
  shows "mr_State r' = InTopicList" "ok \<longleftrightarrow> 0 < mr_TopicsLeft r'"
    and "2 \<le> st_num (mr_State r) \<Longrightarrow> mr_TopicsLeft r' = mr_TopicsLeft r - 1"
proof -
  have "mr_State r' = InTopicList \<and> (ok \<longleftrightarrow> 0 < mr_TopicsLeft r') \<and>
      (2 \<le> st_num (mr_State r) \<longrightarrow> mr_TopicsLeft r' = mr_TopicsLeft r - 1)"
  proof (cases "st_num (mr_State r) \<le> 1")
    case True
    then show ?thesis using assms
      by (auto simp: mr_NextTopic_def mr_FirstTopic_def bindF_eq_Inr mr_ClearStateVariables_def Let_def
          dest!: InitTopic_keeps)
  next
    case False
    then show ?thesis using assms
      by (auto simp: mr_NextTopic_def bindF_eq_Inr same_topic_list_def
          dest!: InitTopic_keeps SkipRemainingPartitions_keeps)
  qed
  then show "mr_State r' = InTopicList" "ok \<longleftrightarrow> 0 < mr_TopicsLeft r'"
    "2 \<le> st_num (mr_State r) \<Longrightarrow> mr_TopicsLeft r' = mr_TopicsLeft r - 1" by blast+
qed

function mr_skip_topics :: "byte list \<Rightarrow> TMetadataResponseReader \<Rightarrow> TMetadataResponseReader meta_result" where
  "mr_skip_topics mem r =
     (if mr_TopicsLeft r = 0 then Inr r
      else bindF (mr_NextTopic mem r) (\<lambda>(_, r'). mr_skip_topics mem r'))"
  by pat_completeness auto
termination
proof (relation "measures [\<lambda>(mem, r). if st_num (mr_State r) \<le> 1 then 1 else 0, \<lambda>(mem, r). mr_TopicsLeft r]")
  fix mem r x ok r'
  assume "mr_TopicsLeft r \<noteq> 0" "mr_NextTopic mem r = Inr x" "(ok, r') = x"
  with meta_NextTopic_progress [of mem r ok r']
  show "((mem, r'), (mem, r)) \<in> measures [\<lambda>(mem, r). if st_num (mr_State r) \<le> 1 then 1 else 0, \<lambda>(mem, r). mr_TopicsLeft r]"
    by auto
qed auto

declare mr_skip_topics.simps [simp del]

definition mr_SkipRemainingTopics :: "byte list \<Rightarrow> TMetadataResponseReader \<Rightarrow> TMetadataResponseReader meta_result" where
  "mr_SkipRemainingTopics mem r =
     (if mr_State r = InBrokerList
      then bindF (mr_FirstTopic mem r) (\<lambda>(ok, r). if \<not> ok then Inr r else mr_skip_topics mem r)
      else mr_skip_topics mem r)"

end
