(* ===== verification/Metadata_Proto.thy ===== *)
theory Metadata_Proto
  imports Metadata_Response_Reader Metadata_Check
begin

text \<open>
  From a metadata response to metadata, \<open>src/dory/kafka_proto/metadata/v0/metadata_proto.cc\<close>.  The
  loops over brokers, topics and partitions drive the response reader and the metadata builder.

  The permutation that \<open>std::shuffle\<close> applies is a parameter, one for each topic.  The order in which
  the arguments of \<open>AddBroker\<close> and \<open>AddPartitionToTopic\<close> are evaluated is not specified, it decides
  which of two exceptions is thrown; here it is from left to right.
\<close>

section \<open>Building metadata\<close>

definition to_string :: "byte list \<Rightarrow> string" where
  "to_string = map (\<lambda>b. char_of (unat b))"

definition CanSendToPartition :: "int \<Rightarrow> bool" where
  "CanSendToPartition error_code \<longleftrightarrow> error_code = 0 \<or> error_code = 9"

function mp_brokers_loop ::
  "byte list \<Rightarrow> TMetadataResponseReader \<Rightarrow> TMetaBuilder \<Rightarrow> (TMetadataResponseReader \<times> TMetaBuilder) meta_result" where
  "mp_brokers_loop mem r b =
     bindF (mr_NextBroker mem r) (\<lambda>(ok, r').
     if \<not> ok then Inr (r', b)
     else bindF (mr_GetCurrentBrokerHost mem r') (\<lambda>host.
          bindF (mr_GetCurrentBrokerNodeId mem r') (\<lambda>node_id.
          bindF (mr_GetCurrentBrokerPort mem r') (\<lambda>port.
          mp_brokers_loop mem r' (mb_AddBroker node_id (to_string host) port b)))))"
  by pat_completeness auto
termination
proof (relation "measures [\<lambda>(mem, r, b). if mr_State r = MRInitial then 1 else 0, \<lambda>(mem, r, b). mr_BrokersLeft r]")
  fix mem r b x ok r' y z w
  assume "mr_NextBroker mem r = Inr x" "(ok, r') = x" "\<not> \<not> ok"
  with NextBroker_progress [of mem r ok r']
  show "((mem, r', mb_AddBroker z (to_string y) w b), (mem, r, b)) \<in>
      measures [\<lambda>(mem, r, b). if mr_State r = MRInitial then 1 else 0, \<lambda>(mem, r, b). mr_BrokersLeft r]"
    by auto
qed auto

declare mp_brokers_loop.simps [simp del]

function mp_partitions_loop ::
  "byte list \<Rightarrow> TMetadataResponseReader \<Rightarrow> TMetaBuilder \<Rightarrow> (TMetadataResponseReader \<times> TMetaBuilder) meta_result" where
  "mp_partitions_loop mem r b =
     bindF (mr_NextPartitionInTopic mem r) (\<lambda>(ok, r').
     if \<not> ok then Inr (r', b)
     else bindF (mr_GetCurrentPartitionErrorCode mem r') (\<lambda>error_code.
          bindF (mr_GetCurrentPartitionId mem r') (\<lambda>partition_id.
          bindF (mr_GetCurrentPartitionLeaderId mem r') (\<lambda>leader_id.
          mp_partitions_loop mem r'
            (mb_AddPartitionToTopic partition_id leader_id (CanSendToPartition error_code) error_code b)))))"
  by pat_completeness auto
termination
proof (relation "measures [\<lambda>(mem, r, b). if mr_State r = InTopicList then 1 else 0,
    \<lambda>(mem, r, b). mr_PartitionsLeftInTopic r]")
  fix mem r b x ok r' y z w
  assume "mr_NextPartitionInTopic mem r = Inr x" "(ok, r') = x" "\<not> \<not> ok"
  with NextPartition_progress [of mem r ok r']
  show "((mem, r', mb_AddPartitionToTopic z w (CanSendToPartition y) y b), (mem, r, b)) \<in>
      measures [\<lambda>(mem, r, b). if mr_State r = InTopicList then 1 else 0,
        \<lambda>(mem, r, b). mr_PartitionsLeftInTopic r]"
    by auto
qed auto

declare mp_partitions_loop.simps [simp del]

lemma partitions_loop_keeps:
  "mp_partitions_loop mem r b = Inr (r', b') \<Longrightarrow> same_topic_list r r' \<and> mr_State r' = InPartitionList"
proof (induction mem r b rule: mp_partitions_loop.induct)
  case (1 mem r b)
  from "1.prems" obtain ok r1 where next_part: "mr_NextPartitionInTopic mem r = Inr (ok, r1)"
    by (subst (asm) mp_partitions_loop.simps) (auto simp: bindF_eq_Inr)
  note p = NextPartition_progress [OF next_part]
  show ?case
  proof (cases ok)
    case False
    then show ?thesis using "1.prems" next_part p
      by (subst (asm) mp_partitions_loop.simps) auto
  next
    case True
    with "1.prems" next_part obtain e i l where
      e: "mr_GetCurrentPartitionErrorCode mem r1 = Inr e" "mr_GetCurrentPartitionId mem r1 = Inr i"
      "mr_GetCurrentPartitionLeaderId mem r1 = Inr l"
      and rest: "mp_partitions_loop mem r1 (mb_AddPartitionToTopic i l (CanSendToPartition e) e b) = Inr (r', b')"
      by (subst (asm) mp_partitions_loop.simps) (auto simp: bindF_eq_Inr)
    from "1.IH" [OF next_part refl _ e rest] True p(2) show ?thesis
      by (auto intro: same_topic_list_trans)
  qed
qed

lemma NextTopic_decrease:
  assumes "mr_NextTopic mem r = Inr x" "(True, r') = x"
  shows "(r', r) \<in> measures [\<lambda>r. if st_num (mr_State r) \<le> 1 then 1 else 0, mr_TopicsLeft]"
  using meta_NextTopic_progress [of mem r True r'] assms by auto

lemma topics_decrease:
  assumes "mr_NextTopic mem r = Inr x" "(True, r') = x" "mp_partitions_loop mem r' b = Inr y" "(r'', b'') = y"
  shows "(r'', r) \<in> measures [\<lambda>r. if st_num (mr_State r) \<le> 1 then 1 else 0, mr_TopicsLeft]"
  using meta_NextTopic_progress [of mem r True r'] partitions_loop_keeps [of mem r' b r'' b''] assms
  by (auto simp: same_topic_list_def)

function mp_topics_loop ::
  "(nat \<Rightarrow> TPartition list \<Rightarrow> TPartition list) \<Rightarrow> byte list \<Rightarrow> TMetadataResponseReader \<Rightarrow> TMetaBuilder \<Rightarrow>
   TMetaBuilder meta_result" where
  "mp_topics_loop shuffle mem r b =
     bindF (mr_NextTopic mem r) (\<lambda>(ok, r').
     if \<not> ok then Inr b
     else bindF (mr_GetCurrentTopicErrorCode mem r') (\<lambda>error_code.
       if error_code \<noteq> 0 then mp_topics_loop shuffle mem r' b
       else bindF (mr_GetCurrentTopicName mem r') (\<lambda>name.
         let (opened, b') = mb_OpenTopic (to_string name) b
         in if opened
            then bindF (mp_partitions_loop mem r' b') (\<lambda>(r'', b'').
                 mp_topics_loop shuffle mem r'' (mb_CloseTopic (shuffle (mb_CurrentTopicIndex b'')) b''))
            else mp_topics_loop shuffle mem r' b')))"
  by pat_completeness auto
termination
  by (relation "inv_image (measures [\<lambda>r. if st_num (mr_State r) \<le> 1 then 1 else 0, mr_TopicsLeft])
      (\<lambda>(sh, mem, r, b). r)")
    (auto simp only: wf_inv_image wf_measures in_inv_image prod.case prod.inject not_not
      intro: NextTopic_decrease topics_decrease)

declare mp_topics_loop.simps [simp del]

definition BuildMetadataFromResponse ::
  "(nat \<Rightarrow> TPartition list \<Rightarrow> TPartition list) \<Rightarrow> (bool list \<Rightarrow> nat list) \<Rightarrow> TCounters \<Rightarrow> byte list \<Rightarrow>
   TMetadata meta_result" where
  "BuildMetadataFromResponse shuffle reorder counters mem =
     bindF (mp_brokers_loop mem new_TMetadataResponseReader (mb_OpenBrokerList (new_TMetaBuilder counters))) (\<lambda>(r, b).
     bindF (mp_topics_loop shuffle mem r (mb_CloseBrokerList b)) (\<lambda>b.
     Inr (fst (mb_Build reorder b))))"

text \<open>\<open>TopicAutocreateWasSuccessful\<close>, with the counters.\<close>

definition TopicAutocreateWasSuccessful :: "string \<Rightarrow> byte list \<Rightarrow> TCounters \<Rightarrow> (bool \<times> TCounters) meta_result" where
  "TopicAutocreateWasSuccessful topic mem counters =
     bindF (mr_NextTopic mem new_TMetadataResponseReader) (\<lambda>(ok, r).
     if \<not> ok then Inr (False, Increment ''TopicAutocreateNoTopicInResponse'' counters)
     else bindF (mr_GetCurrentTopicName mem r) (\<lambda>name.
       if to_string name \<noteq> topic
       then Inr (False, Increment ''TopicAutocreateUnexpectedTopicInResponse'' counters)
       else bindF (mr_GetCurrentTopicErrorCode mem r) (\<lambda>error_code.
         if error_code \<noteq> 0 \<and> error_code \<noteq> 5
         then Inr (False, Increment ''TopicAutocreateGotErrorResponse'' counters)
         else Inr (True, Increment ''TopicAutocreateSuccess'' counters))))"

end
