(* ===== verification/Metadata_Safety.thy ===== *)
theory Metadata_Safety
  imports Metadata_Proto
begin

text \<open>
  Memory safety of the metadata response reader as \<open>BuildMetadataFromResponse\<close> and
  \<open>TopicAutocreateWasSuccessful\<close> drive it: on a response of any contents every access stays inside of
  the response, unless the reader has accepted a negative length.  \<open>mr_ok\<close> is the invariant of the
  reader.
\<close>

section \<open>The reader stays in the response\<close>

text \<open>A length that was negative in the response and has been accepted.\<close>

definition accepted_negative :: "TMetadataResponseReader \<Rightarrow> bool" where
  "accepted_negative r \<longleftrightarrow> 2 ^ 15 \<le> mr_CurrentBrokerHostLength r \<or> 2 ^ 15 \<le> mr_CurrentTopicNameLength r"

text \<open>The current item of a list lies inside of the response.\<close>

definition item_in :: "byte list \<Rightarrow> nat \<Rightarrow> int \<Rightarrow> int \<Rightarrow> bool" where
  "item_in mem left off sz \<longleftrightarrow>
     0 \<le> off \<and> off \<le> int (length mem) \<and> (0 < left \<longrightarrow> 0 \<le> sz \<and> off + sz \<le> int (length mem))"

definition mr_ok :: "byte list \<Rightarrow> TMetadataResponseReader \<Rightarrow> bool" where
  "mr_ok mem r \<longleftrightarrow>
     (case mr_State r of
        MRInitial \<Rightarrow> True
      | InBrokerList \<Rightarrow> 0 \<le> mr_CurrentBrokerHostLength r \<and>
          item_in mem (mr_BrokersLeft r) (mr_CurrentBrokerOffset r) (10 + mr_CurrentBrokerHostLength r)
      | InTopicList \<Rightarrow> 0 \<le> mr_CurrentTopicNameLength r \<and>
          item_in mem (mr_TopicsLeft r) (mr_CurrentTopicOffset r) (8 + mr_CurrentTopicNameLength r)
      | InPartitionList \<Rightarrow> item_in mem (mr_PartitionsLeftInTopic r) (mr_CurrentPartitionOffset r) 14
      | InReplicaList \<Rightarrow> item_in mem (mr_ReplicasLeftInPartition r) (mr_CurrentReplicaOffset r) 4
      | InCaughtUpReplicaList \<Rightarrow>
          item_in mem (mr_CaughtUpReplicasLeftInPartition r) (mr_CurrentCaughtUpReplicaOffset r) 4)"

lemma space_after_eq:
  "0 \<le> off \<Longrightarrow> off \<le> int (length mem) \<Longrightarrow> length mem < 2 ^ 62 \<Longrightarrow> space_after mem off = int (length mem) - off"
  by (simp add: space_after_def u64_def)

lemma u64_id: "0 \<le> x \<Longrightarrow> x < 2 ^ 64 \<Longrightarrow> u64 x = x"
  by (simp add: u64_def)

lemma u64_len:
  "u64 (int16_at mem p) = (if int16_at mem p < 0 then int16_at mem p + 2 ^ 64 else int16_at mem p)"
proof (cases "int16_at mem p < 0")
  case True
  have "int16_at mem p mod 2 ^ 64 = (int16_at mem p + 2 ^ 64) mod 2 ^ 64" by simp
  also have "\<dots> = int16_at mem p + 2 ^ 64"
    using True int16_at_range(1) [of mem p] by (intro mod_pos_pos_trivial) simp_all
  finally show ?thesis using True by (simp add: u64_def)
next
  case False
  then show ?thesis using int16_at_range(2) [of mem p] by (simp add: u64_def)
qed

section \<open>No access outside of the response\<close>

text \<open>A step that does not leave the response, and gives a reader with \<open>P\<close>.\<close>

definition stays :: "(TMetadataResponseReader \<Rightarrow> bool) \<Rightarrow> (bool \<times> TMetadataResponseReader) meta_result \<Rightarrow> bool" where
  "stays P m \<longleftrightarrow> m \<noteq> Inl Undefined \<and> (\<forall>ok r. m = Inr (ok, r) \<longrightarrow> P r)"

definition skips :: "(TMetadataResponseReader \<Rightarrow> bool) \<Rightarrow> TMetadataResponseReader meta_result \<Rightarrow> bool" where
  "skips P m \<longleftrightarrow> m \<noteq> Inl Undefined \<and> (\<forall>r. m = Inr r \<longrightarrow> P r)"

lemma stays_skips:
  assumes "stays P m" "\<And>r. P r \<Longrightarrow> skips Q (f r)"
  shows "skips Q (bindF m (\<lambda>(_, r). f r))"
  using assms by (cases m) (auto simp: stays_def skips_def)

lemma stays_skips_if:
  assumes "stays P m" "\<And>r. P r \<Longrightarrow> Q r" "\<And>r. P r \<Longrightarrow> skips Q (f r)"
  shows "skips Q (bindF m (\<lambda>(ok, r). if \<not> ok then Inr r else f r))"
  using assms by (cases m) (auto simp: stays_def skips_def split: if_splits)

lemma skips_weaken: "skips P m \<Longrightarrow> (\<And>r. P r \<Longrightarrow> Q r) \<Longrightarrow> skips Q m"
  by (auto simp: skips_def)

lemma stays_weaken: "stays P m \<Longrightarrow> (\<And>r. P r \<Longrightarrow> Q r) \<Longrightarrow> stays Q m"
  by (auto simp: stays_def)

lemma skips_skips:
  assumes "skips P m" "\<And>r. P r \<Longrightarrow> skips Q (f r)"
  shows "skips Q (bindF m f)"
  using assms by (cases m) (auto simp: skips_def)

lemma skips_stays:
  assumes "skips P m" "\<And>r. P r \<Longrightarrow> stays Q (f r)"
  shows "stays Q (bindF m f)"
  using assms by (cases m) (auto simp: skips_def stays_def)

text \<open>A loop that calls \<open>next_item\<close> while items are left keeps what each call keeps.\<close>

locale skip_loop =
  fixes items_left :: "TMetadataResponseReader \<Rightarrow> nat"
    and next_item :: "TMetadataResponseReader \<Rightarrow> (bool \<times> TMetadataResponseReader) meta_result"
    and skip :: "TMetadataResponseReader \<Rightarrow> TMetadataResponseReader meta_result"
    and started :: "TMetadataResponseReader \<Rightarrow> bool"
  assumes skip_eq: "skip r = (if items_left r = 0 then Inr r else bindF (next_item r) (\<lambda>(_, r'). skip r'))"
    and next_left: "next_item r = Inr (ok, r') \<Longrightarrow> started r \<Longrightarrow> started r' \<and> items_left r' = items_left r - 1"
begin

lemma skip_keeps:
  assumes step: "\<And>r. P r \<Longrightarrow> 0 < items_left r \<Longrightarrow> stays P (next_item r)"
    and "P r" "started r"
  shows "skips (\<lambda>r'. P r' \<and> items_left r' = 0) (skip r)"
  using assms(2,3)
proof (induction "items_left r" arbitrary: r)
  case 0
  then show ?case by (subst skip_eq) (simp add: skips_def)
next
  case (Suc n)
  have "stays (\<lambda>r'. P r' \<and> started r' \<and> n = items_left r') (next_item r)"
    using step [OF Suc.prems(1)] Suc.hyps(2) next_left [OF _ Suc.prems(2)] by (fastforce simp: stays_def)
  then have "skips (\<lambda>r'. P r' \<and> items_left r' = 0) (bindF (next_item r) (\<lambda>(_, r'). skip r'))"
    by (rule stays_skips) (use Suc.hyps(1) in simp)
  then show ?case using Suc.hyps(2) by (subst skip_eq) simp
qed

end

interpretation skip_brokers: skip_loop mr_BrokersLeft "mr_NextBroker mem" "mr_skip_brokers mem" "\<lambda>r. mr_State r \<noteq> MRInitial"
  for mem
  by unfold_locales (rule mr_skip_brokers.simps, use NextBroker_progress in blast)

interpretation skip_replicas: skip_loop mr_ReplicasLeftInPartition "mr_NextReplicaInPartition mem"
  "mr_skip_replicas mem" "\<lambda>r. mr_State r \<noteq> InPartitionList"
  for mem
  by unfold_locales (rule mr_skip_replicas.simps, use NextReplica_progress in blast)

interpretation skip_caught_up: skip_loop mr_CaughtUpReplicasLeftInPartition "mr_NextCaughtUpReplicaInPartition mem"
  "mr_skip_caught_up mem" "\<lambda>r. mr_State r = InCaughtUpReplicaList"
  for mem
  by unfold_locales (rule mr_skip_caught_up.simps, use NextCaughtUp_progress in blast)

interpretation skip_partitions: skip_loop mr_PartitionsLeftInTopic "mr_NextPartitionInTopic mem"
  "mr_skip_partitions mem" "\<lambda>r. mr_State r \<noteq> InTopicList"
  for mem
  by unfold_locales (rule mr_skip_partitions.simps, use NextPartition_progress in fastforce)

interpretation skip_topics: skip_loop mr_TopicsLeft "mr_NextTopic mem" "mr_skip_topics mem"
  "\<lambda>r. 2 \<le> st_num (mr_State r)"
  for mem
  by unfold_locales (rule mr_skip_topics.simps, use meta_NextTopic_progress in fastforce)

text \<open>In a list with the invariant.\<close>

definition ok_in :: "byte list \<Rightarrow> TMetaReaderState \<Rightarrow> TMetadataResponseReader \<Rightarrow> bool" where
  "ok_in mem s r \<longleftrightarrow> mr_ok mem r \<and> mr_State r = s"

lemma InitBroker_safe:
  assumes "length mem < 2 ^ 62" "mr_State r = InBrokerList"
    and "0 \<le> mr_CurrentBrokerOffset r" "mr_CurrentBrokerOffset r \<le> int (length mem)"
  shows "stays (\<lambda>r'. accepted_negative r' \<or> ok_in mem InBrokerList r') (mr_InitBroker mem r)"
  using assms
  by (auto simp: stays_def ok_in_def mr_InitBroker_def Let_def space_after_eq meta_consts throw_counted_def
      Read_inside u64_len mr_ok_def item_in_def accepted_negative_def mr_BrokerSize_def
      RelBrokerPortOffset_def u64_id)

lemma mr_BrokerSize_eq: "0 \<le> n \<Longrightarrow> n < 2 ^ 62 \<Longrightarrow> mr_BrokerSize n = 10 + n"
  by (simp add: mr_BrokerSize_def RelBrokerPortOffset_def meta_consts u64_id)

lemma NextBroker_safe:
  assumes "length mem < 2 ^ 62" "mr_ok mem r" "mr_State r = MRInitial \<or> mr_State r = InBrokerList \<and> 0 < mr_BrokersLeft r"
  shows "stays (\<lambda>r'. accepted_negative r' \<or> ok_in mem InBrokerList r') (mr_NextBroker mem r)"
proof (cases "mr_State r = MRInitial")
  case True
  show ?thesis
  proof (cases "int (length mem) < mr_MinSize")
    case short: True
    then show ?thesis using True by (simp add: mr_NextBroker_def mr_FirstBroker_def throw_counted_def stays_def)
  next
    case False
    then have len: "16 \<le> int (length mem)" by (simp add: mr_MinSize_def meta_consts)
    define n where "n = int32_at mem 8"
    define r0 where "r0 = mr_ClearStateVariables (r\<lparr>mr_State := InBrokerList, mr_BrokersLeft := nat n,
        mr_CurrentBrokerOffset := MR_BROKER_LIST_OFFSET\<rparr>)"
    have "mr_NextBroker mem r = (if n < 0 then throw_counted ''MetadataResponseNegativeBrokerCount'' TNegativeBrokerCount
        else mr_InitBroker mem r0)"
      using True False len
      by (simp add: mr_NextBroker_def mr_FirstBroker_def mr_GetBrokerCount_def meta_consts Read_inside n_def r0_def
          throw_counted_def)
    moreover have "stays (\<lambda>r'. accepted_negative r' \<or> ok_in mem InBrokerList r') (mr_InitBroker mem r0)"
      using assms(1) len
      by (intro InitBroker_safe) (simp_all add: r0_def mr_ClearStateVariables_def Let_def meta_consts)
    ultimately show ?thesis by (simp add: stays_def throw_counted_def)
  qed
next
  case False
  with assms have s: "mr_State r = InBrokerList" "0 < mr_BrokersLeft r" by auto
  then have "0 \<le> mr_CurrentBrokerHostLength r" "0 \<le> mr_CurrentBrokerOffset r"
    "mr_CurrentBrokerOffset r + (10 + mr_CurrentBrokerHostLength r) \<le> int (length mem)"
    using assms(2) by (auto simp: mr_ok_def item_in_def)
  then show ?thesis using s assms(1)
    by (simp add: mr_NextBroker_def InitBroker_safe mr_BrokerSize_eq u64_id)
qed

text \<open>A broker or a topic whose length is in order can be read.\<close>

lemma current_broker_safe:
  assumes "mr_ok mem r" "mr_State r = InBrokerList" "0 < mr_BrokersLeft r" "length mem < 2 ^ 62"
  shows "mr_GetCurrentBrokerHost mem r \<noteq> Inl Undefined" "mr_GetCurrentBrokerNodeId mem r \<noteq> Inl Undefined"
    "mr_GetCurrentBrokerPort mem r \<noteq> Inl Undefined"
proof -
  have b: "0 \<le> mr_CurrentBrokerHostLength r" "0 \<le> mr_CurrentBrokerOffset r"
    "mr_CurrentBrokerOffset r + (10 + mr_CurrentBrokerHostLength r) \<le> int (length mem)"
    using assms by (auto simp: mr_ok_def item_in_def)
  show "mr_GetCurrentBrokerHost mem r \<noteq> Inl Undefined"
    using b assms(4) by (simp add: mr_GetCurrentBrokerHost_def Let_def meta_consts mem_range_def mem_read_def u64_id)
  show "mr_GetCurrentBrokerNodeId mem r \<noteq> Inl Undefined"
    using b assms(4) by (simp add: mr_GetCurrentBrokerNodeId_def meta_consts Read_inside throw_counted_def)
  show "mr_GetCurrentBrokerPort mem r \<noteq> Inl Undefined"
    using b assms(4) by (simp add: mr_GetCurrentBrokerPort_def meta_consts Read_inside throw_counted_def
        RelBrokerPortOffset_def u64_id)
qed

lemma current_topic_safe:
  assumes "mr_ok mem r" "mr_State r = InTopicList" "0 < mr_TopicsLeft r" "length mem < 2 ^ 62"
  shows "mr_GetCurrentTopicErrorCode mem r \<noteq> Inl Undefined" "mr_GetCurrentTopicName mem r \<noteq> Inl Undefined"
proof -
  have b: "0 \<le> mr_CurrentTopicNameLength r" "0 \<le> mr_CurrentTopicOffset r"
    "mr_CurrentTopicOffset r + (8 + mr_CurrentTopicNameLength r) \<le> int (length mem)"
    using assms by (auto simp: mr_ok_def item_in_def)
  show "mr_GetCurrentTopicErrorCode mem r \<noteq> Inl Undefined"
    using b assms(4) by (simp add: mr_GetCurrentTopicErrorCode_def meta_consts Read_inside)
  show "mr_GetCurrentTopicName mem r \<noteq> Inl Undefined"
    using b assms(4) by (simp add: mr_GetCurrentTopicName_def Let_def meta_consts mem_range_def mem_read_def u64_id)
qed

lemma current_partition_safe:
  assumes "mr_ok mem r" "mr_State r = InPartitionList" "0 < mr_PartitionsLeftInTopic r"
  shows "mr_GetCurrentPartitionErrorCode mem r \<noteq> Inl Undefined" "mr_GetCurrentPartitionId mem r \<noteq> Inl Undefined"
    "mr_GetCurrentPartitionLeaderId mem r \<noteq> Inl Undefined"
  using assms
  by (auto simp: mr_ok_def item_in_def mr_GetCurrentPartitionErrorCode_def mr_GetCurrentPartitionId_def
      mr_GetCurrentPartitionLeaderId_def meta_consts Read_inside throw_counted_def)

subsection \<open>Replicas and caught up replicas\<close>

lemma InitReplica_safe:
  assumes "length mem < 2 ^ 62" "mr_State r = InReplicaList"
    and "0 \<le> mr_CurrentReplicaOffset r" "mr_CurrentReplicaOffset r \<le> int (length mem)"
  shows "stays (ok_in mem InReplicaList) (mr_InitReplica mem r)"
  using assms
  by (auto simp: stays_def ok_in_def mr_InitReplica_def space_after_eq meta_consts throw_counted_def
      mr_ok_def item_in_def)

lemma FirstReplica_safe:
  assumes "length mem < 2 ^ 62" "ok_in mem InPartitionList r" "0 < mr_PartitionsLeftInTopic r"
  shows "stays (ok_in mem InReplicaList) (mr_FirstReplicaInPartition mem r)"
proof -
  have b: "0 \<le> mr_CurrentPartitionOffset r" "mr_CurrentPartitionOffset r + 14 \<le> int (length mem)"
    using assms by (auto simp: ok_in_def mr_ok_def item_in_def)
  define n where "n = int32_at mem (mr_CurrentPartitionOffset r + 10)"
  define r0 where "r0 = mr_ClearStateVariables (r\<lparr>mr_ReplicasLeftInPartition := nat n, mr_State := InReplicaList,
      mr_CurrentReplicaOffset := mr_CurrentPartitionOffset r + MR_REL_REPLICA_COUNT_OFFSET + MR_REPLICA_COUNT_SIZE\<rparr>)"
  have "mr_FirstReplicaInPartition mem r =
      (if n < 0 then throw_counted ''MetadataResponseNegativePartitionReplicaCount'' TNegativePartitionReplicaCount
       else mr_InitReplica mem r0)"
    using b by (simp add: mr_FirstReplicaInPartition_def mr_GetCurrentPartitionReplicaCount_def meta_consts
        Read_inside n_def r0_def throw_counted_def)
  moreover have "stays (ok_in mem InReplicaList) (mr_InitReplica mem r0)"
    using assms(1) b by (intro InitReplica_safe) (simp_all add: r0_def mr_ClearStateVariables_def Let_def meta_consts)
  ultimately show ?thesis by (simp add: stays_def throw_counted_def)
qed

lemma NextReplica_safe:
  assumes "length mem < 2 ^ 62" "ok_in mem InReplicaList r" "0 < mr_ReplicasLeftInPartition r"
  shows "stays (ok_in mem InReplicaList) (mr_NextReplicaInPartition mem r)"
  using assms
  by (auto simp: mr_NextReplicaInPartition_def meta_consts ok_in_def mr_ok_def item_in_def intro!: InitReplica_safe)

lemma SkipRemainingReplicas_safe:
  assumes "length mem < 2 ^ 62"
    and "ok_in mem InPartitionList r \<and> 0 < mr_PartitionsLeftInTopic r \<or> ok_in mem InReplicaList r"
  shows "skips (ok_in mem InReplicaList) (mr_SkipRemainingReplicas mem r)"
proof -
  have loop: "skips (ok_in mem InReplicaList) (mr_skip_replicas mem r)" if "ok_in mem InReplicaList r" for r
    by (rule skips_weaken [OF skip_replicas.skip_keeps [of "ok_in mem InReplicaList" mem r, OF NextReplica_safe [OF assms(1)]]])
      (use that in \<open>simp_all add: ok_in_def\<close>)
  show ?thesis
  proof (cases "mr_State r = InPartitionList")
    case True
    with assms have "stays (ok_in mem InReplicaList) (mr_FirstReplicaInPartition mem r)"
      by (auto simp: ok_in_def intro!: FirstReplica_safe)
    then show ?thesis using True loop by (simp add: mr_SkipRemainingReplicas_def stays_skips_if)
  next
    case False
    with assms loop show ?thesis by (auto simp: mr_SkipRemainingReplicas_def ok_in_def)
  qed
qed

lemma InitCaughtUp_safe:
  assumes "length mem < 2 ^ 62" "mr_State r = InCaughtUpReplicaList"
    and "0 \<le> mr_CurrentCaughtUpReplicaOffset r" "mr_CurrentCaughtUpReplicaOffset r \<le> int (length mem)"
  shows "stays (ok_in mem InCaughtUpReplicaList) (mr_InitCaughtUpReplica mem r)"
  using assms
  by (auto simp: stays_def ok_in_def mr_InitCaughtUpReplica_def space_after_eq meta_consts throw_counted_def
      mr_ok_def item_in_def)

lemma GetCaughtUpCount_safe:
  assumes "length mem < 2 ^ 62" "ok_in mem InReplicaList r"
  shows "mr_GetCurrentPartitionCaughtUpReplicaCount mem r \<noteq> Inl Undefined"
    and "mr_GetCurrentPartitionCaughtUpReplicaCount mem r = Inr n \<Longrightarrow>
      0 \<le> mr_CurrentReplicaOffset r \<and> mr_CurrentReplicaOffset r + 4 \<le> int (length mem)"
  using assms
  by (auto simp: mr_GetCurrentPartitionCaughtUpReplicaCount_def ok_in_def mr_ok_def item_in_def space_after_eq
      meta_consts throw_counted_def Read_inside split: if_splits)

lemma FirstCaughtUp_safe:
  assumes "length mem < 2 ^ 62"
    and "ok_in mem InPartitionList r \<and> 0 < mr_PartitionsLeftInTopic r \<or> ok_in mem InReplicaList r"
  shows "stays (ok_in mem InCaughtUpReplicaList) (mr_FirstCaughtUpReplicaInPartition mem r)"
proof -
  have s: "st_num (mr_State r) \<le> st_num InReplicaList" using assms(2) by (auto simp: ok_in_def)
  have "stays (ok_in mem InCaughtUpReplicaList)
      (bindF (mr_GetCurrentPartitionCaughtUpReplicaCount mem r1) (\<lambda>n. mr_InitCaughtUpReplica mem (mr_ClearStateVariables
       (r1\<lparr>mr_CaughtUpReplicasLeftInPartition := n, mr_State := InCaughtUpReplicaList,
          mr_CurrentCaughtUpReplicaOffset := mr_CurrentReplicaOffset r1 + MR_CAUGHT_UP_REPLICA_COUNT_SIZE\<rparr>))))"
    if "ok_in mem InReplicaList r1" for r1
  proof (cases "mr_GetCurrentPartitionCaughtUpReplicaCount mem r1")
    case (Inl e)
    then show ?thesis using GetCaughtUpCount_safe(1) [OF assms(1) that] by (simp add: stays_def)
  next
    case (Inr n)
    with GetCaughtUpCount_safe(2) [OF assms(1) that Inr] show ?thesis
      using assms(1) by (auto intro!: InitCaughtUp_safe simp: mr_ClearStateVariables_def Let_def meta_consts)
  qed
  with SkipRemainingReplicas_safe [OF assms]
  have "stays (ok_in mem InCaughtUpReplicaList) (bindF (mr_SkipRemainingReplicas mem r) (\<lambda>r1.
      bindF (mr_GetCurrentPartitionCaughtUpReplicaCount mem r1) (\<lambda>n. mr_InitCaughtUpReplica mem (mr_ClearStateVariables
       (r1\<lparr>mr_CaughtUpReplicasLeftInPartition := n, mr_State := InCaughtUpReplicaList,
          mr_CurrentCaughtUpReplicaOffset := mr_CurrentReplicaOffset r1 + MR_CAUGHT_UP_REPLICA_COUNT_SIZE\<rparr>)))))"
    by (rule skips_stays)
  then show ?thesis using s unfolding mr_FirstCaughtUpReplicaInPartition_def by simp
qed

lemma NextCaughtUp_safe:
  assumes "length mem < 2 ^ 62" "ok_in mem InCaughtUpReplicaList r" "0 < mr_CaughtUpReplicasLeftInPartition r"
  shows "stays (ok_in mem InCaughtUpReplicaList) (mr_NextCaughtUpReplicaInPartition mem r)"
  using assms
  by (auto simp: mr_NextCaughtUpReplicaInPartition_def meta_consts ok_in_def mr_ok_def item_in_def
      intro!: InitCaughtUp_safe)

lemma SkipRemainingCaughtUp_safe:
  assumes "length mem < 2 ^ 62" "ok_in mem InReplicaList r"
  shows "skips (ok_in mem InCaughtUpReplicaList) (mr_SkipRemainingCaughtUpReplicas mem r)"
proof -
  have "skips (ok_in mem InCaughtUpReplicaList) (mr_skip_caught_up mem r)" if "ok_in mem InCaughtUpReplicaList r" for r
    by (rule skips_weaken [OF skip_caught_up.skip_keeps [of "ok_in mem InCaughtUpReplicaList" mem r, OF NextCaughtUp_safe [OF assms(1)]]])
      (use that in \<open>simp_all add: ok_in_def\<close>)
  moreover have "stays (ok_in mem InCaughtUpReplicaList) (mr_FirstCaughtUpReplicaInPartition mem r)"
    using FirstCaughtUp_safe assms by blast
  ultimately have "skips (ok_in mem InCaughtUpReplicaList) (bindF (mr_FirstCaughtUpReplicaInPartition mem r)
      (\<lambda>(ok, r). if \<not> ok then Inr r else mr_skip_caught_up mem r))"
    by (intro stays_skips_if)
  then show ?thesis using assms(2) by (simp add: mr_SkipRemainingCaughtUpReplicas_def ok_in_def)
qed

subsection \<open>Partitions and topics\<close>

lemma InitPartition_safe:
  assumes "length mem < 2 ^ 62" "mr_State r = InPartitionList"
    and "0 \<le> mr_CurrentPartitionOffset r" "mr_CurrentPartitionOffset r \<le> int (length mem)"
  shows "stays (ok_in mem InPartitionList) (mr_InitPartition mem r)"
  using assms
  by (auto simp: stays_def ok_in_def mr_InitPartition_def space_after_eq meta_consts throw_counted_def
      mr_ok_def item_in_def)

lemma FirstPartition_safe:
  assumes "length mem < 2 ^ 62" "ok_in mem InTopicList r" "0 < mr_TopicsLeft r"
  shows "stays (ok_in mem InPartitionList) (mr_FirstPartitionInTopic mem r)"
proof -
  have b: "0 \<le> mr_CurrentTopicNameLength r" "0 \<le> mr_CurrentTopicOffset r"
    "mr_CurrentTopicOffset r + (8 + mr_CurrentTopicNameLength r) \<le> int (length mem)"
    using assms by (auto simp: ok_in_def mr_ok_def item_in_def)
  define p where "p = mr_CurrentTopicOffset r + 4 + mr_CurrentTopicNameLength r"
  define n where "n = int32_at mem p"
  define r0 where "r0 = mr_ClearStateVariables (r\<lparr>mr_PartitionsLeftInTopic := nat n, mr_State := InPartitionList,
      mr_CurrentPartitionOffset := p + 4\<rparr>)"
  have "u64 (mr_CurrentTopicOffset r + RelPartitionCountOffset (mr_CurrentTopicNameLength r)) = p"
    "u64 (mr_CurrentTopicOffset r + RelPartitionCountOffset (mr_CurrentTopicNameLength r) + 4) = p + 4"
    using b assms(1) by (simp_all add: p_def RelPartitionCountOffset_def meta_consts u64_id)
  then have "mr_FirstPartitionInTopic mem r =
      (if n < 0 then throw_counted ''MetadataResponseNegativePartitionCount'' TNegativePartitionCount
       else mr_InitPartition mem r0)"
    using b by (simp add: mr_FirstPartitionInTopic_def mr_GetCurrentTopicPartitionCount_def
        MR_PARTITION_COUNT_SIZE_def Read_inside n_def r0_def throw_counted_def p_def)
  moreover have "stays (ok_in mem InPartitionList) (mr_InitPartition mem r0)"
    using assms(1) b
    by (intro InitPartition_safe) (simp_all add: r0_def p_def mr_ClearStateVariables_def Let_def)
  ultimately show ?thesis by (simp add: stays_def throw_counted_def)
qed

lemma NextPartition_safe:
  assumes "length mem < 2 ^ 62"
    and "ok_in mem InTopicList r \<and> 0 < mr_TopicsLeft r \<or> ok_in mem InPartitionList r \<and> 0 < mr_PartitionsLeftInTopic r"
  shows "stays (ok_in mem InPartitionList) (mr_NextPartitionInTopic mem r)"
proof (cases "mr_State r = InTopicList")
  case True
  with assms show ?thesis by (auto simp: mr_NextPartitionInTopic_def ok_in_def intro: FirstPartition_safe)
next
  case False
  with assms(2) have s: "mr_State r = InPartitionList" and r: "ok_in mem InPartitionList r \<and> 0 < mr_PartitionsLeftInTopic r"
    by (auto simp: ok_in_def)
  have init: "stays (ok_in mem InPartitionList) (mr_InitPartition mem
      (r\<lparr>mr_State := InPartitionList, mr_PartitionsLeftInTopic := mr_PartitionsLeftInTopic r - 1,
         mr_CurrentPartitionOffset := mr_CurrentCaughtUpReplicaOffset r\<rparr>))"
    if "ok_in mem InCaughtUpReplicaList r" for r
    using that assms(1) by (intro InitPartition_safe) (auto simp: ok_in_def mr_ok_def item_in_def)
  have "stays (ok_in mem InPartitionList)
      (bindF (mr_SkipRemainingReplicas mem r) (\<lambda>r. bindF (mr_SkipRemainingCaughtUpReplicas mem r) (\<lambda>r.
        mr_InitPartition mem
          (r\<lparr>mr_State := InPartitionList, mr_PartitionsLeftInTopic := mr_PartitionsLeftInTopic r - 1,
             mr_CurrentPartitionOffset := mr_CurrentCaughtUpReplicaOffset r\<rparr>))))"
    by (rule skips_stays [OF SkipRemainingReplicas_safe [OF assms(1) disjI1 [OF r]]],
        rule skips_stays [OF SkipRemainingCaughtUp_safe [OF assms(1)]], assumption, rule init)
  then show ?thesis using s by (simp add: mr_NextPartitionInTopic_def)
qed

lemma SkipRemainingPartitions_safe:
  assumes "length mem < 2 ^ 62"
    and "ok_in mem InTopicList r \<and> 0 < mr_TopicsLeft r \<or> ok_in mem InPartitionList r"
  shows "skips (ok_in mem InPartitionList) (mr_SkipRemainingPartitions mem r)"
proof -
  have loop: "skips (ok_in mem InPartitionList) (mr_skip_partitions mem r)" if "ok_in mem InPartitionList r" for r
    by (rule skips_weaken [OF skip_partitions.skip_keeps [of "ok_in mem InPartitionList" mem r]])
      (use that NextPartition_safe [OF assms(1)] in \<open>simp_all add: ok_in_def\<close>)
  show ?thesis
  proof (cases "mr_State r = InTopicList")
    case True
    with assms have "stays (ok_in mem InPartitionList) (mr_FirstPartitionInTopic mem r)"
      by (auto simp: ok_in_def intro!: FirstPartition_safe)
    then show ?thesis using True loop by (simp add: mr_SkipRemainingPartitions_def stays_skips_if)
  next
    case False
    with assms loop show ?thesis by (auto simp: mr_SkipRemainingPartitions_def ok_in_def)
  qed
qed

lemma InitTopic_safe:
  assumes "length mem < 2 ^ 62" "mr_State r = InTopicList"
    and "0 \<le> mr_CurrentTopicOffset r" "mr_CurrentTopicOffset r \<le> int (length mem)"
  shows "stays (\<lambda>r'. accepted_negative r' \<or> ok_in mem InTopicList r') (mr_InitTopic mem r)"
proof (cases "int16_at mem (mr_CurrentTopicOffset r + 2) < 0")
  case True
  then have "2 ^ 15 \<le> u64 (int16_at mem (mr_CurrentTopicOffset r + 2))"
    using int16_at_range(1) [of mem "mr_CurrentTopicOffset r + 2"] by (simp add: u64_len)
  then show ?thesis using assms
    by (auto simp: stays_def ok_in_def mr_InitTopic_def Let_def space_after_eq meta_consts throw_counted_def
        Read_inside mr_ok_def item_in_def accepted_negative_def)
next
  case False
  then have "u64 (int16_at mem (mr_CurrentTopicOffset r + 2)) = int16_at mem (mr_CurrentTopicOffset r + 2)"
    "u64 (RelPartitionCountOffset (int16_at mem (mr_CurrentTopicOffset r + 2)) + 4) =
      int16_at mem (mr_CurrentTopicOffset r + 2) + 8"
    using int16_at_range(2) [of mem "mr_CurrentTopicOffset r + 2"]
    by (simp_all add: u64_len RelPartitionCountOffset_def meta_consts u64_id)
  then show ?thesis using assms
    by (auto simp: stays_def ok_in_def mr_InitTopic_def Let_def space_after_eq meta_consts throw_counted_def
        Read_inside mr_ok_def item_in_def)
qed

section \<open>Readers that occur\<close>

text \<open>The readers that calls of \<open>NextBroker\<close>, \<open>NextTopic\<close> and \<open>NextPartitionInTopic\<close> lead to.\<close>

inductive mr_reach :: "byte list \<Rightarrow> TMetadataResponseReader \<Rightarrow> bool" for mem where
  start: "mr_reach mem new_TMetadataResponseReader"
| broker: "mr_reach mem r \<Longrightarrow> mr_NextBroker mem r = Inr (ok, r') \<Longrightarrow> mr_reach mem r'"
| topic: "mr_reach mem r \<Longrightarrow> mr_NextTopic mem r = Inr (ok, r') \<Longrightarrow> mr_reach mem r'"
| part: "mr_reach mem r \<Longrightarrow> mr_NextPartitionInTopic mem r = Inr (ok, r') \<Longrightarrow> mr_reach mem r'"

definition no_negative_length :: "byte list \<Rightarrow> bool" where
  "no_negative_length mem \<longleftrightarrow> length mem < 2 ^ 62 \<and> (\<forall>r. mr_reach mem r \<longrightarrow> \<not> accepted_negative r)"

definition reach_in :: "byte list \<Rightarrow> TMetaReaderState \<Rightarrow> TMetadataResponseReader \<Rightarrow> bool" where
  "reach_in mem s r \<longleftrightarrow> mr_reach mem r \<and> ok_in mem s r"

lemma reach_NextBroker:
  assumes "no_negative_length mem" "mr_reach mem r"
    and "mr_State r = MRInitial \<or> ok_in mem InBrokerList r \<and> 0 < mr_BrokersLeft r"
  shows "stays (reach_in mem InBrokerList) (mr_NextBroker mem r)"
proof -
  have "mr_ok mem r" using assms(3) by (auto simp: ok_in_def mr_ok_def)
  with assms have "stays (\<lambda>r'. accepted_negative r' \<or> ok_in mem InBrokerList r') (mr_NextBroker mem r)"
    by (intro NextBroker_safe) (auto simp: no_negative_length_def ok_in_def)
  then show ?thesis using assms(1) mr_reach.broker [OF assms(2)]
    by (auto simp: stays_def reach_in_def no_negative_length_def)
qed

lemma SkipRemainingBrokers_safe:
  assumes "no_negative_length mem" "mr_reach mem r" "mr_State r = MRInitial \<or> ok_in mem InBrokerList r"
  shows "skips (\<lambda>r'. ok_in mem InBrokerList r') (mr_SkipRemainingBrokers mem r)"
proof -
  have loop: "skips (\<lambda>r'. ok_in mem InBrokerList r') (mr_skip_brokers mem r)" if "reach_in mem InBrokerList r" for r
    by (rule skips_weaken [OF skip_brokers.skip_keeps [of "reach_in mem InBrokerList" mem r]])
      (use that reach_NextBroker [OF assms(1)] in \<open>simp_all add: reach_in_def ok_in_def\<close>)
  show ?thesis
  proof (cases "mr_State r = MRInitial")
    case True
    with reach_NextBroker [OF assms(1,2)] have "stays (reach_in mem InBrokerList) (mr_FirstBroker mem r)"
      by (simp add: mr_NextBroker_def)
    then have "skips (ok_in mem InBrokerList)
        (bindF (mr_FirstBroker mem r) (\<lambda>(ok, r). if \<not> ok then Inr r else mr_skip_brokers mem r))"
      by (rule stays_skips_if) (simp_all add: loop reach_in_def [THEN iffD1])
    then show ?thesis using True by (simp add: mr_SkipRemainingBrokers_def)
  next
    case False
    with assms loop show ?thesis by (simp add: mr_SkipRemainingBrokers_def reach_in_def)
  qed
qed

lemma GetTopicCount_safe:
  assumes "length mem < 2 ^ 62" "ok_in mem InBrokerList r"
  shows "mr_GetTopicCount mem r \<noteq> Inl Undefined"
    and "mr_GetTopicCount mem r = Inr n \<Longrightarrow>
      0 \<le> mr_CurrentBrokerOffset r \<and> mr_CurrentBrokerOffset r + 4 \<le> int (length mem)"
  using assms
  by (auto simp: mr_GetTopicCount_def ok_in_def mr_ok_def item_in_def space_after_eq
      meta_consts throw_counted_def Read_inside split: if_splits)

lemma FirstTopic_safe:
  assumes "no_negative_length mem" "mr_reach mem r" "mr_State r = MRInitial \<or> ok_in mem InBrokerList r"
  shows "stays (\<lambda>r'. accepted_negative r' \<or> ok_in mem InTopicList r') (mr_FirstTopic mem r)"
proof -
  have len: "length mem < 2 ^ 62" using assms(1) by (simp add: no_negative_length_def)
  have s: "st_num (mr_State r) \<le> st_num InBrokerList" using assms(3) by (auto simp: ok_in_def)
  have rest: "stays (\<lambda>r'. accepted_negative r' \<or> ok_in mem InTopicList r')
      (bindF (mr_GetTopicCount mem r1) (\<lambda>n. mr_InitTopic mem (mr_ClearStateVariables
       (r1\<lparr>mr_TopicsLeft := n, mr_State := InTopicList,
          mr_CurrentTopicOffset := mr_CurrentBrokerOffset r1 + MR_TOPIC_COUNT_SIZE\<rparr>))))"
    if "ok_in mem InBrokerList r1" for r1
  proof (cases "mr_GetTopicCount mem r1")
    case (Inl e)
    then show ?thesis using GetTopicCount_safe(1) [OF len that] by (simp add: stays_def)
  next
    case (Inr n)
    with GetTopicCount_safe(2) [OF len that Inr] len show ?thesis
      by (auto intro!: InitTopic_safe simp: mr_ClearStateVariables_def Let_def meta_consts)
  qed
  have "stays (\<lambda>r'. accepted_negative r' \<or> ok_in mem InTopicList r')
      (bindF (mr_SkipRemainingBrokers mem r) (\<lambda>r. bindF (mr_GetTopicCount mem r) (\<lambda>n.
        mr_InitTopic mem (mr_ClearStateVariables
         (r\<lparr>mr_TopicsLeft := n, mr_State := InTopicList,
          mr_CurrentTopicOffset := mr_CurrentBrokerOffset r + MR_TOPIC_COUNT_SIZE\<rparr>)))))"
    by (rule skips_stays [OF SkipRemainingBrokers_safe [OF assms]]) (rule rest)
  then show ?thesis using s by (simp add: mr_FirstTopic_def)
qed

lemma reach_NextTopic:
  assumes "no_negative_length mem" "mr_reach mem r"
    and "mr_State r = MRInitial \<or> ok_in mem InBrokerList r \<or> ok_in mem InTopicList r \<and> 0 < mr_TopicsLeft r
      \<or> ok_in mem InPartitionList r"
  shows "stays (reach_in mem InTopicList) (mr_NextTopic mem r)"
proof -
  have len: "length mem < 2 ^ 62" using assms(1) by (simp add: no_negative_length_def)
  have "stays (\<lambda>r'. accepted_negative r' \<or> ok_in mem InTopicList r') (mr_NextTopic mem r)"
  proof (cases "st_num (mr_State r) \<le> st_num InBrokerList")
    case True
    with FirstTopic_safe [OF assms(1,2)] assms(3) show ?thesis by (auto simp: mr_NextTopic_def ok_in_def)
  next
    case False
    with assms(3) have "ok_in mem InTopicList r \<and> 0 < mr_TopicsLeft r \<or> ok_in mem InPartitionList r"
      by (auto simp: ok_in_def)
    from SkipRemainingPartitions_safe [OF len this]
    have "stays (\<lambda>r'. accepted_negative r' \<or> ok_in mem InTopicList r') (bindF (mr_SkipRemainingPartitions mem r) (\<lambda>r.
        mr_InitTopic mem (r\<lparr>mr_State := InTopicList, mr_TopicsLeft := mr_TopicsLeft r - 1,
             mr_CurrentTopicOffset := mr_CurrentPartitionOffset r\<rparr>)))"
      by (rule skips_stays) (rule InitTopic_safe, use len in \<open>auto simp: ok_in_def mr_ok_def item_in_def\<close>)
    then show ?thesis using False by (simp add: mr_NextTopic_def)
  qed
  then show ?thesis using assms(1) mr_reach.topic [OF assms(2)]
    by (auto simp: stays_def reach_in_def no_negative_length_def)
qed

lemma reach_NextPartition:
  assumes "no_negative_length mem" "mr_reach mem r"
    and "ok_in mem InTopicList r \<and> 0 < mr_TopicsLeft r \<or> ok_in mem InPartitionList r \<and> 0 < mr_PartitionsLeftInTopic r"
  shows "stays (reach_in mem InPartitionList) (mr_NextPartitionInTopic mem r)"
  using NextPartition_safe [of mem r] assms(1,3) mr_reach.part [OF assms(2)]
  by (auto simp: stays_def reach_in_def no_negative_length_def)

section \<open>The loops over the response\<close>

lemma stays_cases:
  assumes "stays P m"
  obtains e where "m = Inl (Thrown e)" | ok r where "m = Inr (ok, r)" "P r"
  using assms by (metis old.sum.exhaust fault.exhaust stays_def surj_pair)

lemma brokers_loop_safe:
  "no_negative_length mem \<Longrightarrow> mr_reach mem r \<Longrightarrow>
   mr_State r = MRInitial \<or> ok_in mem InBrokerList r \<and> 0 < mr_BrokersLeft r \<Longrightarrow>
   mp_brokers_loop mem r b \<noteq> Inl Undefined \<and>
   (\<forall>r' b'. mp_brokers_loop mem r b = Inr (r', b') \<longrightarrow> reach_in mem InBrokerList r')"
proof (induction mem r b rule: mp_brokers_loop.induct)
  case (1 mem r b)
  have len: "length mem < 2 ^ 62" using "1.prems"(1) by (simp add: no_negative_length_def)
  from reach_NextBroker [OF "1.prems"] show ?case
  proof (cases rule: stays_cases)
    case (1 e)
    then show ?thesis by (simp add: mp_brokers_loop.simps [of mem r b])
  next
    case (2 ok r1)
    note nb = this
    show ?thesis
    proof (cases ok)
      case False
      with nb show ?thesis by (simp add: mp_brokers_loop.simps [of mem r b])
    next
      case True
      with nb have r1: "ok_in mem InBrokerList r1" "0 < mr_BrokersLeft r1" "mr_reach mem r1"
        using NextBroker_progress(3) [OF nb(1)] by (auto simp: reach_in_def)
      note c = current_broker_safe [of mem r1]
      show ?thesis
        using nb(1) True c r1 len "1.IH" [OF nb(1) refl _ _ _ _ "1.prems"(1)]
        by (subst (1 2) mp_brokers_loop.simps)
          (auto simp: ok_in_def bindF_eq_Undefined bindF_eq_Inr)
    qed
  qed
qed

lemma partitions_loop_safe:
  "no_negative_length mem \<Longrightarrow> mr_reach mem r \<Longrightarrow>
   ok_in mem InTopicList r \<and> 0 < mr_TopicsLeft r \<or> ok_in mem InPartitionList r \<and> 0 < mr_PartitionsLeftInTopic r \<Longrightarrow>
   mp_partitions_loop mem r b \<noteq> Inl Undefined \<and>
   (\<forall>r' b'. mp_partitions_loop mem r b = Inr (r', b') \<longrightarrow> reach_in mem InPartitionList r')"
proof (induction mem r b rule: mp_partitions_loop.induct)
  case (1 mem r b)
  from reach_NextPartition [OF "1.prems"] show ?case
  proof (cases rule: stays_cases)
    case (1 e)
    then show ?thesis by (simp add: mp_partitions_loop.simps [of mem r b])
  next
    case (2 ok r1)
    note nb = this
    show ?thesis
    proof (cases ok)
      case False
      with nb show ?thesis by (simp add: mp_partitions_loop.simps [of mem r b])
    next
      case True
      with nb have r1: "ok_in mem InPartitionList r1" "0 < mr_PartitionsLeftInTopic r1" "mr_reach mem r1"
        using NextPartition_progress(3) [OF nb(1)] by (auto simp: reach_in_def)
      note c = current_partition_safe [of mem r1]
      show ?thesis
        using nb(1) True c r1 "1.IH" [OF nb(1) refl _ _ _ _ "1.prems"(1)]
        by (subst (1 2) mp_partitions_loop.simps)
          (auto simp: ok_in_def bindF_eq_Undefined bindF_eq_Inr)
    qed
  qed
qed

lemma topics_loop_safe:
  "no_negative_length mem \<Longrightarrow> mr_reach mem r \<Longrightarrow>
   ok_in mem InBrokerList r \<or> ok_in mem InTopicList r \<and> 0 < mr_TopicsLeft r \<or> ok_in mem InPartitionList r \<Longrightarrow>
   mp_topics_loop shuffle mem r b \<noteq> Inl Undefined"
proof (induction shuffle mem r b rule: mp_topics_loop.induct)
  case (1 shuffle mem r b)
  have len: "length mem < 2 ^ 62" using "1.prems"(1) by (simp add: no_negative_length_def)
  have "stays (reach_in mem InTopicList) (mr_NextTopic mem r)"
    using reach_NextTopic [OF "1.prems"(1,2)] "1.prems"(3) by blast
  then show ?case
  proof (cases rule: stays_cases)
    case (1 e)
    then show ?thesis by (simp add: mp_topics_loop.simps [of shuffle mem r b])
  next
    case (2 ok r1)
    note nt = this
    show ?thesis
    proof (cases ok)
      case False
      with nt show ?thesis by (simp add: mp_topics_loop.simps [of shuffle mem r b])
    next
      case True
      with nt have r1: "ok_in mem InTopicList r1" "0 < mr_TopicsLeft r1" "mr_reach mem r1"
        using meta_NextTopic_progress(2) [OF nt(1)] by (auto simp: reach_in_def)
      have c: "mr_GetCurrentTopicErrorCode mem r1 \<noteq> Inl Undefined" "mr_GetCurrentTopicName mem r1 \<noteq> Inl Undefined"
        using current_topic_safe [of mem r1] r1 len by (auto simp: ok_in_def)
      have skip: "mp_topics_loop shuffle mem r1 b \<noteq> Inl Undefined"
        if "mr_GetCurrentTopicErrorCode mem r1 = Inr e" "e \<noteq> 0" for e
        using "1.IH"(1) [OF nt(1) refl _ that "1.prems"(1) r1(3)] True r1 by simp
      have opens: "(let (opened, b') = mb_OpenTopic (to_string name) b
         in if opened
            then bindF (mp_partitions_loop mem r1 b') (\<lambda>(r'', b'').
                 mp_topics_loop shuffle mem r'' (mb_CloseTopic (shuffle (mb_CurrentTopicIndex b'')) b''))
            else mp_topics_loop shuffle mem r1 b') \<noteq> Inl Undefined"
        if e: "mr_GetCurrentTopicErrorCode mem r1 = Inr 0" "mr_GetCurrentTopicName mem r1 = Inr name" for name
      proof -
        obtain opened b' where o: "mb_OpenTopic (to_string name) b = (opened, b')" by (cases "mb_OpenTopic (to_string name) b")
        note p = partitions_loop_safe [OF "1.prems"(1) r1(3), of b']
        have "mp_topics_loop shuffle mem r'' (mb_CloseTopic (shuffle (mb_CurrentTopicIndex b'')) b'') \<noteq> Inl Undefined"
          if "mp_partitions_loop mem r1 b' = Inr (r'', b'')" opened for r'' b''
          using "1.IH"(2) [OF nt(1) refl _ e(1) _ e(2) o [symmetric] refl that(2,1) refl "1.prems"(1)] p that True r1
          by (auto simp: reach_in_def)
        moreover have "mp_topics_loop shuffle mem r1 b' \<noteq> Inl Undefined" if "\<not> opened"
          using "1.IH"(3) [OF nt(1) refl _ e(1) _ e(2) o [symmetric] refl that "1.prems"(1)] True r1 by simp
        ultimately show ?thesis using p r1 o by (auto simp: bindF_eq_Undefined)
      qed
      show ?thesis
        using nt(1) True c skip opens
        by (subst mp_topics_loop.simps) (auto simp: bindF_eq_Undefined)
    qed
  qed
qed

section \<open>The calls of the builder\<close>

text \<open>The loops make calls of the builder that respect its states, whatever the response holds.\<close>

definition builder_in :: "TCounters \<Rightarrow> TMetaBuilderState \<Rightarrow> TMetaBuilder \<Rightarrow> bool" where
  "builder_in c s b \<longleftrightarrow> (\<exists>cs. mb_run c cs b) \<and> mb_State b = s"

lemma builder_in_AddBroker:
  "builder_in c AddingBrokers b \<Longrightarrow> builder_in c AddingBrokers (mb_AddBroker i host port b)"
proof -
  have "mb_State (mb_AddBroker i host port b) = mb_State b" by (simp add: mb_AddBroker_def mb_count_def)
  then show "builder_in c AddingBrokers b \<Longrightarrow> builder_in c AddingBrokers (mb_AddBroker i host port b)"
    unfolding builder_in_def using mb_run.run_add_broker [of c _ b] by fastforce
qed

lemma builder_in_OpenTopic:
  assumes "builder_in c AddingTopics b" "mb_OpenTopic name b = (opened, b')"
  shows "builder_in c (if opened then AddingOneTopic else AddingTopics) b'"
proof -
  from assms(1) obtain cs where "mb_run c cs b" "mb_State b = AddingTopics" by (auto simp: builder_in_def)
  then have "mb_run c (cs @ [COpenTopic name]) b'" using mb_run.run_open_topic [of c cs b name] assms(2) by simp
  moreover have "mb_State b' = (if opened then AddingOneTopic else AddingTopics)"
    using assms by (auto simp: mb_OpenTopic_def mb_count_def builder_in_def split: if_splits)
  ultimately show ?thesis by (auto simp: builder_in_def)
qed

lemma builder_in_AddPartition:
  "builder_in c AddingOneTopic b \<Longrightarrow> builder_in c AddingOneTopic (mb_AddPartitionToTopic pid bid ok err b)"
proof -
  have "mb_State (mb_AddPartitionToTopic pid bid ok err b) = mb_State b"
    by (simp add: mb_AddPartitionToTopic_def mb_count_def Let_def split: option.splits)
  then show "builder_in c AddingOneTopic b \<Longrightarrow> builder_in c AddingOneTopic (mb_AddPartitionToTopic pid bid ok err b)"
    unfolding builder_in_def using mb_run.run_add_partition [of c _ b] by fastforce
qed

lemma builder_in_CloseTopic:
  assumes "builder_in c AddingOneTopic b" "is_shuffle sh"
  shows "builder_in c AddingTopics (mb_CloseTopic sh b)"
proof -
  from assms obtain cs where run: "mb_run c cs b" "mb_State b = AddingOneTopic" by (auto simp: builder_in_def)
  with CloseTopic_ok [of b sh] mb_run_ok [OF run(1)] mb_run.run_close_topic [OF run assms(2)] assms(2)
  show ?thesis by (auto simp: builder_in_def)
qed

lemma brokers_loop_builder:
  "builder_in c AddingBrokers b \<Longrightarrow> mp_brokers_loop mem r b = Inr (r', b') \<Longrightarrow> builder_in c AddingBrokers b'"
proof (induction mem r b rule: mp_brokers_loop.induct)
  case (1 mem r b)
  from "1.prems"(2) obtain ok r1 where nb: "mr_NextBroker mem r = Inr (ok, r1)"
    by (subst (asm) mp_brokers_loop.simps) (auto simp: bindF_eq_Inr)
  show ?case
  proof (cases ok)
    case False
    then show ?thesis using "1.prems" nb by (subst (asm) mp_brokers_loop.simps) auto
  next
    case True
    with "1.prems"(2) nb obtain h i p where
      e: "mr_GetCurrentBrokerHost mem r1 = Inr h" "mr_GetCurrentBrokerNodeId mem r1 = Inr i"
      "mr_GetCurrentBrokerPort mem r1 = Inr p"
      and rest: "mp_brokers_loop mem r1 (mb_AddBroker i (to_string h) p b) = Inr (r', b')"
      by (subst (asm) mp_brokers_loop.simps) (auto simp: bindF_eq_Inr)
    show ?thesis
      using "1.IH" [OF nb refl _ e builder_in_AddBroker [OF "1.prems"(1)] rest] True by simp
  qed
qed

lemma partitions_loop_builder:
  "builder_in c AddingOneTopic b \<Longrightarrow> mp_partitions_loop mem r b = Inr (r', b') \<Longrightarrow> builder_in c AddingOneTopic b'"
proof (induction mem r b rule: mp_partitions_loop.induct)
  case (1 mem r b)
  from "1.prems"(2) obtain ok r1 where np: "mr_NextPartitionInTopic mem r = Inr (ok, r1)"
    by (subst (asm) mp_partitions_loop.simps) (auto simp: bindF_eq_Inr)
  show ?case
  proof (cases ok)
    case False
    then show ?thesis using "1.prems" np by (subst (asm) mp_partitions_loop.simps) auto
  next
    case True
    with "1.prems"(2) np obtain e i l where
      e: "mr_GetCurrentPartitionErrorCode mem r1 = Inr e" "mr_GetCurrentPartitionId mem r1 = Inr i"
      "mr_GetCurrentPartitionLeaderId mem r1 = Inr l"
      and rest: "mp_partitions_loop mem r1 (mb_AddPartitionToTopic i l (CanSendToPartition e) e b) = Inr (r', b')"
      by (subst (asm) mp_partitions_loop.simps) (auto simp: bindF_eq_Inr)
    show ?thesis
      using "1.IH" [OF np refl _ e builder_in_AddPartition [OF "1.prems"(1)] rest] True by simp
  qed
qed

lemma topics_loop_builder:
  assumes sh: "\<And>i. is_shuffle (shuffle i)"
  shows "builder_in c AddingTopics b \<Longrightarrow> mp_topics_loop shuffle mem r b = Inr b' \<Longrightarrow> builder_in c AddingTopics b'"
  using sh
proof (induction shuffle mem r b rule: mp_topics_loop.induct)
  case (1 shuffle mem r b)
  from "1.prems"(2) obtain ok r1 where nt: "mr_NextTopic mem r = Inr (ok, r1)"
    by (subst (asm) mp_topics_loop.simps) (auto simp: bindF_eq_Inr)
  show ?case
  proof (cases ok)
    case False
    then show ?thesis using "1.prems" nt by (subst (asm) mp_topics_loop.simps) auto
  next
    case True
    with "1.prems"(2) nt obtain e where e: "mr_GetCurrentTopicErrorCode mem r1 = Inr e"
      by (subst (asm) mp_topics_loop.simps) (auto simp: bindF_eq_Inr)
    show ?thesis
    proof (cases "e = 0")
      case False
      then have "mp_topics_loop shuffle mem r1 b = Inr b'"
        using "1.prems"(2) nt True e by (subst (asm) mp_topics_loop.simps) simp
      from "1.IH"(1) [OF nt refl _ e False "1.prems"(1) this "1.prems"(3)] True show ?thesis by simp
    next
      case zero: True
      with "1.prems"(2) nt True e obtain name where name: "mr_GetCurrentTopicName mem r1 = Inr name"
        by (subst (asm) mp_topics_loop.simps) (auto simp: bindF_eq_Inr)
      obtain opened b1 where o: "mb_OpenTopic (to_string name) b = (opened, b1)"
        by (cases "mb_OpenTopic (to_string name) b")
      note b1 = builder_in_OpenTopic [OF "1.prems"(1) o]
      have run: "(if opened then bindF (mp_partitions_loop mem r1 b1) (\<lambda>(r'', b'').
            mp_topics_loop shuffle mem r'' (mb_CloseTopic (shuffle (mb_CurrentTopicIndex b'')) b''))
          else mp_topics_loop shuffle mem r1 b1) = Inr b'"
        using "1.prems"(2) nt True e zero name o by (subst (asm) mp_topics_loop.simps) simp
      show ?thesis
      proof (cases opened)
        case op: True
        with run obtain r2 b2 where p: "mp_partitions_loop mem r1 b1 = Inr (r2, b2)"
          "mp_topics_loop shuffle mem r2 (mb_CloseTopic (shuffle (mb_CurrentTopicIndex b2)) b2) = Inr b'"
          by (auto simp: bindF_eq_Inr)
        have "builder_in c AddingTopics (mb_CloseTopic (shuffle (mb_CurrentTopicIndex b2)) b2)"
          using partitions_loop_builder [OF _ p(1), of c] b1 op "1.prems"(3) by (auto intro: builder_in_CloseTopic)
        from "1.IH"(2) [OF nt refl _ e _ name o [symmetric] refl op p(1) refl this p(2) "1.prems"(3)] True zero
        show ?thesis by simp
      next
        case op: False
        with b1 have "builder_in c AddingTopics b1" by simp
        from "1.IH"(3) [OF nt refl _ e _ name o [symmetric] refl op this _ "1.prems"(3)] True zero run op
        show ?thesis by simp
      qed
    qed
  qed
qed

lemma response_built:
  assumes "BuildMetadataFromResponse shuffle reorder counters mem = Inr m"
    and "\<And>i. is_shuffle (shuffle i)" "is_reorder reorder"
  shows "\<exists>cs. is_built cs m"
proof -
  let ?b0 = "mb_OpenBrokerList (new_TMetaBuilder counters)"
  from assms(1) obtain r b1 b2 where l: "mp_brokers_loop mem new_TMetadataResponseReader ?b0 = Inr (r, b1)"
    "mp_topics_loop shuffle mem r (mb_CloseBrokerList b1) = Inr b2" "m = fst (mb_Build reorder b2)"
    by (auto simp: BuildMetadataFromResponse_def bindF_eq_Inr)
  have "mb_run counters ([] @ [COpenBrokerList]) ?b0"
    by (intro mb_run.intros) (simp add: new_TMetaBuilder_def)
  then have "builder_in counters AddingBrokers ?b0" by (auto simp: builder_in_def mb_OpenBrokerList_def)
  from brokers_loop_builder [OF this l(1)] obtain cs where "mb_run counters cs b1" "mb_State b1 = AddingBrokers"
    by (auto simp: builder_in_def)
  from mb_run.run_close_brokers [OF this] have "builder_in counters AddingTopics (mb_CloseBrokerList b1)"
    by (auto simp: builder_in_def mb_CloseBrokerList_def)
  from topics_loop_builder [OF assms(2) this l(2)] l(3) assms(3) show ?thesis
    unfolding builder_in_def is_built_def by blast
qed

section \<open>Properties\<close>

text \<open>A response with broker 5 at \<open>h:9092\<close>, and topic \<open>t\<close> with partition 0 on it.\<close>

definition ex_response :: "byte list" where
  "ex_response =
     [0, 0, 0, 55, 0, 0, 0, 7,
      0, 0, 0, 1, 0, 0, 0, 5, 0, 1, 104, 0, 0, 35, 132,
      0, 0, 0, 1, 0, 0, 0, 1, 116, 0, 0, 0, 1,
      0, 0, 0, 0, 0, 0, 0, 0, 0, 5, 0, 0, 0, 1, 0, 0, 0, 5, 0, 0, 0, 0]"

text \<open>A response with one broker, the length of its host name is -1.\<close>

definition null_host_response :: "byte list" where
  "null_host_response =
     [0, 0, 0, 21, 0, 0, 0, 7,
      0, 0, 0, 1, 0, 0, 0, 5, 255, 255, 0, 0, 35, 132,
      0, 0, 0, 0]"



text \<open>
  C26. The metadata that is built from a response, whatever the response holds, passes the code's
  own consistency check and is what some history of builder calls makes.
\<close>

theorem metadata_response_sane:
  assumes "BuildMetadataFromResponse shuffle reorder counters mem = Inr m"
    and "\<And>i. is_shuffle (shuffle i)" "is_reorder reorder"
  shows "DoSanityCheck m \<and> (\<exists>cs. is_built cs m)"
  using response_built [OF assms] is_built_ok(1) DoSanityCheck_ok by blast

lemma ex_response_built:
  "BuildMetadataFromResponse (\<lambda>_ xs. xs) ex_reorder (\<lambda>_. 0) ex_response =
     Inr \<lparr>md_Brokers = [MarkInService (new_TBroker 5 ''h'' 9092)], md_InServiceBrokerCount = 1,
       md_TopicBrokerVec = [0],
       md_Topics = [\<lparr>tp_OkPartitions = [\<lparr>pa_Id = 0, pa_BrokerIndex = 0, pa_ErrorCode = 0\<rparr>],
         tp_OutOfServicePartitions = [], tp_AllPartitions = [\<lparr>pa_Id = 0, pa_BrokerIndex = 0, pa_ErrorCode = 0\<rparr>],
         tp_PartitionChoiceMap = [(0, \<lparr>pc_TopicBrokerVecIndex = 0, pc_TopicBrokerVecNumItems = 1\<rparr>)]\<rparr>],
       md_TopicNameToIndex = [(''t'', 0)]\<rparr>"
  by code_simp

theorem metadata_response_sane_witness:
  "\<exists>m. BuildMetadataFromResponse (\<lambda>_ xs. xs) ex_reorder (\<lambda>_. 0) ex_response = Inr m \<and>
     map br_Hostname (md_Brokers m) = [''h''] \<and> DoSanityCheck m"
proof -
  have "is_shuffle (\<lambda>xs. xs)" by (simp add: is_shuffle_def)
  from metadata_response_sane [OF ex_response_built this ex_reorder_ok] ex_response_built
  show ?thesis by (intro exI conjI) (auto simp: MarkInService_def new_TBroker_def)
qed

text \<open>
  C27. A response with a broker whose host name has length -1, Kafka's null string, is not rejected:
  the length becomes a huge \<open>size_t\<close>, the sums for the size of the broker wrap around, and the
  host name is taken from a range that ends before it begins, which is undefined.
\<close>

theorem null_host_undefined:
  "BuildMetadataFromResponse shuffle reorder counters null_host_response = Inl Undefined"
  unfolding BuildMetadataFromResponse_def by code_simp

end
