(* ===== verification/Buf.thy ===== *)
theory Buf
  imports Field_Access
begin

text \<open>
  \<open>src/base/buf.h\<close>: \<open>TBuf\<close>, the buffer of bytes between a socket and the code that produces or consumes
  them.  Items are added at the end of the data and consumed from its front; storage is reused by moving the
  data to the front.  It behaves as a queue of bytes.
\<close>

section \<open>Definitions\<close>

record TBuf =
  bf_Storage :: "byte list"
  bf_ItemOffset :: nat
  bf_ItemCount :: nat

definition new_TBuf :: "byte list \<Rightarrow> TBuf" where
  "new_TBuf items = \<lparr>bf_Storage = items, bf_ItemOffset = 0, bf_ItemCount = length items\<rparr>"

text \<open>The bytes from \<open>Data()\<close> on, \<open>DataSize()\<close> of them.\<close>

definition bf_Data :: "TBuf \<Rightarrow> byte list" where
  "bf_Data b = take (bf_ItemCount b) (drop (bf_ItemOffset b) (bf_Storage b))"

definition bf_DataSize :: "TBuf \<Rightarrow> nat" where
  "bf_DataSize b = bf_ItemCount b"

definition bf_DataIsEmpty :: "TBuf \<Rightarrow> bool" where
  "bf_DataIsEmpty b \<longleftrightarrow> bf_DataSize b = 0"

definition bf_SpaceSize :: "TBuf \<Rightarrow> nat" where
  "bf_SpaceSize b = length (bf_Storage b) - bf_ItemOffset b - bf_ItemCount b"

definition bf_MarkSpaceConsumed :: "nat \<Rightarrow> TBuf \<Rightarrow> TBuf" where
  "bf_MarkSpaceConsumed n b = b\<lparr>bf_ItemCount := bf_ItemCount b + n\<rparr>"

definition bf_MarkDataConsumed :: "nat \<Rightarrow> TBuf \<Rightarrow> TBuf" where
  "bf_MarkDataConsumed n b =
     (let b = b\<lparr>bf_ItemOffset := bf_ItemOffset b + n, bf_ItemCount := bf_ItemCount b - n\<rparr>
      in if bf_ItemCount b = 0 then b\<lparr>bf_ItemOffset := 0\<rparr> else b)"

definition bf_Clear :: "TBuf \<Rightarrow> TBuf" where
  "bf_Clear b = bf_MarkDataConsumed (bf_ItemCount b) b"

definition bf_TakeStorage :: "TBuf \<Rightarrow> byte list \<times> TBuf" where
  "bf_TakeStorage b = (bf_Storage b, \<lparr>bf_Storage = [], bf_ItemOffset = 0, bf_ItemCount = 0\<rparr>)"

text \<open>The assignment of new contents.\<close>

definition bf_assign :: "byte list \<Rightarrow> TBuf \<Rightarrow> TBuf" where
  "bf_assign items b = \<lparr>bf_Storage = items, bf_ItemOffset = 0, bf_ItemCount = length items\<rparr>"

text \<open>Moving out of a buffer leaves it empty, as the moved-from vector is; the results are the new value of the
  target and that of the source.\<close>

definition bf_move :: "TBuf \<Rightarrow> TBuf \<times> TBuf" where
  "bf_move that = (that, \<lparr>bf_Storage = [], bf_ItemOffset = 0, bf_ItemCount = 0\<rparr>)"

definition bf_Swap :: "TBuf \<Rightarrow> TBuf \<Rightarrow> TBuf \<times> TBuf" where
  "bf_Swap this that = (that, this)"

definition bf_SpaceIsEmpty :: "TBuf \<Rightarrow> bool" where
  "bf_SpaceIsEmpty b \<longleftrightarrow> bf_SpaceSize b = 0"

definition bf_MoveDataToFront :: "TBuf \<Rightarrow> TBuf" where
  "bf_MoveDataToFront b =
     (if bf_ItemOffset b \<noteq> 0
      then b\<lparr>bf_Storage := bf_Data b @ drop (length (bf_Data b)) (bf_Storage b), bf_ItemOffset := 0\<rparr>
      else b)"

definition bf_DoAddSpace :: "nat \<Rightarrow> TBuf \<Rightarrow> TBuf" where
  "bf_DoAddSpace min_to_add b =
     (let added_by_move = bf_ItemOffset b;
          b = bf_MoveDataToFront b
      in if added_by_move < min_to_add
         then b\<lparr>bf_Storage := resize (length (bf_Storage b) + min_to_add - added_by_move) (bf_Storage b)\<rparr>
         else b)"

definition bf_AddSpace :: "nat \<Rightarrow> TBuf \<Rightarrow> TBuf" where
  "bf_AddSpace min_to_add b = (if min_to_add \<noteq> 0 then bf_DoAddSpace min_to_add b else b)"

definition bf_EnsureSpace :: "nat \<Rightarrow> TBuf \<Rightarrow> TBuf" where
  "bf_EnsureSpace min_size b =
     (let actual = bf_SpaceSize b in if actual < min_size then bf_DoAddSpace (min_size - actual) b else b)"

definition bf_EnsureDataPlusSpace :: "nat \<Rightarrow> TBuf \<Rightarrow> TBuf" where
  "bf_EnsureDataPlusSpace min_size b =
     (let actual = length (bf_Storage b) - bf_ItemOffset b
      in if actual < min_size then bf_DoAddSpace (min_size - actual) b else b)"

text \<open>A writer, such as \<open>read()\<close>, puts bytes at \<open>Space()\<close>.\<close>

definition bf_write_space :: "byte list \<Rightarrow> TBuf \<Rightarrow> 'e fault + TBuf" where
  "bf_write_space bs b =
     bindF (mem_write (bf_ItemOffset b + bf_ItemCount b) bs (bf_Storage b)) (\<lambda>s. Inr (b\<lparr>bf_Storage := s\<rparr>))"

section \<open>Correctness\<close>

text \<open>The conditions that the class asserts, and that an empty buffer starts at its front.\<close>

definition buf_wf :: "TBuf \<Rightarrow> bool" where
  "buf_wf b \<longleftrightarrow>
     (bf_Storage b = [] \<or> bf_ItemOffset b < length (bf_Storage b)) \<and>
     bf_ItemOffset b + bf_ItemCount b \<le> length (bf_Storage b) \<and>
     (bf_ItemCount b = 0 \<longrightarrow> bf_ItemOffset b = 0)"

lemma buf_wf_new [simp]: "buf_wf (new_TBuf items)" "buf_wf (bf_assign items b)" "buf_wf (snd (bf_TakeStorage b))"
  by (auto simp: buf_wf_def new_TBuf_def bf_assign_def bf_TakeStorage_def)

lemma bf_Data_new [simp]:
  "bf_Data (new_TBuf items) = items" "bf_Data (bf_assign items b) = items" "bf_Data (snd (bf_TakeStorage b)) = []"
  by (simp_all add: bf_Data_def new_TBuf_def bf_assign_def bf_TakeStorage_def)

lemma length_bf_Data: "buf_wf b \<Longrightarrow> length (bf_Data b) = bf_ItemCount b"
  by (auto simp: buf_wf_def bf_Data_def)

lemma bf_DataIsEmpty_iff: "buf_wf b \<Longrightarrow> bf_DataIsEmpty b \<longleftrightarrow> bf_Data b = []"
  using length_bf_Data [of b] by (auto simp: bf_DataIsEmpty_def bf_DataSize_def)

lemma bf_MarkDataConsumed_ok:
  assumes "buf_wf b" "n \<le> length (bf_Data b)"
  shows "buf_wf (bf_MarkDataConsumed n b)" "bf_Data (bf_MarkDataConsumed n b) = drop n (bf_Data b)"
proof -
  have n: "n \<le> bf_ItemCount b" using assms length_bf_Data by simp
  show "buf_wf (bf_MarkDataConsumed n b)"
    using assms(1) n by (auto simp: buf_wf_def bf_MarkDataConsumed_def Let_def)
  show "bf_Data (bf_MarkDataConsumed n b) = drop n (bf_Data b)"
    using assms(1) n by (auto simp: bf_Data_def bf_MarkDataConsumed_def Let_def drop_take add.commute)
qed

lemma bf_Clear_ok:
  assumes "buf_wf b"
  shows "buf_wf (bf_Clear b)" "bf_Data (bf_Clear b) = []"
  using bf_MarkDataConsumed_ok [OF assms, of "bf_ItemCount b"] assms length_bf_Data [OF assms] by (simp_all add: bf_Clear_def)

lemma bf_MoveDataToFront_ok:
  assumes "buf_wf b"
  shows "buf_wf (bf_MoveDataToFront b)" "bf_Data (bf_MoveDataToFront b) = bf_Data b"
    "bf_ItemOffset (bf_MoveDataToFront b) = 0" "length (bf_Storage (bf_MoveDataToFront b)) = length (bf_Storage b)"
    "bf_ItemCount (bf_MoveDataToFront b) = bf_ItemCount b"
  using assms length_bf_Data [OF assms] by (auto simp: bf_MoveDataToFront_def buf_wf_def bf_Data_def)

lemma bf_DoAddSpace_ok:
  assumes "buf_wf b"
  shows "buf_wf (bf_DoAddSpace n b)" "bf_Data (bf_DoAddSpace n b) = bf_Data b"
    "bf_SpaceSize b + n \<le> bf_SpaceSize (bf_DoAddSpace n b)"
    "length (bf_Storage b) - bf_ItemOffset b + n \<le> length (bf_Storage (bf_DoAddSpace n b)) - bf_ItemOffset (bf_DoAddSpace n b)"
proof -
  note m = bf_MoveDataToFront_ok [OF assms]
  have len: "length (resize k bs) = k" for k bs by (simp add: resize_def)
  show "buf_wf (bf_DoAddSpace n b)"
    using m len by (auto simp: bf_DoAddSpace_def Let_def buf_wf_def resize_def)
  have "take k (resize l bs) = take k bs" if "k \<le> length bs" "length bs \<le> l" for k l bs
    using that by (simp add: resize_def min_def)
  then show "bf_Data (bf_DoAddSpace n b) = bf_Data b"
    using m by (auto simp: bf_DoAddSpace_def Let_def bf_Data_def buf_wf_def)
  show "bf_SpaceSize b + n \<le> bf_SpaceSize (bf_DoAddSpace n b)"
    "length (bf_Storage b) - bf_ItemOffset b + n \<le> length (bf_Storage (bf_DoAddSpace n b)) - bf_ItemOffset (bf_DoAddSpace n b)"
    using m assms len by (auto simp: bf_DoAddSpace_def Let_def bf_SpaceSize_def buf_wf_def)
qed

lemma bf_EnsureSpace_ok:
  assumes "buf_wf b"
  shows "buf_wf (bf_EnsureSpace n b)" "bf_Data (bf_EnsureSpace n b) = bf_Data b" "n \<le> bf_SpaceSize (bf_EnsureSpace n b)"
  using bf_DoAddSpace_ok [OF assms, of "n - bf_SpaceSize b"] assms by (auto simp: bf_EnsureSpace_def Let_def)

lemma bf_AddSpace_ok:
  assumes "buf_wf b"
  shows "buf_wf (bf_AddSpace n b)" "bf_Data (bf_AddSpace n b) = bf_Data b"
    "bf_SpaceSize b + n \<le> bf_SpaceSize (bf_AddSpace n b)"
  using bf_DoAddSpace_ok [OF assms, of n] assms by (auto simp: bf_AddSpace_def)

lemma bf_EnsureDataPlusSpace_ok:
  assumes "buf_wf b"
  shows "buf_wf (bf_EnsureDataPlusSpace n b)" "bf_Data (bf_EnsureDataPlusSpace n b) = bf_Data b"
    "n \<le> length (bf_Data (bf_EnsureDataPlusSpace n b)) + bf_SpaceSize (bf_EnsureDataPlusSpace n b)"
proof -
  show wf: "buf_wf (bf_EnsureDataPlusSpace n b)" and "bf_Data (bf_EnsureDataPlusSpace n b) = bf_Data b"
    using bf_DoAddSpace_ok [OF assms] assms by (auto simp: bf_EnsureDataPlusSpace_def Let_def)
  have "n \<le> length (bf_Storage (bf_EnsureDataPlusSpace n b)) - bf_ItemOffset (bf_EnsureDataPlusSpace n b)"
    using bf_DoAddSpace_ok(4) [OF assms, of "n - (length (bf_Storage b) - bf_ItemOffset b)"]
    by (auto simp: bf_EnsureDataPlusSpace_def Let_def)
  then show "n \<le> length (bf_Data (bf_EnsureDataPlusSpace n b)) + bf_SpaceSize (bf_EnsureDataPlusSpace n b)"
    using wf length_bf_Data [OF wf] by (auto simp: bf_SpaceSize_def buf_wf_def)
qed

lemma bf_write_space_ok:
  assumes "buf_wf b" "length bs \<le> bf_SpaceSize b"
  shows "\<exists>b'. bf_write_space bs b = Inr b' \<and> buf_wf (bf_MarkSpaceConsumed (length bs) b') \<and>
    bf_Data (bf_MarkSpaceConsumed (length bs) b') = bf_Data b @ bs"
proof -
  let ?p = "bf_ItemOffset b + bf_ItemCount b"
  have p: "?p + length bs \<le> length (bf_Storage b)" using assms by (auto simp: buf_wf_def bf_SpaceSize_def)
  let ?s = "take ?p (bf_Storage b) @ bs @ drop (?p + length bs) (bf_Storage b)"
  have "bf_write_space bs b = Inr (b\<lparr>bf_Storage := ?s\<rparr>)" using p by (simp add: bf_write_space_def mem_write_def)
  moreover have "bf_Data (bf_MarkSpaceConsumed (length bs) (b\<lparr>bf_Storage := ?s\<rparr>)) = bf_Data b @ bs"
    using p by (simp add: bf_Data_def bf_MarkSpaceConsumed_def drop_take)
  moreover have "buf_wf (bf_MarkSpaceConsumed (length bs) (b\<lparr>bf_Storage := ?s\<rparr>))"
    using p assms(1) by (auto simp: buf_wf_def bf_MarkSpaceConsumed_def)
  ultimately show ?thesis by blast
qed

section \<open>Histories of a buffer\<close>

datatype buf_op =
  BAssign "byte list" | BClear | BTakeStorage | BMoveDataToFront | BAddSpace nat | BEnsureSpace nat |
  BEnsureDataPlusSpace nat | BFill "byte list" | BConsume nat

fun buf_step :: "buf_op \<Rightarrow> TBuf \<Rightarrow> unit fault + TBuf" where
  "buf_step (BAssign bs) b = Inr (bf_assign bs b)"
| "buf_step BClear b = Inr (bf_Clear b)"
| "buf_step BTakeStorage b = Inr (snd (bf_TakeStorage b))"
| "buf_step BMoveDataToFront b = Inr (bf_MoveDataToFront b)"
| "buf_step (BAddSpace n) b = Inr (bf_AddSpace n b)"
| "buf_step (BEnsureSpace n) b = Inr (bf_EnsureSpace n b)"
| "buf_step (BEnsureDataPlusSpace n) b = Inr (bf_EnsureDataPlusSpace n b)"
| "buf_step (BFill bs) b = bindF (bf_write_space bs b) (\<lambda>b. Inr (bf_MarkSpaceConsumed (length bs) b))"
| "buf_step (BConsume n) b = Inr (bf_MarkDataConsumed n b)"

text \<open>What the interface asks of its callers: not to exceed the space and the data there are.\<close>

fun buf_allowed :: "buf_op \<Rightarrow> TBuf \<Rightarrow> bool" where
  "buf_allowed (BFill bs) b \<longleftrightarrow> length bs \<le> bf_SpaceSize b"
| "buf_allowed (BConsume n) b \<longleftrightarrow> n \<le> bf_DataSize b"
| "buf_allowed _ b \<longleftrightarrow> True"

fun byte_queue_step :: "buf_op \<Rightarrow> byte list \<Rightarrow> byte list" where
  "byte_queue_step (BAssign bs) q = bs"
| "byte_queue_step BClear q = []"
| "byte_queue_step BTakeStorage q = []"
| "byte_queue_step (BFill bs) q = q @ bs"
| "byte_queue_step (BConsume n) q = drop n q"
| "byte_queue_step _ q = q"

text \<open>A history, as long as the callers keep to this.\<close>

fun buf_run :: "buf_op list \<Rightarrow> TBuf \<Rightarrow> TBuf option" where
  "buf_run [] b = Some b"
| "buf_run (op # ops) b =
     (if buf_allowed op b then case buf_step op b of Inl _ \<Rightarrow> None | Inr b' \<Rightarrow> buf_run ops b' else None)"

lemma buf_step_ok:
  assumes "buf_wf b" "buf_allowed op b"
  shows "\<exists>b'. buf_step op b = Inr b' \<and> buf_wf b' \<and> bf_Data b' = byte_queue_step op (bf_Data b)"
proof (cases op)
  case (BFill bs)
  then have "length bs \<le> bf_SpaceSize b" using assms(2) by simp
  from bf_write_space_ok [OF assms(1) this] obtain b' where
    "(bf_write_space bs b :: unit fault + TBuf) = Inr b'" "buf_wf (bf_MarkSpaceConsumed (length bs) b')"
    "bf_Data (bf_MarkSpaceConsumed (length bs) b') = bf_Data b @ bs" by blast
  with BFill show ?thesis by simp
next
  case (BConsume n)
  then show ?thesis using assms bf_MarkDataConsumed_ok [OF assms(1), of n] length_bf_Data [OF assms(1)]
    by (simp add: bf_DataSize_def)
qed (use assms(1) in \<open>simp_all add: bf_Clear_ok bf_MoveDataToFront_ok bf_AddSpace_ok bf_EnsureSpace_ok bf_EnsureDataPlusSpace_ok\<close>)

text \<open>
  C32. A buffer is a queue of bytes: over every history of operations that stay within the space and the
  data available, the conditions asserted in the class hold, the data are what a queue has after the same
  operations, and no operation accesses memory outside of the storage.
\<close>

theorem buffer_is_queue:
  assumes "buf_run ops (new_TBuf []) = Some b"
  shows "buf_wf b \<and> bf_Data b = fold byte_queue_step ops [] \<and> length (bf_Data b) = bf_DataSize b \<and>
    (\<forall>op. buf_allowed op b \<longrightarrow> (\<exists>b'. buf_step op b = Inr b'))"
proof -
  have "buf_wf b \<and> bf_Data b = fold byte_queue_step ops (bf_Data b0)" if "buf_run ops b0 = Some b" "buf_wf b0" for b0
    using that
  proof (induction ops arbitrary: b0)
    case (Cons op ops)
    then show ?case using buf_step_ok [of b0 op] by (auto split: if_splits)
  qed simp
  from this [OF assms] have b: "buf_wf b" "bf_Data b = fold byte_queue_step ops []" by simp_all
  have "\<exists>b'. buf_step op b = Inr b'" if "buf_allowed op b" for op using buf_step_ok [OF b(1) that] by auto
  with b length_bf_Data [OF b(1)] show ?thesis by (simp add: bf_DataSize_def)
qed

theorem buffer_is_queue_witness:
  "\<exists>b. buf_run [BEnsureSpace 4, BFill [1, 2, 3], BConsume 2, BEnsureSpace 3, BFill [4, 5]] (new_TBuf []) = Some b \<and>
     buf_wf b \<and> bf_Data b = [3, 4, 5]"
proof -
  have "buf_run [BEnsureSpace 4, BFill [1, 2, 3], BConsume 2, BEnsureSpace 3, BFill [4, 5]] (new_TBuf []) =
      Some \<lparr>bf_Storage = [3, 4, 5, 0], bf_ItemOffset = 0, bf_ItemCount = 3\<rparr>"
    by code_simp
  from buffer_is_queue [OF this] this show ?thesis by auto
qed

end
