(* ===== verification/Stream_Reader.thy ===== *)
theory Stream_Reader
  imports Buf
begin

text \<open>
  \<open>src/base/stream_msg_reader.{h,cc}\<close> and \<open>src/base/stream_msg_with_size_reader.{h,cc}\<close>: a reader that
  cuts a stream of bytes from a socket into messages, each preceded by its size.  The virtual functions of the
  base class are called on the derived class.
\<close>

section \<open>Definitions\<close>

datatype TStreamState = ReadNeeded | MsgReady | DataInvalid | AtEnd

datatype TDataInvalidReason = InvalidSizeField | MsgBodyTooLarge

datatype TGetMsgResult = GmMsgReady nat nat nat | GmNoMsgReady | GmInvalid

text \<open>\<open>Die\<close> ends the program; a failed \<open>read()\<close> throws \<open>std::system_error\<close>.\<close>

datatype TStreamError = StreamDie | StreamSystemError

text \<open>The result of \<open>read()\<close>: bytes, none of them at the end of the stream, or an error, which may be one
  after which the call is just tried again (\<open>EAGAIN\<close>, \<open>EWOULDBLOCK\<close>, \<open>EINTR\<close>).\<close>

datatype read_result = ReadBytes "byte list" | ReadRetry | ReadError

record TStreamMsgReader =
  sr_SizeFieldSize :: nat
  sr_SizeFieldIsSigned :: bool
  sr_SizeIncludesSizeField :: bool
  sr_IncludeSizeFieldInMsg :: bool
  sr_MaxMsgBodySize :: nat
  sr_PreferredReadSize :: nat
  sr_OptMsgBodySize :: "nat option"
  sr_OptDataInvalidReason :: "TDataInvalidReason option"
  sr_State :: TStreamState
  sr_Fd :: int
  sr_Buf :: TBuf
  sr_ReadyMsgOffset :: nat
  sr_ReadyMsgSize :: nat
  sr_TrailingDataSize :: nat
  sr_EndOfInput :: bool

text \<open>The size field reading functions, for each of the sizes and with or without a sign.\<close>

definition sr_ReadSizeField :: "nat \<Rightarrow> bool \<Rightarrow> byte list \<Rightarrow> nat option" where
  "sr_ReadSizeField n is_signed data =
     (let v = be_value (take n data);
          size_value = (if is_signed then signed_take_bit (8 * n - 1) v else v)
      in if size_value < 0 then None else Some (nat size_value))"

definition size_field_size_ok :: "nat \<Rightarrow> bool" where
  "size_field_size_ok n \<longleftrightarrow> n = 1 \<or> n = 2 \<or> n = 4 \<or> n = 8"

definition sr_impl :: "int \<Rightarrow> TBuf \<Rightarrow> TStreamMsgReader \<Rightarrow> TStreamMsgReader" where
  "sr_impl fd buf r =
     r\<lparr>sr_State := if fd < 0 then AtEnd else ReadNeeded, sr_Fd := if fd < 0 then -1 else fd, sr_Buf := buf,
       sr_ReadyMsgOffset := 0, sr_ReadyMsgSize := 0, sr_TrailingDataSize := 0, sr_EndOfInput := fd < 0\<rparr>"

definition new_TStreamMsgReader ::
  "int \<Rightarrow> nat \<Rightarrow> bool \<Rightarrow> bool \<Rightarrow> bool \<Rightarrow> nat \<Rightarrow> nat \<Rightarrow> TStreamError fault + TStreamMsgReader" where
  "new_TStreamMsgReader fd size_field_size is_signed includes include_in_msg max_body preferred =
     (if \<not> size_field_size_ok size_field_size then Inl (Thrown StreamDie)
      else Inr (sr_impl fd (new_TBuf [])
        \<lparr>sr_SizeFieldSize = size_field_size, sr_SizeFieldIsSigned = is_signed, sr_SizeIncludesSizeField = includes,
         sr_IncludeSizeFieldInMsg = include_in_msg, sr_MaxMsgBodySize = max_body, sr_PreferredReadSize = preferred,
         sr_OptMsgBodySize = None, sr_OptDataInvalidReason = None, sr_State = AtEnd, sr_Fd = -1, sr_Buf = new_TBuf [],
         sr_ReadyMsgOffset = 0, sr_ReadyMsgSize = 0, sr_TrailingDataSize = 0, sr_EndOfInput = True\<rparr>))"

definition sr_HandleReset :: "TStreamMsgReader \<Rightarrow> TStreamMsgReader" where
  "sr_HandleReset r = r\<lparr>sr_OptMsgBodySize := None, sr_OptDataInvalidReason := None\<rparr>"

definition sr_Reset :: "int \<Rightarrow> TStreamMsgReader \<Rightarrow> TStreamMsgReader" where
  "sr_Reset fd r = (let r = sr_HandleReset r in sr_impl fd (bf_Clear (sr_Buf r)) r)"

definition sr_SetMaxMsgBodySize :: "nat \<Rightarrow> TStreamMsgReader \<Rightarrow> TStreamMsgReader" where
  "sr_SetMaxMsgBodySize n r = r\<lparr>sr_MaxMsgBodySize := n\<rparr>"

definition sr_SetPreferredReadSize :: "nat \<Rightarrow> TStreamMsgReader \<Rightarrow> TStreamMsgReader" where
  "sr_SetPreferredReadSize n r = r\<lparr>sr_PreferredReadSize := n\<rparr>"

abbreviation sr_data :: "TStreamMsgReader \<Rightarrow> byte list" where
  "sr_data r \<equiv> bf_Data (sr_Buf r)"

text \<open>The part of \<open>GetNextMsg\<close> that obtains the size of the body from the size field.\<close>

definition sr_read_body_size :: "TStreamMsgReader \<Rightarrow> TDataInvalidReason + nat" where
  "sr_read_body_size r =
     (case sr_ReadSizeField (sr_SizeFieldSize r) (sr_SizeFieldIsSigned r) (sr_data r) of
        None \<Rightarrow> Inl InvalidSizeField
      | Some n \<Rightarrow>
          if sr_SizeIncludesSizeField r \<and> n < sr_SizeFieldSize r then Inl InvalidSizeField
          else if n > sr_MaxMsgBodySize r \<and>
                  (\<not> sr_SizeIncludesSizeField r \<or> n - sr_MaxMsgBodySize r > sr_SizeFieldSize r)
          then Inl MsgBodyTooLarge
          else Inr (if sr_SizeIncludesSizeField r then n - sr_SizeFieldSize r else n))"

definition sr_GetNextMsg :: "TStreamMsgReader \<Rightarrow> TGetMsgResult \<times> TStreamMsgReader" where
  "sr_GetNextMsg r =
     (let data_size = bf_DataSize (sr_Buf r);
          report = (\<lambda>body_size r.
            if data_size < sr_SizeFieldSize r + body_size then (GmNoMsgReady, r)
            else if sr_IncludeSizeFieldInMsg r then (GmMsgReady 0 (body_size + sr_SizeFieldSize r) 0, r)
            else (GmMsgReady (sr_SizeFieldSize r) body_size 0, r))
      in if data_size < sr_SizeFieldSize r then (GmNoMsgReady, r)
         else case sr_OptMsgBodySize r of
           Some body_size \<Rightarrow> report body_size r
         | None \<Rightarrow>
             case sr_read_body_size r of
               Inl reason \<Rightarrow> (GmInvalid, r\<lparr>sr_OptDataInvalidReason := Some reason\<rparr>)
             | Inr body_size \<Rightarrow> report body_size (r\<lparr>sr_OptMsgBodySize := Some body_size\<rparr>))"

definition sr_TryAdvanceToNextMsg :: "TStreamMsgReader \<Rightarrow> TStreamError fault + TStreamMsgReader" where
  "sr_TryAdvanceToNextMsg r =
     (let (result, r) = sr_GetNextMsg r
      in case result of
           GmMsgReady msg_offset msg_size trailing \<Rightarrow>
             if msg_offset > bf_DataSize (sr_Buf r) \<or> msg_size > bf_DataSize (sr_Buf r) - msg_offset \<or>
                int trailing >
                  (int (bf_DataSize (sr_Buf r)) - int (sr_ReadyMsgOffset r) - int (sr_ReadyMsgSize r)) mod 2 ^ 64
             then Inl (Thrown StreamDie)
             else Inr (r\<lparr>sr_ReadyMsgOffset := msg_offset, sr_ReadyMsgSize := msg_size,
                         sr_TrailingDataSize := trailing, sr_State := MsgReady\<rparr>)
         | GmNoMsgReady \<Rightarrow> Inr (r\<lparr>sr_State := if sr_EndOfInput r then AtEnd else ReadNeeded\<rparr>)
         | GmInvalid \<Rightarrow> Inr (r\<lparr>sr_State := DataInvalid\<rparr>))"

definition sr_PrepareForRead :: "TStreamMsgReader \<Rightarrow> TStreamError fault + nat \<times> TStreamMsgReader" where
  "sr_PrepareForRead r =
     (if sr_State r \<noteq> ReadNeeded then Inl (Thrown StreamDie)
      else let read_size = sr_PreferredReadSize r
           in Inr (read_size, r\<lparr>sr_Buf := bf_EnsureSpace read_size (sr_Buf r)\<rparr>))"

text \<open>\<open>Read\<close> with \<open>ProcessReadResult\<close>; the bytes that \<open>read()\<close> gives are put into the buffer.\<close>

definition sr_ProcessReadResult :: "read_result \<Rightarrow> TStreamMsgReader \<Rightarrow> TStreamError fault + TStreamMsgReader" where
  "sr_ProcessReadResult result r =
     (case result of
        ReadRetry \<Rightarrow> Inr r
      | ReadError \<Rightarrow> Inl (Thrown StreamSystemError)
      | ReadBytes bs \<Rightarrow>
          bindF (bf_write_space bs (sr_Buf r)) (\<lambda>buf.
          let r = (if bs = [] then r\<lparr>sr_EndOfInput := True\<rparr> else r)
          in sr_TryAdvanceToNextMsg (r\<lparr>sr_Buf := bf_MarkSpaceConsumed (length bs) buf\<rparr>)))"

definition sr_Read :: "(nat \<Rightarrow> read_result) \<Rightarrow> TStreamMsgReader \<Rightarrow> TStreamError fault + TStreamMsgReader" where
  "sr_Read read_fn r =
     bindF (sr_PrepareForRead r) (\<lambda>(read_size, r).
     if read_size = 0 then Inr r else sr_ProcessReadResult (read_fn read_size) r)"

definition sr_ConsumeReadyMsg :: "TStreamMsgReader \<Rightarrow> TStreamError fault + TStreamMsgReader" where
  "sr_ConsumeReadyMsg r =
     (if sr_State r \<noteq> MsgReady then Inl (Thrown StreamDie)
      else let r = r\<lparr>sr_OptMsgBodySize := None\<rparr>;
               r = r\<lparr>sr_Buf := bf_MarkDataConsumed
                       (sr_ReadyMsgOffset r + sr_ReadyMsgSize r + sr_TrailingDataSize r) (sr_Buf r),
                     sr_ReadyMsgOffset := 0, sr_ReadyMsgSize := 0, sr_TrailingDataSize := 0\<rparr>
           in sr_TryAdvanceToNextMsg r)"

text \<open>The bytes that \<open>GetReadyMsg\<close> and \<open>GetReadyMsgSize\<close> delimit.\<close>

definition sr_GetReadyMsg :: "TStreamMsgReader \<Rightarrow> TStreamError fault + byte list" where
  "sr_GetReadyMsg r =
     (let data_size = bf_DataSize (sr_Buf r)
      in if sr_State r \<noteq> MsgReady \<or> sr_Fd r < 0 \<or> sr_ReadyMsgOffset r > data_size \<or>
            sr_ReadyMsgSize r > data_size - sr_ReadyMsgOffset r \<or>
            sr_TrailingDataSize r > data_size - sr_ReadyMsgOffset r - sr_ReadyMsgSize r
         then Inl (Thrown StreamDie)
         else Inr (take (sr_ReadyMsgSize r) (drop (sr_ReadyMsgOffset r) (sr_data r))))"

section \<open>The messages of a stream\<close>

text \<open>The size of the body that the size field at the beginning of the data announces: incomplete, invalid or a
  number.\<close>

datatype frame = FrameIncomplete | FrameInvalid | FrameSize nat

definition frame_of :: "TStreamMsgReader \<Rightarrow> byte list \<Rightarrow> frame" where
  "frame_of r data =
     (if length data < sr_SizeFieldSize r then FrameIncomplete
      else case sr_ReadSizeField (sr_SizeFieldSize r) (sr_SizeFieldIsSigned r) data of
        None \<Rightarrow> FrameInvalid
      | Some n \<Rightarrow>
          let body = (if sr_SizeIncludesSizeField r then n - sr_SizeFieldSize r else n)
          in if sr_SizeIncludesSizeField r \<and> n < sr_SizeFieldSize r \<or> body > sr_MaxMsgBodySize r then FrameInvalid
             else if length data < sr_SizeFieldSize r + body then FrameIncomplete
             else FrameSize body)"

definition frame_msg :: "TStreamMsgReader \<Rightarrow> nat \<Rightarrow> byte list \<Rightarrow> byte list" where
  "frame_msg r n data =
     (if sr_IncludeSizeFieldInMsg r then take (sr_SizeFieldSize r + n) data
      else take n (drop (sr_SizeFieldSize r) data))"

text \<open>The messages in a stream, and what remains behind them, \<open>None\<close> if that is invalid.\<close>

function stream_msgs :: "TStreamMsgReader \<Rightarrow> byte list \<Rightarrow> byte list list \<times> byte list option" where
  "stream_msgs r data =
     (if sr_SizeFieldSize r = 0 then ([], None)
      else case frame_of r data of
        FrameIncomplete \<Rightarrow> ([], Some data)
      | FrameInvalid \<Rightarrow> ([], None)
      | FrameSize n \<Rightarrow>
          let (ms, rest) = stream_msgs r (drop (sr_SizeFieldSize r + n) data) in (frame_msg r n data # ms, rest))"
  by pat_completeness auto
termination
  by (relation "measure (\<lambda>(r, data). length data)")
    (auto simp: frame_of_def Let_def split: if_splits option.splits)

declare stream_msgs.simps [simp del]

lemma frame_of_append:
  assumes "frame_of r data \<noteq> FrameIncomplete"
  shows "frame_of r (data @ more_data) = frame_of r data"
proof -
  have len: "sr_SizeFieldSize r \<le> length data" using assms by (simp add: frame_of_def split: if_splits)
  then have "sr_ReadSizeField (sr_SizeFieldSize r) s (data @ more_data) = sr_ReadSizeField (sr_SizeFieldSize r) s data" for s
    by (simp add: sr_ReadSizeField_def)
  then show ?thesis
    using assms len by (cases "sr_ReadSizeField (sr_SizeFieldSize r) (sr_SizeFieldIsSigned r) data")
      (auto simp: frame_of_def Let_def split: if_splits)
qed

lemma frame_of_FrameSize: "frame_of r data = FrameSize n \<Longrightarrow> sr_SizeFieldSize r + n \<le> length data"
  by (auto simp: frame_of_def Let_def split: if_splits option.splits)

lemma frame_of_small: "length data < sr_SizeFieldSize r \<Longrightarrow> frame_of r data = FrameIncomplete"
  by (simp add: frame_of_def)

text \<open>Only the settings of the reader count.\<close>

definition same_format :: "TStreamMsgReader \<Rightarrow> TStreamMsgReader \<Rightarrow> bool" where
  "same_format r r' \<longleftrightarrow>
     sr_SizeFieldSize r' = sr_SizeFieldSize r \<and> sr_SizeFieldIsSigned r' = sr_SizeFieldIsSigned r \<and>
     sr_SizeIncludesSizeField r' = sr_SizeIncludesSizeField r \<and> sr_MaxMsgBodySize r' = sr_MaxMsgBodySize r \<and>
     sr_IncludeSizeFieldInMsg r' = sr_IncludeSizeFieldInMsg r \<and> sr_PreferredReadSize r' = sr_PreferredReadSize r"

lemma same_format_trans: "same_format r r1 \<Longrightarrow> same_format r1 r2 \<Longrightarrow> same_format r r2"
  by (simp add: same_format_def)

lemma same_format_frame:
  assumes "same_format r r'"
  shows "frame_of r' data = frame_of r data" "frame_msg r' n data = frame_msg r n data"
proof -
  have e: "sr_SizeFieldSize r' = sr_SizeFieldSize r" "sr_SizeFieldIsSigned r' = sr_SizeFieldIsSigned r"
     "sr_SizeIncludesSizeField r' = sr_SizeIncludesSizeField r" "sr_MaxMsgBodySize r' = sr_MaxMsgBodySize r"
     "sr_IncludeSizeFieldInMsg r' = sr_IncludeSizeFieldInMsg r"
    using assms by (simp_all add: same_format_def)
  show "frame_of r' data = frame_of r data" "frame_msg r' n data = frame_msg r n data"
    unfolding frame_of_def frame_msg_def e by (rule refl)+
qed

lemma frame_of_upd [simp]:
  "frame_of (r\<lparr>sr_OptMsgBodySize := x0\<rparr>) = frame_of r"
  "frame_of (r\<lparr>sr_OptDataInvalidReason := x1\<rparr>) = frame_of r"
  "frame_of (r\<lparr>sr_State := x2\<rparr>) = frame_of r"
  "frame_of (r\<lparr>sr_Buf := x3\<rparr>) = frame_of r"
  "frame_of (r\<lparr>sr_ReadyMsgOffset := x4\<rparr>) = frame_of r"
  "frame_of (r\<lparr>sr_ReadyMsgSize := x5\<rparr>) = frame_of r"
  "frame_of (r\<lparr>sr_TrailingDataSize := x6\<rparr>) = frame_of r"
  "frame_of (r\<lparr>sr_EndOfInput := x7\<rparr>) = frame_of r"
  by (intro ext same_format_frame(1), simp add: same_format_def)+

lemma frame_msg_upd [simp]:
  "frame_msg (r\<lparr>sr_OptMsgBodySize := x0\<rparr>) = frame_msg r"
  "frame_msg (r\<lparr>sr_OptDataInvalidReason := x1\<rparr>) = frame_msg r"
  "frame_msg (r\<lparr>sr_State := x2\<rparr>) = frame_msg r"
  "frame_msg (r\<lparr>sr_Buf := x3\<rparr>) = frame_msg r"
  "frame_msg (r\<lparr>sr_ReadyMsgOffset := x4\<rparr>) = frame_msg r"
  "frame_msg (r\<lparr>sr_ReadyMsgSize := x5\<rparr>) = frame_msg r"
  "frame_msg (r\<lparr>sr_TrailingDataSize := x6\<rparr>) = frame_msg r"
  "frame_msg (r\<lparr>sr_EndOfInput := x7\<rparr>) = frame_msg r"
  by (simp_all add: frame_msg_def fun_eq_iff)

lemma body_size_frame:
  "frame_of r (sr_data r) =
     (if length (sr_data r) < sr_SizeFieldSize r then FrameIncomplete
      else case sr_read_body_size r of Inl _ \<Rightarrow> FrameInvalid
        | Inr n \<Rightarrow> if length (sr_data r) < sr_SizeFieldSize r + n then FrameIncomplete else FrameSize n)"
  by (auto simp: frame_of_def sr_read_body_size_def Let_def split: option.split)

section \<open>The reader's state\<close>

definition sr_wf :: "TStreamMsgReader \<Rightarrow> bool" where
  "sr_wf r \<longleftrightarrow> buf_wf (sr_Buf r) \<and> 0 < sr_SizeFieldSize r \<and> 0 < sr_PreferredReadSize r \<and> 0 \<le> sr_Fd r"

text \<open>The size is known from an earlier call, or the size field has not been looked at.\<close>

definition size_known :: "TStreamMsgReader \<Rightarrow> bool" where
  "size_known r \<longleftrightarrow>
     (\<forall>n. sr_OptMsgBodySize r = Some n \<longrightarrow>
        sr_SizeFieldSize r \<le> length (sr_data r) \<and> sr_read_body_size r = Inr n)"

lemma read_body_size_upd [simp]:
  "sr_read_body_size (r\<lparr>sr_OptMsgBodySize := x\<rparr>) = sr_read_body_size r"
  "sr_read_body_size (r\<lparr>sr_OptDataInvalidReason := y\<rparr>) = sr_read_body_size r"
  "sr_read_body_size (r\<lparr>sr_State := st\<rparr>) = sr_read_body_size r"
  "sr_read_body_size (r\<lparr>sr_ReadyMsgOffset := n\<rparr>) = sr_read_body_size r"
  "sr_read_body_size (r\<lparr>sr_ReadyMsgSize := n\<rparr>) = sr_read_body_size r"
  "sr_read_body_size (r\<lparr>sr_TrailingDataSize := n\<rparr>) = sr_read_body_size r"
  "sr_read_body_size (r\<lparr>sr_EndOfInput := e\<rparr>) = sr_read_body_size r"
  by (simp_all add: sr_read_body_size_def cong: option.case_cong if_cong)

lemma read_body_size_more:
  assumes "sr_SizeFieldSize r \<le> length (sr_data r)" "bf_Data buf = sr_data r @ bs"
  shows "sr_read_body_size (r\<lparr>sr_Buf := buf\<rparr>) = sr_read_body_size r"
proof -
  have "sr_ReadSizeField (sr_SizeFieldSize r) s (bf_Data buf) = sr_ReadSizeField (sr_SizeFieldSize r) s (sr_data r)" for s
    using assms by (simp add: sr_ReadSizeField_def)
  then show ?thesis by (simp add: sr_read_body_size_def cong: option.case_cong if_cong)
qed

definition frame_result :: "TStreamMsgReader \<Rightarrow> frame \<Rightarrow> TGetMsgResult" where
  "frame_result r fr =
     (case fr of FrameIncomplete \<Rightarrow> GmNoMsgReady | FrameInvalid \<Rightarrow> GmInvalid
      | FrameSize n \<Rightarrow> if sr_IncludeSizeFieldInMsg r then GmMsgReady 0 (n + sr_SizeFieldSize r) 0
                      else GmMsgReady (sr_SizeFieldSize r) n 0)"

lemma GetNextMsg_ok:
  assumes "sr_wf r" "size_known r"
  shows "\<exists>n reason. sr_GetNextMsg r = (frame_result r (frame_of r (sr_data r)),
      r\<lparr>sr_OptMsgBodySize := n, sr_OptDataInvalidReason := reason\<rparr>) \<and>
    size_known (r\<lparr>sr_OptMsgBodySize := n, sr_OptDataInvalidReason := reason\<rparr>)"
proof -
  let ?r = "\<lambda>n reason. r\<lparr>sr_OptMsgBodySize := n, sr_OptDataInvalidReason := reason\<rparr>"
  let ?same = "?r (sr_OptMsgBodySize r) (sr_OptDataInvalidReason r)"
  have len: "bf_DataSize (sr_Buf r) = length (sr_data r)"
    using assms(1) by (simp add: sr_wf_def length_bf_Data bf_DataSize_def)
  have same: "?same = r" by simp
  consider (small) "length (sr_data r) < sr_SizeFieldSize r" | (known) n where "sr_OptMsgBodySize r = Some n"
    | (bad) reason where "sr_OptMsgBodySize r = None" "\<not> length (sr_data r) < sr_SizeFieldSize r" "sr_read_body_size r = Inl reason"
    | (body) n where "sr_OptMsgBodySize r = None" "\<not> length (sr_data r) < sr_SizeFieldSize r" "sr_read_body_size r = Inr n"
    by (cases "sr_OptMsgBodySize r"; cases "sr_read_body_size r") auto
  then show ?thesis
  proof cases
    case small
    then have "sr_GetNextMsg r = (frame_result r (frame_of r (sr_data r)), ?same)"
      by (simp add: sr_GetNextMsg_def Let_def len frame_result_def frame_of_small)
    note eq = this
    show ?thesis
      by (rule exI [of _ "sr_OptMsgBodySize r"], rule exI [of _ "sr_OptDataInvalidReason r"]) (use eq assms(2) in simp)
  next
    case (known n)
    then have "sr_SizeFieldSize r \<le> length (sr_data r)"
      "frame_of r (sr_data r) = (if length (sr_data r) < sr_SizeFieldSize r + n then FrameIncomplete else FrameSize n)"
      using assms(2) by (simp_all add: size_known_def body_size_frame)
    then have "sr_GetNextMsg r = (frame_result r (frame_of r (sr_data r)), ?same)"
      using known by (simp add: sr_GetNextMsg_def Let_def len frame_result_def)
    note eq = this
    show ?thesis
      by (rule exI [of _ "sr_OptMsgBodySize r"], rule exI [of _ "sr_OptDataInvalidReason r"]) (use eq assms(2) in simp)
  next
    case (bad reason)
    then have "sr_GetNextMsg r = (frame_result r (frame_of r (sr_data r)), ?r None (Some reason))"
      by (simp add: sr_GetNextMsg_def Let_def len frame_result_def body_size_frame)
    then show ?thesis by (intro exI [of _ None] exI [of _ "Some reason"]) (simp add: size_known_def)
  next
    case (body n)
    then have "sr_GetNextMsg r = (frame_result r (frame_of r (sr_data r)), ?r (Some n) (sr_OptDataInvalidReason r))"
      by (simp add: sr_GetNextMsg_def Let_def len frame_result_def body_size_frame)
    moreover have "size_known (?r (Some n) (sr_OptDataInvalidReason r))"
      using body by (simp add: size_known_def body_size_frame)
    ultimately show ?thesis 
      by - (rule exI [of _ "Some n"], rule exI [of _ "sr_OptDataInvalidReason r"], rule conjI)
  qed
qed

text \<open>The state is up to date with the data.\<close>

definition settled :: "TStreamMsgReader \<Rightarrow> bool" where
  "settled r \<longleftrightarrow> sr_wf r \<and> size_known r \<and>
     (case frame_of r (sr_data r) of
        FrameIncomplete \<Rightarrow> sr_State r = (if sr_EndOfInput r then AtEnd else ReadNeeded) \<and>
          sr_ReadyMsgOffset r = 0 \<and> sr_ReadyMsgSize r = 0 \<and> sr_TrailingDataSize r = 0
      | FrameInvalid \<Rightarrow> sr_State r = DataInvalid
      | FrameSize n \<Rightarrow> sr_State r = MsgReady \<and> sr_TrailingDataSize r = 0 \<and>
          (if sr_IncludeSizeFieldInMsg r then sr_ReadyMsgOffset r = 0 \<and> sr_ReadyMsgSize r = n + sr_SizeFieldSize r
           else sr_ReadyMsgOffset r = sr_SizeFieldSize r \<and> sr_ReadyMsgSize r = n))"

text \<open>What the reader keeps.\<close>

definition sr_kept :: "TStreamMsgReader \<Rightarrow> TStreamMsgReader \<Rightarrow> bool" where
  "sr_kept r r' \<longleftrightarrow> same_format r r' \<and> sr_Buf r' = sr_Buf r \<and> sr_EndOfInput r' = sr_EndOfInput r"

lemma TryAdvance_ok:
  assumes "sr_wf r" "size_known r" "sr_ReadyMsgOffset r = 0" "sr_ReadyMsgSize r = 0" "sr_TrailingDataSize r = 0"
  shows "\<exists>r'. sr_TryAdvanceToNextMsg r = Inr r' \<and> settled r' \<and> sr_kept r r'"
proof -
  from GetNextMsg_ok [OF assms(1,2)] obtain n reason where
    g: "sr_GetNextMsg r = (frame_result r (frame_of r (sr_data r)),
      r\<lparr>sr_OptMsgBodySize := n, sr_OptDataInvalidReason := reason\<rparr>)"
    "size_known (r\<lparr>sr_OptMsgBodySize := n, sr_OptDataInvalidReason := reason\<rparr>)" (is "size_known ?r1")
    by (elim exE conjE) (rule that)
  have wf: "buf_wf (sr_Buf r)" and len: "bf_DataSize (sr_Buf r) = length (sr_data r)"
    using assms(1) by (simp_all add: sr_wf_def length_bf_Data bf_DataSize_def)
  show ?thesis
  proof (cases "frame_of r (sr_data r)")
    case (FrameSize b)
    from frame_of_FrameSize [OF FrameSize] have "\<not> length (sr_data r) - sr_SizeFieldSize r < b"
      "\<not> length (sr_data r) < b + sr_SizeFieldSize r" "\<not> length (sr_data r) < sr_SizeFieldSize r" by arith+
    with FrameSize g assms show ?thesis
      by (cases "sr_IncludeSizeFieldInMsg r") (simp_all add: sr_TryAdvanceToNextMsg_def frame_result_def len settled_def sr_wf_def size_known_def sr_kept_def
          same_format_def)
  qed (use g assms in \<open>simp_all add: sr_TryAdvanceToNextMsg_def frame_result_def settled_def sr_wf_def size_known_def
      sr_kept_def same_format_def\<close>)
qed

lemma Read_ok:
  assumes s: "settled r" and st: "sr_State r = ReadNeeded" and bs: "length bs \<le> sr_PreferredReadSize r"
  shows "\<exists>r'. sr_Read (\<lambda>n. ReadBytes bs) r = Inr r' \<and> settled r' \<and> same_format r r' \<and> sr_data r' = sr_data r @ bs \<and>
    sr_EndOfInput r' = (sr_EndOfInput r \<or> bs = [])"
proof -
  let ?n = "sr_PreferredReadSize r"
  let ?b = "bf_EnsureSpace ?n (sr_Buf r)"
  have wf: "sr_wf r" "size_known r" using s by (simp_all add: settled_def)
  have ready: "sr_ReadyMsgOffset r = 0" "sr_ReadyMsgSize r = 0" "sr_TrailingDataSize r = 0"
    using s st by (auto simp: settled_def split: frame.splits if_splits)
  have b: "buf_wf ?b" "bf_Data ?b = sr_data r" "?n \<le> bf_SpaceSize ?b"
    using wf(1) bf_EnsureSpace_ok [of "sr_Buf r" ?n] by (simp_all add: sr_wf_def)
  from bf_write_space_ok [OF b(1), of bs] b bs obtain b1 where
    w: "(bf_write_space bs ?b :: TStreamError fault + TBuf) = Inr b1"
    "buf_wf (bf_MarkSpaceConsumed (length bs) b1)" "bf_Data (bf_MarkSpaceConsumed (length bs) b1) = sr_data r @ bs"
    by auto
  let ?r1 = "r\<lparr>sr_EndOfInput := sr_EndOfInput r \<or> bs = [], sr_Buf := bf_MarkSpaceConsumed (length bs) b1\<rparr>"
  have "size_known ?r1"
    using wf(2) w(3)
      read_body_size_more [of "r\<lparr>sr_EndOfInput := sr_EndOfInput r \<or> bs = []\<rparr>" "bf_MarkSpaceConsumed (length bs) b1" bs]
    by (auto simp: size_known_def)
  moreover have "sr_wf ?r1" using wf(1) w(2) by (simp add: sr_wf_def)
  ultimately obtain r' where r': "sr_TryAdvanceToNextMsg ?r1 = Inr r'" "settled r'" "sr_kept ?r1 r'"
    using TryAdvance_ok [of ?r1] ready by auto
  have "0 < ?n" using wf(1) by (simp add: sr_wf_def)
  then have "sr_Read (\<lambda>n. ReadBytes bs) r = sr_TryAdvanceToNextMsg ?r1"
    using st w(1) by (cases r) (simp add: sr_Read_def sr_PrepareForRead_def Let_def sr_ProcessReadResult_def)
  with r' w(3) show ?thesis by (simp add: sr_kept_def same_format_def)
qed

lemma Consume_ok:
  assumes s: "settled r" and st: "sr_State r = MsgReady"
  obtains n r' where "frame_of r (sr_data r) = FrameSize n" "sr_GetReadyMsg r = Inr (frame_msg r n (sr_data r))"
    "sr_ConsumeReadyMsg r = Inr r'" "settled r'" "same_format r r'"
    "sr_data r' = drop (sr_SizeFieldSize r + n) (sr_data r)" "sr_EndOfInput r' = sr_EndOfInput r"
proof -
  have wf: "sr_wf r" "buf_wf (sr_Buf r)" using s by (simp_all add: settled_def sr_wf_def)
  from s st obtain n where n: "frame_of r (sr_data r) = FrameSize n"
    by (auto simp: settled_def split: frame.splits if_splits)
  note len = frame_of_FrameSize [OF n]
  have ready: "sr_TrailingDataSize r = 0" "sr_ReadyMsgOffset r + sr_ReadyMsgSize r = sr_SizeFieldSize r + n"
    "take (sr_ReadyMsgSize r) (drop (sr_ReadyMsgOffset r) (sr_data r)) = frame_msg r n (sr_data r)"
    using s n by (auto simp: settled_def frame_msg_def add.commute split: if_splits)
  have size: "bf_DataSize (sr_Buf r) = length (sr_data r)" using wf(2) by (simp add: length_bf_Data bf_DataSize_def)
  note m = bf_MarkDataConsumed_ok [OF wf(2) len]
  let ?r1 = "r\<lparr>sr_OptMsgBodySize := None, sr_Buf := bf_MarkDataConsumed (sr_SizeFieldSize r + n) (sr_Buf r),
    sr_ReadyMsgOffset := 0, sr_ReadyMsgSize := 0, sr_TrailingDataSize := 0\<rparr>"
  have "sr_wf ?r1" "size_known ?r1" using wf(1) m(1) by (simp_all add: sr_wf_def size_known_def)
  then obtain r' where r': "sr_TryAdvanceToNextMsg ?r1 = Inr r'" "settled r'" "sr_kept ?r1 r'"
    using TryAdvance_ok [of ?r1] by auto
  have "sr_GetReadyMsg r = Inr (frame_msg r n (sr_data r))"
    using st wf(1) ready len by (auto simp: sr_GetReadyMsg_def Let_def size sr_wf_def)
  moreover have "sr_ConsumeReadyMsg r = Inr r'"
    using st ready(1,2) r'(1) by (simp add: sr_ConsumeReadyMsg_def Let_def)
  ultimately show thesis
    by (rule that [OF n]) (use r' m(2) in \<open>simp_all add: sr_kept_def same_format_def\<close>)
qed

lemma Retry_ok:
  assumes s: "settled r" and st: "sr_State r = ReadNeeded"
  shows "\<exists>r'. sr_Read (\<lambda>n. ReadRetry) r = Inr r' \<and> settled r' \<and> same_format r r' \<and> sr_data r' = sr_data r \<and>
    sr_EndOfInput r' = sr_EndOfInput r"
proof -
  let ?n = "sr_PreferredReadSize r"
  let ?b = "bf_EnsureSpace ?n (sr_Buf r)"
  have wf: "sr_wf r" "size_known r" using s by (simp_all add: settled_def)
  have b: "buf_wf ?b" "bf_Data ?b = sr_data r" using wf(1) bf_EnsureSpace_ok [of "sr_Buf r" ?n] by (simp_all add: sr_wf_def)
  let ?r1 = "r\<lparr>sr_Buf := ?b\<rparr>"
  have "size_known ?r1" using wf(2) b(2) read_body_size_more [of r ?b "[]"] by (auto simp: size_known_def)
  then have "settled ?r1" using s b by (cases "frame_of r (sr_data r)") (simp_all add: settled_def sr_wf_def)
  moreover have "sr_Read (\<lambda>n. ReadRetry) r = Inr ?r1"
    using st wf(1) by (simp add: sr_Read_def sr_PrepareForRead_def Let_def sr_ProcessReadResult_def sr_wf_def)
  ultimately show ?thesis using b(2) by (intro exI [of _ ?r1]) (simp add: same_format_def)
qed

section \<open>Histories\<close>

datatype stream_event = EvRead "byte list" | EvRetry | EvConsume

text \<open>What a client does with the reader: it reads when the reader needs data, and consumes a message when one is
  ready.  With the reader go the bytes read and the messages consumed so far.\<close>

type_synonym stream_client = "byte list \<times> byte list list \<times> TStreamMsgReader"

definition stream_step :: "stream_event \<Rightarrow> stream_client \<Rightarrow> TStreamError fault + stream_client" where
  "stream_step ev = (\<lambda>(inp, out, r).
     case ev of
       EvRead bs \<Rightarrow> bindF (sr_Read (\<lambda>n. ReadBytes bs) r) (\<lambda>r. Inr (inp @ bs, out, r))
     | EvRetry \<Rightarrow> bindF (sr_Read (\<lambda>n. ReadRetry) r) (\<lambda>r. Inr (inp, out, r))
     | EvConsume \<Rightarrow> bindF (sr_GetReadyMsg r) (\<lambda>m. bindF (sr_ConsumeReadyMsg r) (\<lambda>r. Inr (inp, out @ [m], r))))"

definition stream_allowed :: "stream_event \<Rightarrow> TStreamMsgReader \<Rightarrow> bool" where
  "stream_allowed ev r \<longleftrightarrow>
     (case ev of EvRead bs \<Rightarrow> sr_State r = ReadNeeded \<and> length bs \<le> sr_PreferredReadSize r
      | EvRetry \<Rightarrow> sr_State r = ReadNeeded | EvConsume \<Rightarrow> sr_State r = MsgReady)"

fun stream_run :: "stream_event list \<Rightarrow> stream_client \<Rightarrow> TStreamError fault + stream_client option" where
  "stream_run [] c = Inr (Some c)"
| "stream_run (ev # evs) c =
     (if stream_allowed ev (snd (snd c)) then bindF (stream_step ev c) (stream_run evs) else Inr None)"

lemma stream_msgs_format:
  assumes "same_format r r'"
  shows "stream_msgs r' data = stream_msgs r data"
  using assms
proof (induction r data rule: stream_msgs.induct)
  case (1 r data)
  have e: "sr_SizeFieldSize r' = sr_SizeFieldSize r" "frame_of r' data = frame_of r data" "\<And>n. frame_msg r' n data = frame_msg r n data"
    using "1.prems" same_format_frame [OF "1.prems"] by (simp_all add: same_format_def)
  show ?case
    using 1 e by (subst stream_msgs.simps, subst (2) stream_msgs.simps) (simp split: frame.split)
qed

definition stream_inv :: "TStreamMsgReader \<Rightarrow> stream_client \<Rightarrow> bool" where
  "stream_inv r0 = (\<lambda>(inp, out, r).
     settled r \<and> same_format r0 r \<and>
     (\<forall>b. stream_msgs r0 (inp @ b) = (out @ fst (stream_msgs r0 (sr_data r @ b)), snd (stream_msgs r0 (sr_data r @ b)))))"

lemma stream_step_ok:
  assumes inv: "stream_inv r0 c" and ok: "stream_allowed ev (snd (snd c))"
  shows "\<exists>c'. stream_step ev c = Inr c' \<and> stream_inv r0 c'"
proof -
  obtain inp out r where c: "c = (inp, out, r)" by (metis surj_pair)
  have r: "settled r" "same_format r0 r"
    "\<And>b. stream_msgs r0 (inp @ b) = (out @ fst (stream_msgs r0 (sr_data r @ b)), snd (stream_msgs r0 (sr_data r @ b)))"
    using inv by (simp_all add: c stream_inv_def)
  show ?thesis
  proof (cases ev)
    case (EvRead bs)
    then have "sr_State r = ReadNeeded" "length bs \<le> sr_PreferredReadSize r" using ok by (simp_all add: c stream_allowed_def)
    from Read_ok [OF r(1) this] obtain r' where "sr_Read (\<lambda>n. ReadBytes bs) r = Inr r'" "settled r'" "same_format r r'"
      "sr_data r' = sr_data r @ bs" by blast
    with EvRead r same_format_trans [OF r(2), of r'] show ?thesis by (simp add: c stream_step_def stream_inv_def)
  next
    case EvRetry
    then have "sr_State r = ReadNeeded" using ok by (simp add: c stream_allowed_def)
    from Retry_ok [OF r(1) this] obtain r' where "sr_Read (\<lambda>n. ReadRetry) r = Inr r'" "settled r'" "same_format r r'"
      "sr_data r' = sr_data r" by blast
    with EvRetry r same_format_trans [OF r(2), of r'] show ?thesis by (simp add: c stream_step_def stream_inv_def)
  next
    case EvConsume
    then have "sr_State r = MsgReady" using ok by (simp add: c stream_allowed_def)
    from Consume_ok [OF r(1) this] obtain n r' where
      n: "frame_of r (sr_data r) = FrameSize n" "sr_GetReadyMsg r = Inr (frame_msg r n (sr_data r))"
      "sr_ConsumeReadyMsg r = Inr r'" "settled r'" "same_format r r'"
      "sr_data r' = drop (sr_SizeFieldSize r + n) (sr_data r)" by blast
    have "stream_msgs r0 (sr_data r @ b) = (frame_msg r n (sr_data r) # fst (stream_msgs r0 (sr_data r' @ b)),
        snd (stream_msgs r0 (sr_data r' @ b)))" for b
    proof -
      have f: "frame_of r0 (sr_data r @ b) = FrameSize n"
        using n(1) frame_of_append [of r "sr_data r" b] same_format_frame(1) [OF r(2)] by simp
      have len: "sr_SizeFieldSize r + n \<le> length (sr_data r)" by (rule frame_of_FrameSize [OF n(1)])
      then have m: "frame_msg r0 n (sr_data r @ b) = frame_msg r n (sr_data r)"
        using same_format_frame(2) [OF r(2), of n "sr_data r"] r(2) by (simp add: frame_msg_def same_format_def)
      have "sr_SizeFieldSize r0 = sr_SizeFieldSize r" "0 < sr_SizeFieldSize r"
        using r(1,2) by (simp_all add: same_format_def settled_def sr_wf_def)
      then show ?thesis using len by (subst stream_msgs.simps) (simp add: f m n(6) case_prod_beta)
    qed
    with EvConsume n r same_format_trans [OF r(2), of r'] show ?thesis by (simp add: c stream_step_def stream_inv_def)
  qed
qed

lemma stream_run_inv:
  "stream_inv r0 c \<Longrightarrow> \<exists>result. stream_run evs c = Inr result \<and> (\<forall>c'. result = Some c' \<longrightarrow> stream_inv r0 c')"
proof (induction evs arbitrary: c)
  case (Cons ev evs)
  show ?case
  proof (cases "stream_allowed ev (snd (snd c))")
    case True
    from stream_step_ok [OF Cons.prems True] obtain c' where "stream_step ev c = Inr c'" "stream_inv r0 c'" by blast
    with Cons.IH [of c'] True show ?thesis by simp
  qed simp
qed auto

lemma Reset_inv:
  assumes "buf_wf (sr_Buf r)" "0 < sr_SizeFieldSize r" "0 < sr_PreferredReadSize r" "0 \<le> fd"
  shows "stream_inv (sr_Reset fd r) ([], [], sr_Reset fd r)" "same_format r (sr_Reset fd r)"
proof -
  let ?r = "sr_Reset fd r"
  have f: "frame_of ?r (sr_data ?r) = FrameIncomplete"
    using assms bf_Clear_ok [OF assms(1)] by (intro frame_of_small) (simp add: sr_Reset_def sr_HandleReset_def sr_impl_def Let_def)
  have "sr_wf ?r" "size_known ?r" "sr_data ?r = []"
    using assms bf_Clear_ok [OF assms(1)] by (simp_all add: sr_Reset_def sr_HandleReset_def sr_impl_def Let_def sr_wf_def size_known_def)
  then have "settled ?r" using assms(4) unfolding settled_def f by (simp add: sr_Reset_def sr_HandleReset_def sr_impl_def Let_def)
  with \<open>sr_data ?r = []\<close> show "stream_inv ?r ([], [], ?r)" by (simp add: stream_inv_def same_format_def)
  show "same_format r ?r" by (simp add: sr_Reset_def sr_HandleReset_def sr_impl_def Let_def same_format_def)
qed

text \<open>
  C31. However a stream is cut into reads, a client of the reader gets the messages of the stream, complete, in order and
  each once.  After any sequence of reads and consumptions, the messages consumed are those of the bytes read:
  all of them when the reader wants more data or has come to the end, with the incomplete rest in its buffer; all
  of them up to an invalid size field; and when a message is ready, it is the next one.  The reader
  never ends the program and stays within its buffer.
\<close>

theorem stream_reassembly:
  assumes "buf_wf (sr_Buf r)" "0 < sr_SizeFieldSize r" "0 < sr_PreferredReadSize r" "0 \<le> fd"
  shows "case stream_run evs ([], [], sr_Reset fd r) of
      Inl _ \<Rightarrow> False
    | Inr None \<Rightarrow> True
    | Inr (Some (inp, out, r')) \<Rightarrow>
        (case sr_State r' of
           ReadNeeded \<Rightarrow> stream_msgs r inp = (out, Some (sr_data r')) \<and> \<not> sr_EndOfInput r'
         | AtEnd \<Rightarrow> stream_msgs r inp = (out, Some (sr_data r')) \<and> sr_EndOfInput r'
         | DataInvalid \<Rightarrow> stream_msgs r inp = (out, None)
         | MsgReady \<Rightarrow> \<exists>m ms rest. sr_GetReadyMsg r' = Inr m \<and> stream_msgs r inp = (out @ m # ms, rest))"
proof -
  note reset = Reset_inv [OF assms]
  from stream_run_inv [OF reset(1), of evs] obtain result where
    run: "stream_run evs ([], [], sr_Reset fd r) = Inr result" "\<forall>c'. result = Some c' \<longrightarrow> stream_inv (sr_Reset fd r) c'" by blast
  show ?thesis
  proof (cases result)
    case None
    then show ?thesis using run(1) by simp
  next
    case (Some c)
    obtain inp out r' where c: "c = (inp, out, r')" by (metis surj_pair)
    have inv: "settled r'" "same_format (sr_Reset fd r) r'"
      "\<And>b. stream_msgs (sr_Reset fd r) (inp @ b) =
        (out @ fst (stream_msgs (sr_Reset fd r) (sr_data r' @ b)), snd (stream_msgs (sr_Reset fd r) (sr_data r' @ b)))"
      using run(2) Some by (simp_all add: c stream_inv_def)
    have f: "same_format r r'" by (rule same_format_trans [OF reset(2) inv(2)])
    have m: "stream_msgs r inp = (out @ fst (stream_msgs r (sr_data r')), snd (stream_msgs r (sr_data r')))"
      using inv(3) [of "[]"] by (simp add: stream_msgs_format [OF reset(2)])
    have fr: "frame_of r (sr_data r') = frame_of r' (sr_data r')" using same_format_frame(1) [OF f] by simp
    have s: "stream_msgs r (sr_data r') =
        (case frame_of r' (sr_data r') of FrameIncomplete \<Rightarrow> ([], Some (sr_data r')) | FrameInvalid \<Rightarrow> ([], None)
         | FrameSize n \<Rightarrow> let (ms, rest) = stream_msgs r (drop (sr_SizeFieldSize r + n) (sr_data r')) in (frame_msg r n (sr_data r') # ms, rest))"
      using assms(2) by (subst stream_msgs.simps) (simp add: fr)
    show ?thesis
    proof (cases "frame_of r' (sr_data r')")
      case (FrameSize n)
      then have st: "sr_State r' = MsgReady" using inv(1) by (simp add: settled_def)
      from Consume_ok [OF inv(1) st] FrameSize have "sr_GetReadyMsg r' = Inr (frame_msg r' n (sr_data r'))" by (metis frame.inject)
      then show ?thesis
        using m s FrameSize same_format_frame(2) [OF f, of n "sr_data r'"] by (simp add: run(1) Some c st case_prod_beta)
    qed (use m s inv(1) in \<open>auto simp: run(1) Some c settled_def\<close>)
  qed
qed

text \<open>A reader as the connector has it, with a stream of two messages and a part of a third that comes in pieces.\<close>

definition ex_reader :: TStreamMsgReader where
  "ex_reader = (case new_TStreamMsgReader (-1) 4 True False True 100 8 of Inr r \<Rightarrow> r)"

definition ex_events :: "stream_event list" where
  "ex_events = [EvRead [0, 0, 0], EvRead [2, 7, 8, 0, 0], EvConsume, EvRetry, EvRead [0, 1, 9, 0], EvConsume]"

theorem stream_reassembly_witness:
  "\<exists>r'. stream_run ex_events ([], [], sr_Reset 3 ex_reader) =
       Inr (Some ([0, 0, 0, 2, 7, 8, 0, 0, 0, 1, 9, 0], [[0, 0, 0, 2, 7, 8], [0, 0, 0, 1, 9]], r')) \<and>
     stream_msgs ex_reader [0, 0, 0, 2, 7, 8, 0, 0, 0, 1, 9, 0] =
       ([[0, 0, 0, 2, 7, 8], [0, 0, 0, 1, 9]], Some [0]) \<and> sr_data r' = [0]"
proof -
  have hyps: "buf_wf (sr_Buf ex_reader)" "0 < sr_SizeFieldSize ex_reader" "0 < sr_PreferredReadSize ex_reader" "(0 :: int) \<le> 3"
    by code_simp+
  have "map_sum (\<lambda>_. ()) (map_option (\<lambda>(inp, out, r). (inp, out, sr_State r, sr_data r)))
      (stream_run ex_events ([], [], sr_Reset 3 ex_reader)) =
    Inr (Some ([0, 0, 0, 2, 7, 8, 0, 0, 0, 1, 9, 0], [[0, 0, 0, 2, 7, 8], [0, 0, 0, 1, 9]], ReadNeeded, [0]))"
    by code_simp
  then obtain r' where r': "stream_run ex_events ([], [], sr_Reset 3 ex_reader) =
      Inr (Some ([0, 0, 0, 2, 7, 8, 0, 0, 0, 1, 9, 0], [[0, 0, 0, 2, 7, 8], [0, 0, 0, 1, 9]], r'))"
    "sr_State r' = ReadNeeded" "sr_data r' = [0]"
    by (cases "stream_run ex_events ([], [], sr_Reset 3 ex_reader)") auto
  show ?thesis
    using stream_reassembly [OF hyps, of ex_events] r' by (intro exI [of _ r']) simp
qed

end
