(* ===== verification/Spec2Isabelle.thy ===== *)
theory Spec2Isabelle
  imports Broker_Msg_Queue Produce_Request_Factory Metadata_Compare Metadata_Safety Stream_Reader
begin

text \<open>
  Verification of Dory, a message proxy between local clients and Apache Kafka.

  \<^bold>\<open>The program.\<close>  Clients send messages to Dory.  The router thread routes them by the cluster's
  metadata (\<open>src/dory/metadata.{h,cc}\<close>, obtained with \<open>src/dory/kafka_proto/metadata/v0\<close>), batches them
  per topic (\<open>src/dory/batch\<close>) and hands them to the dispatcher.  For each broker a queue
  (\<open>src/dory/msg_dispatch/broker_msg_queue.{h,cc}\<close>) connects the router to a connector thread, which
  combines messages into produce requests (\<open>src/dory/kafka_proto/produce/v0\<close>).  A tracker
  (\<open>src/dory/msg_state_tracker.{h,cc}\<close>) counts messages by topic and state on the way.  Paths are
  relative to the directory \<open>src\<close> of the repository.

  \<^bold>\<open>Theories.\<close>
  \<^item> \<open>Dory_Prelude\<close>: association lists as \<open>std::unordered_map\<close>, 16, 32 and 64 bit integers, counters,
    first-in first-out lemmas, shared simplification rules.
  \<^item> \<open>Msg\<close>: \<open>TMsg\<close> as a record; messages are values, owned by exactly one list.
  \<^item> \<open>Msg_State_Tracker\<close>: \<open>TMsgStateTracker\<close>; the statistics are exact over every history.
  \<^item> \<open>Batcher_Core\<close>, \<open>Single_Topic_Batcher\<close>, \<open>Per_Topic_Batcher\<close>, \<open>Combined_Topics_Batcher\<close>,
    \<open>Topic_Map\<close>: \<open>src/dory/batch\<close> and \<open>src/dory/util/topic_map\<close>.  \<open>Batcher_Interface\<close> has the locale
    of what a batcher promises to the queue, interpreted for both batchers.  Shown are the limits on
    batches, order and conservation of messages, and the classes' own sanity checks.
  \<^item> \<open>Batch_Conf\<close>: the batching configuration and its builders.
  \<^item> \<open>Broker_Msg_Queue\<close>: each call is a step on the queue's state, as the mutex is held; an inductive
    relation over histories of calls of both threads gives order, conservation, exactness of the
    tracker, and that no wakeup of the connector is lost.
  \<^item> \<open>Field_Access\<close>: the big-endian fields of messages on the wire.  Memory is a byte list, an access
    outside of it or a signed overflow is the result \<open>Undefined\<close>, an exception is \<open>Thrown\<close>.
  \<^item> \<open>Msg_Set_Writer\<close>, \<open>Msg_Set_Reader\<close>, \<open>Produce_Request_Writer\<close>, \<open>Produce_Request_Reader\<close>,
    \<open>Prod_Req_Builder\<close>, \<open>Produce_Roundtrip\<close>: writing produce requests, and the mock server's reader of
    them.  The writers are shown to produce an encoding, from which the reader gets everything back.
  \<^item> \<open>Metadata\<close>, \<open>Metadata_Build\<close>, \<open>Metadata_Check\<close>, \<open>Metadata_Compare\<close>: \<open>TMetadata\<close> with its builder,
    sanity check and comparison, against a specification by finite maps.
  \<^item> \<open>Metadata_Response_Reader\<close>, \<open>Metadata_Proto\<close>, \<open>Metadata_Safety\<close>: reading metadata responses of
    arbitrary contents: termination, memory safety, and the metadata that results.
  \<^item> \<open>Request_Contents\<close>, \<open>Request_Fill\<close>, \<open>Produce_Request_Factory\<close>:
    \<open>src/dory/msg_dispatch/produce_request_factory.{h,cc}\<close>, which groups queued messages into a request and
    writes it, message sets compressed where that gains enough; what a request takes, its limits, the
    rotation of partitions, and that the server gets exactly the messages taken.
  \<^item> \<open>Buf\<close>, \<open>Stream_Reader\<close>: \<open>src/base/buf.h\<close> and the readers that cut the bytes received on a socket into
    messages with a size field; the buffer is a queue, and however a stream is cut into reads, its
    messages come out complete and in order.

  \<^bold>\<open>Conventions.\<close>  Definitions carry the names of the code with a prefix for the class.  Assertions
  are disabled in release builds; the asserted conditions are lemmas.  Containers are lists, iterators
  are identities of their elements.  Loops are recursive functions with termination proofs and no
  fuel.  Logging is left out, counters are kept where they are part of a result.  Not in the source
  and therefore parameters: the CRC function, compression codecs, the permutation of \<open>std::shuffle\<close>,
  the order that \<open>std::sort\<close> gives to equal elements, and clock readings.  The order in which an
  \<open>unordered_map\<close> is traversed is the order of insertion; the theorems do not depend on it.

  \<^bold>\<open>Not modelled.\<close>  The threads and event loops with their sockets (input agents, router thread loop,
  connector, metadata fetcher, servers), the web interface and log files, the XML configuration file
  apart from batching, the client library, memory pools, and the mock server apart from its request
  builder.  They are operating system interaction or output, and where they make decisions on data these
  are in the components above.
\<close>

end
